(* ===== verification/Prelude.thy ===== *)
theory Prelude
  imports
    Main
    "HOL-Library.Word"
    "HOL-Library.AList"
    "HOL-Library.Monad_Syntax"
    "HOL-Library.Signed_Division"
    "HOL-Library.Sublist"
begin

text \<open>
  The vocabulary shared by every component theory: names for the fixed-width integers of
  \<open>apache_util/base/basictypes.h\<close>, the standard containers the sources use
  (\<^verbatim>\<open>std::unordered_map\<close> as an association list in iteration order,
  \<^verbatim>\<open>std::string\<close> searches), the reachability predicate of a transition system with the
  locale that turns a step-wise invariant into a reachable one, and the simplification sets.

  A function that may abort the process (a failed \<^verbatim>\<open>CHECK\<close>, \<^verbatim>\<open>LOG(FATAL)\<close>, an uncaught
  exception, an access outside a buffer) returns an \<open>option\<close> and \<open>None\<close> is the abort; the
  code is written in the option monad. \<^verbatim>\<open>DCHECK\<close>s are compiled out of a release build, so
  they are no branches of the model: where one matters it is a theorem.
\<close>

named_theorems nt_status "values of the NT_STATUS constants"
named_theorems proxy_frame "which parts of the proxy state an operation leaves alone"
named_theorems pool_simps "equations that describe a step on the connection pool"

subsection \<open>Fixed-width integers\<close>

type_synonym uint8 = "8 word"
type_synonym uint16 = "16 word"
type_synonym uint32 = "32 word"
type_synonym uint64 = "64 word"

text \<open>Signed integers are \<^typ>\<open>int\<close>: signed overflow is undefined in C++, so every defined
  execution computes the mathematical value. Conversions to an unsigned type wrap.\<close>

type_synonym addr = nat
  \<comment> \<open>the address of a heap object held by a \<^verbatim>\<open>std::shared_ptr\<close>\<close>

subsection \<open>Unordered maps as association lists\<close>

text \<open>An association list with distinct keys, in the iteration order of the container:
  \<open>map_of\<close> is \<^verbatim>\<open>find\<close>, \<^const>\<open>AList.delete\<close> is \<^verbatim>\<open>erase\<close>, \<^const>\<open>AList.update\<close> is
  an assignment through \<^verbatim>\<open>operator[]\<close>, and \<open>emplace\<close> keeps an existing entry.\<close>

type_synonym ('k, 'v) umap = "('k \<times> 'v) list"

definition emplace :: "'k \<Rightarrow> 'v \<Rightarrow> ('k, 'v) umap \<Rightarrow> ('k, 'v) umap" where
  "emplace k v m = (case map_of m k of None \<Rightarrow> m @ [(k, v)] | Some _ \<Rightarrow> m)"

abbreviation keys_distinct :: "('k, 'v) umap \<Rightarrow> bool" where
  "keys_distinct m \<equiv> distinct (map fst m)"

lemma map_of_emplace [simp]:
  "map_of (emplace k v m) =
     (case map_of m k of None \<Rightarrow> (map_of m)(k \<mapsto> v) | Some _ \<Rightarrow> map_of m)"
  by (auto simp: emplace_def map_add_def split: option.splits)

lemma emplace_fresh: "map_of m k = None \<Longrightarrow> emplace k v m = m @ [(k, v)]"
  by (simp add: emplace_def)

lemma keys_emplace [simp]: "fst ` set (emplace k v m) = insert k (fst ` set m)"
proof (cases "map_of m k")
  case None
  then show ?thesis by (simp add: emplace_def)
next
  case (Some u)
  then have "k \<in> fst ` set m" by (metis map_of_eq_None_iff option.distinct(1))
  with Some show ?thesis by (auto simp: emplace_def)
qed

lemma keys_distinct_emplace [simp]: "keys_distinct m \<Longrightarrow> keys_distinct (emplace k v m)"
  by (auto simp: emplace_def map_of_eq_None_iff split: option.splits)

lemma map_of_delete [simp]: "map_of (AList.delete k m) = (map_of m)(k := None)"
  by (simp add: delete_conv')

lemma keys_distinct_delete [simp]: "keys_distinct m \<Longrightarrow> keys_distinct (AList.delete k m)"
  by (rule distinct_delete)

lemma set_delete [simp]: "set (AList.delete k m) = {p \<in> set m. fst p \<noteq> k}"
  by (induction m) auto

lemma set_update:
  "keys_distinct m \<Longrightarrow> set (AList.update k v m) = insert (k, v) {p \<in> set m. fst p \<noteq> k}"
  by (induction m) (auto simp: rev_image_eqI)

lemma length_delete_present:
  "keys_distinct m \<Longrightarrow> map_of m k = Some v \<Longrightarrow> Suc (length (AList.delete k m)) = length m"
proof (induction m)
  case (Cons p m)
  show ?case
  proof (cases "fst p = k")
    case True
    with Cons.prems(1) have "k \<notin> fst ` set m" by auto
    with True show ?thesis by (cases p) (simp add: delete_id)
  next
    case False
    with Cons show ?thesis by (cases p) auto
  qed
qed simp

subsection \<open>Searching in strings\<close>

text \<open>\<^verbatim>\<open>std::string::rfind(char)\<close>: the position of the last occurrence, if any.\<close>

fun rfind :: "char \<Rightarrow> string \<Rightarrow> nat option" where
  "rfind c [] = None"
| "rfind c (x # xs) =
     (case rfind c xs of Some n \<Rightarrow> Some (Suc n) | None \<Rightarrow> if x = c then Some 0 else None)"

lemma rfind_None: "rfind c s = None \<longleftrightarrow> c \<notin> set s"
  by (induction s) (auto split: option.splits)

lemma rfind_Some:
  "rfind c s = Some n \<Longrightarrow> n < length s \<and> s ! n = c \<and> c \<notin> set (drop (Suc n) s)"
proof (induction s arbitrary: n)
  case (Cons x xs)
  then show ?case by (auto simp: rfind_None split: option.splits if_splits)
qed simp

text \<open>The bytes of a C string: everything before the first NUL.\<close>

definition c_str :: "string \<Rightarrow> string" where
  "c_str s = takeWhile (\<lambda>c. c \<noteq> CHR 0x00) s"

text \<open>\<^verbatim>\<open>strncmp(a, b, n) == 0\<close>.\<close>

definition strncmp_eq :: "string \<Rightarrow> string \<Rightarrow> nat \<Rightarrow> bool" where
  "strncmp_eq a b n \<longleftrightarrow> take n (c_str a @ [CHR 0x00]) = take n (c_str b @ [CHR 0x00])"

text \<open>\<^verbatim>\<open>std::to_string\<close> of an integer.\<close>

definition digit_char :: "nat \<Rightarrow> char" where
  "digit_char d = char_of (48 + d)"

fun dec_nat :: "nat \<Rightarrow> string" where
  "dec_nat n = (if n < 10 then [digit_char n] else dec_nat (n div 10) @ [digit_char (n mod 10)])"

declare dec_nat.simps [simp del]

definition to_string :: "int \<Rightarrow> string" where
  "to_string i = (if i < 0 then CHR ''-'' # dec_nat (nat (- i)) else dec_nat (nat i))"

abbreviation slash :: char where "slash \<equiv> CHR 0x2F"
abbreviation bslash :: char where "bslash \<equiv> CHR 0x5C"

subsection \<open>The option monad\<close>

lemmas abort_simps = Option.bind_eq_Some_conv Option.bind_eq_None_conv

text \<open>A failed \<^verbatim>\<open>CHECK\<close> aborts.\<close>

definition CHECK :: "bool \<Rightarrow> unit option" where
  "CHECK b = (if b then Some () else None)"

lemma CHECK_simps [simp]:
  "CHECK b = Some u \<longleftrightarrow> b" "CHECK b = None \<longleftrightarrow> \<not> b" "CHECK True = Some ()"
  by (auto simp: CHECK_def)

text \<open>Results of the form \<open>((a, b), (c, d))\<close> and \<open>((a, b), c)\<close>.\<close>

lemma pair_pairE: obtains a b c d where "x = ((a, b), (c, d))"
  by (metis surj_pair)

lemma pair_fstE: obtains a b c where "x = ((a, b), c)"
  by (metis surj_pair)

subsection \<open>Transition systems\<close>

text \<open>The states a transition system reaches from its initial states.\<close>

inductive reachable :: "('s \<Rightarrow> bool) \<Rightarrow> ('s \<Rightarrow> 's \<Rightarrow> bool) \<Rightarrow> 's \<Rightarrow> bool"
  for init :: "'s \<Rightarrow> bool" and step :: "'s \<Rightarrow> 's \<Rightarrow> bool" where
  reach_init: "init s \<Longrightarrow> reachable init step s"
| reach_step: "reachable init step s \<Longrightarrow> step s t \<Longrightarrow> reachable init step t"

text \<open>An inductive invariant: it holds initially and every step keeps it.\<close>

locale inductive_invariant =
  fixes init :: "'s \<Rightarrow> bool"
    and step :: "'s \<Rightarrow> 's \<Rightarrow> bool"
    and inv :: "'s \<Rightarrow> bool"
  assumes inv_init: "init s \<Longrightarrow> inv s"
    and inv_step: "inv s \<Longrightarrow> step s t \<Longrightarrow> inv t"
begin

lemma reachable_inv: "reachable init step s \<Longrightarrow> inv s"
  by (induction rule: reachable.induct) (auto intro: inv_init inv_step)

lemma run_inv: "step\<^sup>*\<^sup>* s t \<Longrightarrow> inv s \<Longrightarrow> inv t"
  by (induction rule: rtranclp_induct) (auto intro: inv_step)

end

lemma reachable_run: "step\<^sup>*\<^sup>* s t \<Longrightarrow> reachable init step s \<Longrightarrow> reachable init step t"
  by (induction rule: rtranclp_induct) (auto intro: reach_step)

end
