(* ===== verification/Error_Model.thy ===== *)
theory Error_Model
  imports Prelude
begin

text \<open>
  The error class of \<open>apache_util/base/error.h\<close> and \<open>error.cc\<close> over the protobuf message
  \<open>ErrorProto\<close> of \<open>error.proto\<close>. Both fields are optional: an unset \<open>type\<close> reads as
  \<open>kNoError\<close>. \<open>posix_strerror_r\<close> of glog is a parameter.
\<close>

datatype error_type =
    kNoError | kTransportError | kTimeout | kRetry | kCancelled | kNonExistent
  | kNotDirectory | kNameTooLong | kPermissionDenied | kInvalid | kNotSupported
  | kBufferTooSmall | kSizeExceededSystemLimit | kAttrNonExistent | kAlreadyExists
  | kCannotDelete | kPathNotCovered | kErrorCount

text \<open>The enumeration's numbers, which order the type.\<close>

fun error_number :: "error_type \<Rightarrow> nat" where
  "error_number kNoError = 0"
| "error_number kTransportError = 1"
| "error_number kTimeout = 2"
| "error_number kRetry = 3"
| "error_number kCancelled = 4"
| "error_number kNonExistent = 5"
| "error_number kNotDirectory = 6"
| "error_number kNameTooLong = 7"
| "error_number kPermissionDenied = 8"
| "error_number kInvalid = 9"
| "error_number kNotSupported = 10"
| "error_number kBufferTooSmall = 11"
| "error_number kSizeExceededSystemLimit = 12"
| "error_number kAttrNonExistent = 13"
| "error_number kAlreadyExists = 14"
| "error_number kCannotDelete = 15"
| "error_number kPathNotCovered = 16"
| "error_number kErrorCount = 17"

lemma error_number_inj: "error_number a = error_number b \<longleftrightarrow> a = b"
  by (cases a; cases b) simp_all

instantiation error_type :: linorder
begin

definition less_eq_error_type :: "error_type \<Rightarrow> error_type \<Rightarrow> bool" where
  "less_eq_error_type a b \<longleftrightarrow> error_number a \<le> error_number b"

definition less_error_type :: "error_type \<Rightarrow> error_type \<Rightarrow> bool" where
  "less_error_type a b \<longleftrightarrow> error_number a < error_number b"

instance
  by standard (auto simp: less_eq_error_type_def less_error_type_def error_number_inj)

end

text \<open>Every code of the enumeration lies below the counter value that closes it.\<close>

lemma error_type_bounds: "kNoError \<le> t \<and> t \<le> kErrorCount"
  by (cases t) (simp_all add: less_eq_error_type_def)

record Error =
  err_type :: "error_type option"
  err_detail :: "string option"

definition no_error :: Error where
  "no_error = \<lparr>err_type = None, err_detail = None\<rparr>"

definition type_of :: "Error \<Rightarrow> error_type" where
  "type_of e = (case err_type e of None \<Rightarrow> kNoError | Some t \<Rightarrow> t)"

definition error_detail :: "Error \<Rightarrow> string" where
  "error_detail e = (case err_detail e of None \<Rightarrow> [] | Some d \<Rightarrow> d)"

definition mk_error :: "error_type \<Rightarrow> string \<Rightarrow> Error" where
  "mk_error t d = \<lparr>err_type = Some t, err_detail = Some d\<rparr>"

definition Ok :: "Error \<Rightarrow> bool" where
  "Ok e \<longleftrightarrow> type_of e = kNoError"

definition set_type :: "error_type \<Rightarrow> Error \<Rightarrow> Error" where
  "set_type t e = e\<lparr>err_type := Some t\<rparr>"

text \<open>The move constructor: the type is always set, the detail only if the source has one,
  and the source is cleared. The second component is the source afterwards.\<close>

definition move_error :: "Error \<Rightarrow> Error \<times> Error" where
  "move_error e = (\<lparr>err_type = Some (type_of e), err_detail = err_detail e\<rparr>, no_error)"

definition ToProto :: "Error \<Rightarrow> Error" where
  "ToProto e =
     (let p = no_error;
          p = (case err_type e of None \<Rightarrow> p | Some t \<Rightarrow> p\<lparr>err_type := Some t\<rparr>)
      in case err_detail e of None \<Rightarrow> p | Some d \<Rightarrow> p\<lparr>err_detail := Some d\<rparr>)"

fun Type_Name :: "error_type \<Rightarrow> string" where
  "Type_Name kNoError = ''kNoError''"
| "Type_Name kTransportError = ''kTransportError''"
| "Type_Name kTimeout = ''kTimeout''"
| "Type_Name kRetry = ''kRetry''"
| "Type_Name kCancelled = ''kCancelled''"
| "Type_Name kNonExistent = ''kNonExistent''"
| "Type_Name kNotDirectory = ''kNotDirectory''"
| "Type_Name kNameTooLong = ''kNameTooLong''"
| "Type_Name kPermissionDenied = ''kPermissionDenied''"
| "Type_Name kInvalid = ''kInvalid''"
| "Type_Name kNotSupported = ''kNotSupported''"
| "Type_Name kBufferTooSmall = ''kBufferTooSmall''"
| "Type_Name kSizeExceededSystemLimit = ''kSizeExceededSystemLimit''"
| "Type_Name kAttrNonExistent = ''kAttrNonExistent''"
| "Type_Name kAlreadyExists = ''kAlreadyExists''"
| "Type_Name kCannotDelete = ''kCannotDelete''"
| "Type_Name kPathNotCovered = ''kPathNotCovered''"
| "Type_Name kErrorCount = ''kErrorCount''"

definition ToString :: "Error \<Rightarrow> string" where
  "ToString e =
     (if Ok e then Type_Name (type_of e)
      else ''['' @ Type_Name (type_of e) @ '']: '' @ error_detail e)"

definition CheckOk :: "Error \<Rightarrow> unit option" where
  "CheckOk e = CHECK (type_of e = kNoError)"

subsection \<open>Errors from errno\<close>

abbreviation (input) "ENOENT \<equiv> (2::int)"
abbreviation (input) "E2BIG \<equiv> (7::int)"
abbreviation (input) "EACCES \<equiv> (13::int)"
abbreviation (input) "ENOTDIR \<equiv> (20::int)"
abbreviation (input) "ERANGE \<equiv> (34::int)"
abbreviation (input) "ENAMETOOLONG \<equiv> (36::int)"
abbreviation (input) "ENODATA \<equiv> (61::int)"
abbreviation (input) "ENOTSUP \<equiv> (95::int)"

text \<open>The parameter returns \<open>posix_strerror_r\<close>'s result code and the buffer it filled.\<close>

definition ErrnumToString :: "(int \<Rightarrow> int \<times> string) \<Rightarrow> int \<Rightarrow> string" where
  "ErrnumToString strerror errnum =
     (let (ret, buf) = strerror errnum
      in if ret < 0 \<or> c_str buf = [] then ''Error number '' @ to_string errnum else c_str buf)"

definition errno_type :: "int \<Rightarrow> error_type" where
  "errno_type errnum =
     (if errnum = EACCES then kPermissionDenied
      else if errnum = ENAMETOOLONG then kNameTooLong
      else if errnum = ENOENT \<or> errnum = ENOTDIR then kNonExistent
      else if errnum = ENOTSUP then kNotSupported
      else if errnum = ERANGE then kBufferTooSmall
      else if errnum = E2BIG then kSizeExceededSystemLimit
      else if errnum = ENODATA then kAttrNonExistent
      else kInvalid)"

definition ErrorFromErrorNo :: "(int \<Rightarrow> int \<times> string) \<Rightarrow> int \<Rightarrow> string \<Rightarrow> Error" where
  "ErrorFromErrorNo strerror errnum detail =
     (if errnum = 0 then no_error
      else mk_error (errno_type errnum) (detail @ '': '' @ ErrnumToString strerror errnum))"

subsection \<open>Facts\<close>

lemma type_of_simps [simp]:
  "type_of no_error = kNoError"
  "type_of (mk_error t d) = t"
  "type_of (set_type t e) = t"
  by (simp_all add: type_of_def no_error_def mk_error_def set_type_def)

lemma error_detail_simps [simp]:
  "error_detail no_error = []" "error_detail (mk_error t d) = d"
  "error_detail (set_type t e) = error_detail e"
  by (simp_all add: error_detail_def no_error_def mk_error_def set_type_def)

lemma Ok_simps [simp]:
  "Ok no_error" "Ok (mk_error t d) \<longleftrightarrow> t = kNoError" "Ok (set_type t e) \<longleftrightarrow> t = kNoError"
  by (simp_all add: Ok_def)

lemma not_Ok_type: "\<not> Ok e \<longleftrightarrow> type_of e \<noteq> kNoError"
  by (simp add: Ok_def)

lemma ToProto_copy: "ToProto e = e"
  by (cases e) (auto simp: ToProto_def no_error_def Let_def split: option.splits)

lemma Type_Name_inj: "Type_Name a = Type_Name b \<longleftrightarrow> a = b"
  by (cases a; cases b) simp_all

text \<open>An errno maps to no error exactly when it is zero; otherwise the error has the type of
  the errno table and prints as the bracketed name of that type, the caller's text and the system's
  text, which is never empty.\<close>

theorem ErrorFromErrorNo_spec:
  "\<exists>rest. rest \<noteq> [] \<and>
     Ok (ErrorFromErrorNo strerror n d) = (n = 0) \<and>
     ToString (ErrorFromErrorNo strerror n d) =
       (if n = 0 then ''kNoError''
        else ''['' @ Type_Name (errno_type n) @ '']: '' @ d @ '': '' @ rest)"
proof -
  have "errno_type n \<noteq> kNoError" by (simp add: errno_type_def)
  moreover have "ErrnumToString strerror n \<noteq> []"
    by (simp add: ErrnumToString_def split: prod.split)
  ultimately show ?thesis
    by (intro exI[of _ "ErrnumToString strerror n"])
       (simp add: ErrorFromErrorNo_def ToString_def)
qed

end
