(* ===== verification/Smb_Params.thy ===== *)
theory Smb_Params
  imports Error_Model
begin

text \<open>
  The messages of \<open>apache_util/smb/smb_proxy_param.proto\<close> the proxy reads and writes, and the
  structures of the Samba client wrapper the sources fill or read field by field. An optional
  field whose presence the code tests is an \<open>option\<close>; any other optional field is its value, the
  declared default when unset. Times are in microseconds.
\<close>

datatype EntityType = kFile | kDirectory | kSymLink

text \<open>The nested enumeration \<open>EntityMetadata::EntityType\<close>.\<close>

datatype MdEntityType = MdFile | MdDirectory | MdSymLink

datatype smbc_entity_type =
  SMBC_ENTITY_TYPE_REGULAR | SMBC_ENTITY_TYPE_DIRECTORY | SMBC_ENTITY_TYPE_SYMLINK

record SmbProxyBaseArg =
  task_key :: string
  server :: string
  share :: string
  username :: string
  password :: string
  domain_name :: string
  root_dir :: string
  continue_on_error :: bool
  skip_metadata_vec :: "string list"
  populate_root_dir :: bool

record EntityMetadata =
  md_root_dir :: string
  md_path :: string
  md_type :: MdEntityType
  md_attributes :: uint32
  md_uid :: uint32
  md_gid :: uint32
  md_change_time_usecs :: int
  md_modify_time_usecs :: int
  md_create_time_usecs :: int
  md_access_time_usecs :: int
  md_size :: int
  md_allocation_size :: int
  md_inode_id :: int
  md_num_hardlinks :: uint32
  md_first_path_to_hardlink :: "string option"
  md_symlink_target :: string
  md_symlink_flags :: uint32
  md_extended_attributes :: "(string \<times> string) list"
  md_error :: "Error option"

definition empty_metadata :: EntityMetadata where
  "empty_metadata =
     \<lparr>md_root_dir = [], md_path = [], md_type = MdFile, md_attributes = 0, md_uid = 0, md_gid = 0,
      md_change_time_usecs = 0, md_modify_time_usecs = 0, md_create_time_usecs = 0,
      md_access_time_usecs = 0, md_size = 0, md_allocation_size = 0, md_inode_id = 0,
      md_num_hardlinks = 1, md_first_path_to_hardlink = None, md_symlink_target = [],
      md_symlink_flags = 0, md_extended_attributes = [], md_error = None\<rparr>"

record RestoreFileHandle =
  rfh_entity_metadata :: EntityMetadata
  rfh_file_path :: "string option"
  rfh_tmp_file_path :: "string option"

text \<open>A string accessor of an optional field: the empty string when unset.\<close>

definition str_field :: "string option \<Rightarrow> string" where
  "str_field f = (case f of None \<Rightarrow> [] | Some s \<Rightarrow> s)"

lemma str_field_simps [simp]: "str_field None = []" "str_field (Some s) = s"
  by (simp_all add: str_field_def)

subsection \<open>The Samba wrapper's structures\<close>

record smbc_wrapper_context =
  nt_status :: uint32
  error_msg :: string
  max_read_size :: uint32
  max_write_size :: uint32

record timespec =
  tv_sec :: int
  tv_nsec :: int

record smbc_wrapper_entity_metadata =
  sm_inode_id :: int
  sm_num_hardlinks :: uint32
  sm_size :: int
  sm_allocation_size :: int
  sm_attributes :: uint32
  sm_uid :: uint32
  sm_gid :: uint32
  sm_create_time_ts :: timespec
  sm_access_time_ts :: timespec
  sm_modify_time_ts :: timespec
  sm_change_time_ts :: timespec
  sm_acls :: string

definition zero_timespec :: timespec where
  "zero_timespec = \<lparr>tv_sec = 0, tv_nsec = 0\<rparr>"

definition zero_smb_metadata :: smbc_wrapper_entity_metadata where
  "zero_smb_metadata =
     \<lparr>sm_inode_id = 0, sm_num_hardlinks = 0, sm_size = 0, sm_allocation_size = 0,
      sm_attributes = 0, sm_uid = 0, sm_gid = 0, sm_create_time_ts = zero_timespec,
      sm_access_time_ts = zero_timespec, sm_modify_time_ts = zero_timespec,
      sm_change_time_ts = zero_timespec, sm_acls = []\<rparr>"

record smbc_wrapper_size_info =
  si_success :: bool
  si_total_allocation_units :: int
  si_caller_available_allocation_units :: int
  si_actual_available_allocation_units :: int
  si_sectors_per_allocation_unit :: uint32
  si_bytes_per_sector :: uint32

end
