(* ===== verification/Smb_Util.thy ===== *)
theory Smb_Util
  imports Smb_Params
begin

unbundle bit_operations_syntax

text \<open>
  The constants and the pure functions of \<open>gpl_util/smb/util.h\<close> and \<open>util.cc\<close>: NT status
  classification, time conversion, and the path functions. \<^verbatim>\<open>boost::filesystem\<close>'s
  \<open>normalize\<close> is a parameter. The functions that call the SMB server are in \<open>Smb_Server\<close>.
\<close>

subsection \<open>Constants\<close>

definition kNumMsecsInSec :: int where "kNumMsecsInSec = 1000"
definition kNumUsecsInSec :: int where "kNumUsecsInSec = 1000000"
definition kNumSecsInMinute :: int where "kNumSecsInMinute = 60"
definition kNumMinutesInHour :: int where "kNumMinutesInHour = 60"
definition kNumUsecsInHour :: int where
  "kNumUsecsInHour = kNumUsecsInSec * kNumSecsInMinute * kNumMinutesInHour"
definition kNumNsecsInUsec :: int where "kNumNsecsInUsec = 1000"

definition kSmbAttrDirectory :: uint32 where "kSmbAttrDirectory = 0x00000010"
definition kSmbAttrReparsePoint :: uint32 where "kSmbAttrReparsePoint = 0x00000400"
definition kSmbAttrNormal :: uint32 where "kSmbAttrNormal = 0x00000080"

definition kOwnerSecurityInformation :: uint32 where "kOwnerSecurityInformation = 0x00000001"
definition kGroupSecurityInformation :: uint32 where "kGroupSecurityInformation = 0x00000002"
definition kDaclSecurityInformation :: uint32 where "kDaclSecurityInformation = 0x00000004"

definition kNumBytesInKB :: uint64 where "kNumBytesInKB = 1024"
definition kNumBytesInMB :: uint64 where "kNumBytesInMB = 1024 * kNumBytesInKB"

definition kNtStatusObjectNameCollision :: uint32 where
  [nt_status]: "kNtStatusObjectNameCollision = 0xC0000000 OR 0x0035"
definition kNtStatusObjectNameNotFound :: uint32 where
  [nt_status]: "kNtStatusObjectNameNotFound = 0xC0000000 OR 0x0034"
definition kNtStatusObjectPathNotFound :: uint32 where
  [nt_status]: "kNtStatusObjectPathNotFound = 0xC0000000 OR 0x003a"
definition kNtStatusNotFound :: uint32 where
  [nt_status]: "kNtStatusNotFound = 0xC0000000 OR 0x0225"
definition kNtStatusNoSuchFile :: uint32 where
  [nt_status]: "kNtStatusNoSuchFile = 0xC0000000 OR 0x000f"
definition kNtStatusAccessDenied :: uint32 where
  [nt_status]: "kNtStatusAccessDenied = 0xC0000000 OR 0x0022"
definition kNtStatusCannotDelete :: uint32 where
  [nt_status]: "kNtStatusCannotDelete = 0xC0000000 OR 0x0121"
definition kNtStatusConnectionDisconnected :: uint32 where
  [nt_status]: "kNtStatusConnectionDisconnected = 0xC0000000 OR 0x020c"
definition kNtStatusConnectionReset :: uint32 where
  [nt_status]: "kNtStatusConnectionReset = 0xC0000000 OR 0x020d"
definition kNtStatusConnectionInvalid :: uint32 where
  [nt_status]: "kNtStatusConnectionInvalid = 0xC0000000 OR 0x023a"
definition kNtStatusConnectionAborted :: uint32 where
  [nt_status]: "kNtStatusConnectionAborted = 0xC0000000 OR 0x0241"
definition kNtStatusNetworkNameDeleted :: uint32 where
  [nt_status]: "kNtStatusNetworkNameDeleted = 0xC0000000 OR 0x0C9"
definition kNtStatusNetworkFileClosed :: uint32 where
  [nt_status]: "kNtStatusNetworkFileClosed = 0xC0000000 OR 0x0128"
definition kNtStatusVolumeDismounted :: uint32 where
  [nt_status]: "kNtStatusVolumeDismounted = 0xC0000000 OR 0x026E"
definition kNtStatusInvalidNetworkResponse :: uint32 where
  [nt_status]: "kNtStatusInvalidNetworkResponse = 0xC0000000 OR 0x00C3"
definition kNtStatusIOTimeout :: uint32 where
  [nt_status]: "kNtStatusIOTimeout = 0xC0000000 OR 0x00B5"
definition kNtStatusDeletePending :: uint32 where
  [nt_status]: "kNtStatusDeletePending = 0xC0000000 OR 0x0056"
definition kNtStatusPathNotCovered :: uint32 where
  [nt_status]: "kNtStatusPathNotCovered = 0xC0000000 OR 0x0257"
definition kNtStatusNoMemory :: uint32 where
  [nt_status]: "kNtStatusNoMemory = 0xC0000000 OR 0x0017"

definition kSymlinkFlagRelativePath :: uint32 where "kSymlinkFlagRelativePath = 0x00000001"

definition kSmbXattrACL :: string where "kSmbXattrACL = ''system.cifs_acl''"

subsection \<open>Times\<close>

definition ConvertTimespecToUsecs :: "timespec \<Rightarrow> int" where
  "ConvertTimespecToUsecs ts = kNumUsecsInSec * tv_sec ts + tv_nsec ts sdiv kNumNsecsInUsec"

definition FillTimespecFromUsecs :: "int \<Rightarrow> timespec" where
  "FillTimespecFromUsecs usecs =
     \<lparr>tv_sec = usecs sdiv kNumUsecsInSec,
      tv_nsec = (usecs smod kNumUsecsInSec) * kNumNsecsInUsec\<rparr>"

subsection \<open>NT status to error\<close>

definition IsConnectionUnusable :: "uint32 \<Rightarrow> bool" where
  "IsConnectionUnusable st \<longleftrightarrow>
     st = kNtStatusConnectionDisconnected \<or> st = kNtStatusConnectionReset \<or>
     st = kNtStatusConnectionInvalid \<or> st = kNtStatusConnectionAborted \<or>
     st = kNtStatusNetworkFileClosed \<or> st = kNtStatusVolumeDismounted \<or>
     st = kNtStatusInvalidNetworkResponse \<or> st = kNtStatusIOTimeout \<or>
     st = kNtStatusNetworkNameDeleted \<or> st = kNtStatusNoMemory"

definition FromSmbErrorMessage :: "uint32 \<Rightarrow> string \<Rightarrow> Error" where
  "FromSmbErrorMessage st msg =
     (if st = kNtStatusObjectNameNotFound \<or> st = kNtStatusObjectPathNotFound \<or>
         st = kNtStatusNotFound \<or> st = kNtStatusNoSuchFile \<or> st = kNtStatusDeletePending
      then mk_error kNonExistent msg
      else if st = kNtStatusAccessDenied then mk_error kPermissionDenied msg
      else if st = kNtStatusObjectNameCollision then mk_error kAlreadyExists msg
      else if IsConnectionUnusable st then mk_error kRetry msg
      else if st = kNtStatusCannotDelete then mk_error kCannotDelete msg
      else if st = kNtStatusPathNotCovered then mk_error kPathNotCovered msg
      else mk_error kInvalid msg)"

subsection \<open>Paths\<close>

definition HasPrefix :: "string \<Rightarrow> string \<Rightarrow> bool" where
  "HasPrefix str pre \<longleftrightarrow> length pre \<le> length str \<and> take (length pre) str = pre"

definition HasSuffix :: "string \<Rightarrow> string \<Rightarrow> bool" where
  "HasSuffix str suf \<longleftrightarrow>
     length suf \<le> length str \<and> drop (length str - length suf) str = suf"

definition NormalizePath :: "(string \<Rightarrow> string) \<Rightarrow> string \<Rightarrow> char \<Rightarrow> string" where
  "NormalizePath bnorm path separator =
     (if path = [] then path
      else let normalized = bnorm path;
               normalized = (if HasSuffix normalized [separator, CHR ''.'']
                             then take (length normalized - 2) normalized else normalized)
           in if normalized = [] \<or> normalized = [separator, CHR ''.'', CHR ''.''] \<or>
                 normalized = [separator, separator]
              then [separator] else normalized)"

text \<open>The loop of \<open>GetSmbPath\<close>; the flag is \<open>is_prev_slash\<close>.\<close>

definition is_sep :: "char \<Rightarrow> bool" where
  "is_sep c \<longleftrightarrow> c = slash \<or> c = bslash"

fun smb_path_loop :: "bool \<Rightarrow> string \<Rightarrow> string" where
  "smb_path_loop prev [] = []"
| "smb_path_loop prev (c # cs) =
     (if is_sep c then (if prev then smb_path_loop True cs else bslash # smb_path_loop True cs)
      else c # smb_path_loop False cs)"

text \<open>The DFS prefix of a share; \<^verbatim>\<open>share[0]\<close> of an empty string is NUL.\<close>

definition dfs_prefix :: "string \<Rightarrow> string \<Rightarrow> string" where
  "dfs_prefix srv shr = bslash # srv @ (if take 1 shr = [bslash] then shr else bslash # shr)"

text \<open>The first argument is the server and share of the context when DFS paths are enabled, a
  context is given and it is DFS capable, and \<open>None\<close> otherwise.\<close>

definition GetSmbPath :: "(string \<times> string) option \<Rightarrow> string \<Rightarrow> string" where
  "GetSmbPath dfs path =
     (case dfs of
        None \<Rightarrow> smb_path_loop False path
      | Some (srv, shr) \<Rightarrow>
          let pre = dfs_prefix srv shr
          in if strncmp_eq path pre (length pre) then path else pre @ smb_path_loop False path)"

definition GetParentDir :: "string \<Rightarrow> char \<Rightarrow> string" where
  "GetParentDir path separator =
     (case rfind separator path of None \<Rightarrow> path | Some n \<Rightarrow> take n path)"

text \<open>The read \<^verbatim>\<open>child.at(parent.size())\<close> is in range: \<open>child\<close> is the longer string.\<close>

definition IsPathChildOf :: "(string \<Rightarrow> string) \<Rightarrow> string \<Rightarrow> string \<Rightarrow> bool" where
  "IsPathChildOf bnorm child_path parent_path =
     (if parent_path = [] then False
      else let child = NormalizePath bnorm child_path slash;
               parent = NormalizePath bnorm parent_path slash
           in if length child \<le> length parent then False
              else if child ! length parent \<noteq> slash \<and> parent \<noteq> [slash] then False
              else HasPrefix child parent)"

subsection \<open>Entity types\<close>

definition ConvertEntityTypeToSmb :: "EntityType \<Rightarrow> smbc_entity_type" where
  "ConvertEntityTypeToSmb t =
     (if t = kDirectory then SMBC_ENTITY_TYPE_DIRECTORY
      else if t = kSymLink then SMBC_ENTITY_TYPE_SYMLINK else SMBC_ENTITY_TYPE_REGULAR)"

definition ConvertEntityMetadataTypeToEntityType :: "MdEntityType \<Rightarrow> EntityType" where
  "ConvertEntityMetadataTypeToEntityType t =
     (if t = MdDirectory then kDirectory else if t = MdSymLink then kSymLink else kFile)"

definition IsTargetFileHardlink :: "EntityMetadata \<Rightarrow> bool" where
  "IsTargetFileHardlink md \<longleftrightarrow> md_num_hardlinks md > 1 \<and> md_path md \<noteq> []"

subsection \<open>Facts about errors and times\<close>

lemma From_msg [simp]:
  "error_detail (FromSmbErrorMessage st msg) = msg"
  "\<not> Ok (FromSmbErrorMessage st msg)"
  by (simp_all add: FromSmbErrorMessage_def)

lemma From_retry: "type_of (FromSmbErrorMessage st msg) = kRetry \<longleftrightarrow> IsConnectionUnusable st"
  by (auto simp: FromSmbErrorMessage_def IsConnectionUnusable_def nt_status)

lemma From_nonexistent:
  "type_of (FromSmbErrorMessage st msg) = kNonExistent \<longleftrightarrow>
     st \<in> {kNtStatusObjectNameNotFound, kNtStatusObjectPathNotFound, kNtStatusNotFound,
           kNtStatusNoSuchFile, kNtStatusDeletePending}"
  by (auto simp: FromSmbErrorMessage_def)

text \<open>The classification of a server status: the error always carries the message and is never a
  success; it is \<open>kRetry\<close> for exactly the statuses that make a connection unusable (the claim the
  callers assert after listing, reading and writing) and \<open>kNonExistent\<close> for exactly the five
  not-found statuses.\<close>

theorem FromSmbErrorMessage_spec:
  "let e = FromSmbErrorMessage st msg in
     \<not> Ok e \<and> error_detail e = msg \<and>
     (type_of e = kRetry \<longleftrightarrow> IsConnectionUnusable st) \<and>
     (type_of e = kNonExistent \<longleftrightarrow>
        st \<in> {kNtStatusObjectNameNotFound, kNtStatusObjectPathNotFound, kNtStatusNotFound,
              kNtStatusNoSuchFile, kNtStatusDeletePending})"
  by (simp only: Let_def From_msg From_retry From_nonexistent simp_thms)

text \<open>Microseconds survive the trip through a \<^verbatim>\<open>timespec\<close>, negative times included.\<close>

theorem usecs_timespec_roundtrip: "ConvertTimespecToUsecs (FillTimespecFromUsecs u) = u"
proof -
  have "(x * 1000) sdiv 1000 = x" for x :: int
    by (simp add: signed_divide_int_def sgn_mult abs_mult) (metis mult_sgn_abs mult.commute)
  then show ?thesis
    using mult_sdiv_smod_eq[of 1000000 u]
    by (simp add: ConvertTimespecToUsecs_def FillTimespecFromUsecs_def kNumUsecsInSec_def
        kNumNsecsInUsec_def)
qed

subsection \<open>Facts about paths\<close>

lemma HasPrefix_prefix: "HasPrefix str pre \<longleftrightarrow> prefix pre str"
  by (auto simp: HasPrefix_def prefix_def) (metis append_take_drop_id)

lemma HasSuffix_suffix: "HasSuffix str suf \<longleftrightarrow> suffix suf str"
  by (auto simp: HasSuffix_def suffix_def) (metis append_take_drop_id)

text \<open>The path components: the text between separators of either kind, empty ones dropped.\<close>

fun split_sep :: "string \<Rightarrow> string list" where
  "split_sep [] = [[]]"
| "split_sep (c # cs) =
     (if is_sep c then [] # split_sep cs
      else (c # hd (split_sep cs)) # tl (split_sep cs))"

definition components :: "string \<Rightarrow> string list" where
  "components p = filter (\<lambda>x. x \<noteq> []) (split_sep p)"

lemma split_sep_ne [simp]: "split_sep p \<noteq> []"
  by (cases p) auto

lemma split_sep_hd_tl: "split_sep p = hd (split_sep p) # tl (split_sep p)"
  by simp

lemma components_hd_tl:
  "components p = (if hd (split_sep p) = [] then [] else [hd (split_sep p)]) @
     filter (\<lambda>x. x \<noteq> []) (tl (split_sep p))"
  unfolding components_def by (cases "split_sep p") auto

lemma is_sep_bslash [simp]: "is_sep bslash" by (simp add: is_sep_def)

lemma smb_path_loop_components:
  "components (smb_path_loop b p) = components p \<and>
   (\<not> b \<longrightarrow> hd (split_sep (smb_path_loop b p)) = hd (split_sep p) \<and>
     filter (\<lambda>x. x \<noteq> []) (tl (split_sep (smb_path_loop b p))) =
     filter (\<lambda>x. x \<noteq> []) (tl (split_sep p)))"
proof (induction b p rule: smb_path_loop.induct)
  case (2 prev c cs)
  then show ?case
    by (cases "is_sep c"; cases prev) (auto simp: components_def)
qed simp

text \<open>No forward slash and no two backslashes in a row; the flag says what precedes the text.\<close>

fun canonical :: "bool \<Rightarrow> string \<Rightarrow> bool" where
  "canonical prev [] = True"
| "canonical prev (c # cs) =
     (c \<noteq> slash \<and> (c = bslash \<longrightarrow> \<not> prev) \<and> canonical (c = bslash) cs)"

lemma smb_path_loop_canonical: "canonical b (smb_path_loop b p)"
  by (induction b p rule: smb_path_loop.induct) (auto simp: is_sep_def)

lemma smb_path_loop_id: "canonical b p \<Longrightarrow> smb_path_loop b p = p"
  by (induction b p rule: smb_path_loop.induct) (auto simp: is_sep_def)

lemma canonical_adjacent:
  "canonical b p \<Longrightarrow> slash \<notin> set p \<and> (\<forall>us vs. p \<noteq> us @ bslash # bslash # vs)"
proof (induction b p rule: canonical.induct)
  case (2 prev c cs)
  then have IH: "slash \<notin> set cs" "\<And>us vs. cs \<noteq> us @ bslash # bslash # vs" by auto
  have "c # cs \<noteq> us @ bslash # bslash # vs" for us vs
    using 2 IH(2) by (cases us) auto
  with IH 2 show ?case by auto
qed simp

lemma strncmp_eq_append: "strncmp_eq (pre @ rest) pre (length pre)"
proof (cases "CHR 0x00 \<in> set pre")
  case True
  then show ?thesis by (simp add: strncmp_eq_def c_str_def takeWhile_append1)
next
  case False
  then have nz: "\<forall>c\<in>set pre. c \<noteq> CHR 0x00" by blast
  then have "takeWhile (\<lambda>c. c \<noteq> CHR 0x00) pre = pre"
    by (simp only: takeWhile_eq_all_conv)
  moreover from nz have
    "takeWhile (\<lambda>c. c \<noteq> CHR 0x00) (pre @ rest) = pre @ takeWhile (\<lambda>c. c \<noteq> CHR 0x00) rest"
    by (intro takeWhile_append2) blast
  ultimately show ?thesis
    by (simp only: strncmp_eq_def c_str_def append.assoc take_append) simp
qed

lemma GetSmbPath_twice: "GetSmbPath dfs (GetSmbPath dfs p) = GetSmbPath dfs p"
proof (cases dfs)
  case None
  then show ?thesis
    by (simp add: GetSmbPath_def smb_path_loop_id[OF smb_path_loop_canonical])
next
  case (Some d)
  then show ?thesis
    by (cases d) (simp add: GetSmbPath_def Let_def strncmp_eq_append)
qed


text \<open>C34. For paths that \<open>boost\<close> leaves alone and that do not end in a dot component,
  \<open>IsPathChildOf\<close> is the strict descendant relation: the child is the parent, a slash and a
  non-empty rest (just the slash and the rest when the parent is the root), never a sibling whose
  name merely starts with the parent's name.\<close>

theorem IsPathChildOf_iff:
  assumes "bnorm child = child" "bnorm parent = parent" "parent \<noteq> []" "child \<noteq> []"
    and "\<not> HasSuffix child ''/.''" "\<not> HasSuffix parent ''/.''"
    and "parent \<notin> {''/..'', ''//''}" "child \<notin> {''/..'', ''//''}"
  shows "IsPathChildOf bnorm child parent \<longleftrightarrow>
     (\<exists>rest. child = parent @ slash # rest \<or> parent = ''/'' \<and> rest \<noteq> [] \<and> child = slash # rest)"
proof -
  have n: "NormalizePath bnorm child slash = child" "NormalizePath bnorm parent slash = parent"
    using assms by (auto simp: NormalizePath_def Let_def)
  have "IsPathChildOf bnorm child parent \<longleftrightarrow>
      length parent < length child \<and> (child ! length parent = slash \<or> parent = [slash]) \<and>
      (\<exists>zs. child = parent @ zs)"
    using assms(3) by (auto simp: IsPathChildOf_def n HasPrefix_prefix prefix_def)
  also have "\<dots> \<longleftrightarrow> (\<exists>zs. child = parent @ zs \<and> zs \<noteq> [] \<and> (hd zs = slash \<or> parent = [slash]))"
    by (auto simp: nth_append hd_conv_nth)
  also have "\<dots> \<longleftrightarrow>
      (\<exists>rest. child = parent @ slash # rest \<or> parent = ''/'' \<and> rest \<noteq> [] \<and> child = slash # rest)"
    by (auto simp: neq_Nil_conv) blast
  finally show ?thesis .
qed

theorem IsPathChildOf_iff_witness:
  "IsPathChildOf id ''/a/b/c'' ''/a/b'' \<and> \<not> IsPathChildOf id ''/a/b_b/c'' ''/a/b''"
proof -
  have "IsPathChildOf id ''/a/b/c'' ''/a/b'' \<longleftrightarrow>
      (\<exists>rest. ''/a/b/c'' = ''/a/b'' @ slash # rest \<or> ''/a/b'' = ''/'' \<and> rest \<noteq> [] \<and> ''/a/b/c'' = slash # rest)"
    by (rule IsPathChildOf_iff) (simp_all add: HasSuffix_def)
  moreover have "IsPathChildOf id ''/a/b_b/c'' ''/a/b'' \<longleftrightarrow>
      (\<exists>rest. ''/a/b_b/c'' = ''/a/b'' @ slash # rest \<or> ''/a/b'' = ''/'' \<and> rest \<noteq> [] \<and> ''/a/b_b/c'' = slash # rest)"
    by (rule IsPathChildOf_iff) (simp_all add: HasSuffix_def)
  ultimately show ?thesis by simp
qed

lemma GetParentDir_shorter:
  "separator \<in> set path \<Longrightarrow> length (GetParentDir path separator) < length path"
  using rfind_None rfind_Some by (fastforce simp: GetParentDir_def split: option.splits)

end
