(* ===== verification/Net_Util.thy ===== *)
theory Net_Util
  imports Prelude
begin

text \<open>
  \<open>apache_util/net/util.cc\<close>: printing an IPv4 address with a digit table, and resolving a host
  name by repeated DNS queries. \<^verbatim>\<open>getaddrinfo\<close> is a parameter: a query on the network state
  returns either an error or the list of addresses.
\<close>

definition kDigitTable :: string where
  "kDigitTable = ''00010203040506070809101112131415161718192021222324252627282930313233343536373839404142434445464748495051525354555657585960616263646566676869707172737475767778798081828384858687888990919293949596979899''"

definition u8toa :: "uint8 \<Rightarrow> string" where
  "u8toa value =
     (let d1 = (unat value div 100) * 2; d2 = (unat value mod 100) * 2
      in (if unat value \<ge> 100 then [kDigitTable ! (d1 + 1)] else [])
         @ (if unat value \<ge> 10 then [kDigitTable ! d2] else [])
         @ [kDigitTable ! (d2 + 1)])"

text \<open>The four bytes of an \<^verbatim>\<open>in_addr\<close> in network order.\<close>

type_synonym in_addr = "uint8 \<times> uint8 \<times> uint8 \<times> uint8"

fun IPv4AddrToString :: "in_addr \<Rightarrow> string" where
  "IPv4AddrToString (b0, b1, b2, b3) =
     u8toa b0 @ ''.'' @ u8toa b1 @ ''.'' @ u8toa b2 @ ''.'' @ u8toa b3"

datatype sockaddr = AF_INET in_addr | AF_INET6 "uint8 list" | AF_OTHER

text \<open>The loop of \<open>MaybeResolveIPv4\<close>: at most \<open>n\<close> more queries, the set so far in \<open>acc\<close>.
  The first address of an answer must be an IPv4 one (\<^verbatim>\<open>CHECK_EQ\<close>).\<close>

type_synonym 'w getaddrinfo = "string \<Rightarrow> 'w \<Rightarrow> sockaddr list option \<times> 'w"

fun resolve_loop ::
  "'w getaddrinfo \<Rightarrow> string \<Rightarrow> nat \<Rightarrow> string list \<Rightarrow> 'w \<Rightarrow> (string list \<times> 'w) option" where
  "resolve_loop gai host 0 acc w = Some (acc, w)"
| "resolve_loop gai host (Suc n) acc w =
     (case gai host w of
        (None, w') \<Rightarrow> Some (acc, w')
      | (Some (AF_INET a # _), w') \<Rightarrow>
          resolve_loop gai host n (List.insert (IPv4AddrToString a) acc) w'
      | (Some _, w') \<Rightarrow> None)"

definition MaybeResolveIPv4 ::
  "'w getaddrinfo \<Rightarrow> int \<Rightarrow> string \<Rightarrow> 'w \<Rightarrow> (string list \<times> 'w) option" where
  "MaybeResolveIPv4 gai dns_resolve_num_attempts host w =
     resolve_loop gai host (nat dns_resolve_num_attempts) [] w"

subsection \<open>Decimal printing\<close>

lemma dec_nat_digit: "c \<in> set (dec_nat n) \<Longrightarrow> \<exists>d<10. c = digit_char d"
proof (induction n rule: dec_nat.induct)
  case (1 n)
  show ?case
  proof (cases "n < 10")
    case True
    with "1.prems" show ?thesis by (auto simp: dec_nat.simps[of n])
  next
    case False
    with "1.prems" have "c \<in> set (dec_nat (n div 10)) \<or> c = digit_char (n mod 10)"
      by (auto simp: dec_nat.simps[of n])
    with "1.IH" False show ?thesis by (metis mod_less_divisor zero_less_numeral)
  qed
qed

lemma digit_char_inj: "a < 10 \<Longrightarrow> b < 10 \<Longrightarrow> digit_char a = digit_char b \<longleftrightarrow> a = b"
  unfolding digit_char_def by (subst char_of_eq_iff) (simp add: take_bit_nat_eq_self)

lemma digit_char_not_dot: "d < 10 \<Longrightarrow> digit_char d \<noteq> CHR ''.''"
  unfolding digit_char_def by (subst char_of_eq_iff) (simp add: take_bit_nat_eq_self)

lemma dec_nat_no_dot: "CHR ''.'' \<notin> set (dec_nat n)"
  using dec_nat_digit digit_char_not_dot by metis

lemma dec_nat_length: "n < 10 ^ k \<Longrightarrow> 0 < k \<Longrightarrow> length (dec_nat n) \<le> k"
proof (induction n arbitrary: k rule: dec_nat.induct)
  case (1 n)
  show ?case
  proof (cases "n < 10")
    case True
    with "1.prems" show ?thesis by (simp add: dec_nat.simps[of n])
  next
    case False
    then obtain j where k: "k = Suc j" "0 < j"
      using "1.prems" by (cases k; cases "k - 1") auto
    with "1.prems" False have "n div 10 < 10 ^ j" by (simp add: less_mult_imp_div_less mult.commute)
    with "1.IH" False k have "length (dec_nat (n div 10)) \<le> j" by simp
    with False k show ?thesis by (simp add: dec_nat.simps[of n])
  qed
qed

lemma dec_nat_inj: "dec_nat m = dec_nat n \<Longrightarrow> m = n"
proof (induction m arbitrary: n rule: dec_nat.induct)
  case (1 m)
  have ne: "dec_nat k \<noteq> []" "[] \<noteq> dec_nat k" for k by (subst dec_nat.simps, simp)+
  show ?case
  proof (cases "m < 10"; cases "n < 10")
    assume "\<not> m < 10" "\<not> n < 10"
    with "1.prems" have "dec_nat (m div 10) = dec_nat (n div 10)"
      and "digit_char (m mod 10) = digit_char (n mod 10)"
      by (simp_all add: dec_nat.simps[of m] dec_nat.simps[of n])
    with "1.IH" \<open>\<not> m < 10\<close> have "m div 10 = n div 10" and "m mod 10 = n mod 10"
      by (simp_all add: digit_char_inj)
    then show ?thesis by (metis div_mult_mod_eq)
  qed (use "1.prems" ne in \<open>auto simp: dec_nat.simps[of m] dec_nat.simps[of n] digit_char_inj\<close>)
qed

subsection \<open>The digit table\<close>

lemma kDigitTable_pairs:
  "kDigitTable = concat (map (\<lambda>k. [digit_char (k div 10), digit_char (k mod 10)]) [0..<100])"
  by code_simp

lemma nth_concat_pairs:
  "k < length xs \<Longrightarrow> concat (map (\<lambda>x. [f x, g x]) xs) ! (k * 2) = f (xs ! k) \<and>
     concat (map (\<lambda>x. [f x, g x]) xs) ! (k * 2 + 1) = g (xs ! k)"
proof (induction xs arbitrary: k)
  case (Cons x xs)
  then show ?case by (cases k) auto
qed simp

lemma kDigitTable_nth:
  assumes "k < 100"
  shows "kDigitTable ! (k * 2) = digit_char (k div 10)"
    and "kDigitTable ! (k * 2 + 1) = digit_char (k mod 10)"
  using assms nth_concat_pairs[of k "[0..<100]" "\<lambda>k. digit_char (k div 10)" "\<lambda>k. digit_char (k mod 10)"]
  by (simp_all add: kDigitTable_pairs)

lemma unat_uint8_less: "unat (v :: uint8) < 256"
  using unsigned_less[of v] by simp

lemma u8toa_dec: "u8toa v = dec_nat (unat v)"
proof -
  define n where "n = unat v"
  have n: "n < 256" unfolding n_def by (rule unat_uint8_less)
  then have q: "n div 100 < 100" "n mod 100 < 100" by auto
  have m: "n mod 100 = 10 * (n div 10 mod 10) + n mod 10"
    using mod_mult2_eq[of n 10 10] by simp
  consider "n < 10" | "10 \<le> n" "n < 100" | "100 \<le> n" by linarith
  then have "u8toa v = dec_nat n"
  proof cases
    case 1
    with q show ?thesis
      unfolding u8toa_def n_def[symmetric] Let_def
      by (simp add: kDigitTable_nth(2)[of n, simplified] dec_nat.simps[of n])
  next
    case 2
    with q show ?thesis
      unfolding u8toa_def n_def[symmetric] Let_def
      by (simp add: kDigitTable_nth[of n, simplified] dec_nat.simps[of n]
          dec_nat.simps[of "n div 10"])
  next
    case 3
    have "n div 100 < 10" "n div 10 div 10 = n div 100" "\<not> n div 10 < 10"
      using 3 n by (simp_all flip: div_mult2_eq)
    moreover have "n mod 100 div 10 = n div 10 mod 10" "n mod 100 mod 10 = n mod 10"
      unfolding m by simp_all
    ultimately show ?thesis
      unfolding u8toa_def n_def[symmetric] Let_def using 3 q
      by (simp add: kDigitTable_nth(2)[of "n div 100", simplified]
          kDigitTable_nth[of "n mod 100", simplified] dec_nat.simps[of n]
          dec_nat.simps[of "n div 10"] dec_nat.simps[of "n div 100"])
  qed
  then show ?thesis by (simp add: n_def)
qed

subsection \<open>Addresses as text\<close>

lemma u8toa_facts:
  "CHR ''.'' \<notin> set (u8toa v)" "length (u8toa v) \<le> 3" "u8toa v = u8toa u \<longleftrightarrow> v = u"
proof -
  have "u8toa v = dec_nat (unat v)" for v by (rule u8toa_dec)
  then show "CHR ''.'' \<notin> set (u8toa v)" "length (u8toa v) \<le> 3" "u8toa v = u8toa u \<longleftrightarrow> v = u"
    using dec_nat_no_dot dec_nat_length[of "unat v" 3] unat_uint8_less[of v]
    by (auto simp: word_unat_eq_iff dest: dec_nat_inj)
qed

lemma split_at_first:
  "c \<notin> set xs \<Longrightarrow> c \<notin> set ys \<Longrightarrow> xs @ c # us = ys @ c # vs \<longleftrightarrow> xs = ys \<and> us = vs"
  by (induction xs arbitrary: ys) (case_tac ys; auto)+

text \<open>C38. The digit-table printer gives an address its dotted decimal text: it agrees with plain decimal
  printing of the four bytes, the text fits the 15-byte buffer the code allocates, and two addresses
  with the same text are the same address.\<close>

theorem IPv4AddrToString_decimal:
  "IPv4AddrToString (b0, b1, b2, b3) =
     dec_nat (unat b0) @ ''.'' @ dec_nat (unat b1) @ ''.'' @ dec_nat (unat b2) @ ''.'' @ dec_nat (unat b3) \<and>
   length (IPv4AddrToString (b0, b1, b2, b3)) \<le> 15 \<and>
   (IPv4AddrToString (b0, b1, b2, b3) = IPv4AddrToString (c0, c1, c2, c3) \<longleftrightarrow> (b0, b1, b2, b3) = (c0, c1, c2, c3))"
proof (intro conjI)
  show "length (IPv4AddrToString (b0, b1, b2, b3)) \<le> 15"
    using u8toa_facts(2)[of b0] u8toa_facts(2)[of b1] u8toa_facts(2)[of b2] u8toa_facts(2)[of b3] by simp
qed (simp_all add: u8toa_dec split_at_first[unfolded append.simps] u8toa_facts flip: u8toa_dec)

lemma resolve_loop_spec:
  "resolve_loop gai host n acc w = Some (r, w') \<Longrightarrow> distinct acc \<Longrightarrow>
     distinct r \<and> length r \<le> length acc + n \<and> set acc \<subseteq> set r \<and>
     set r \<subseteq> set acc \<union> range IPv4AddrToString"
proof (induction gai host n acc w arbitrary: r rule: resolve_loop.induct)
  case (2 gai host n acc w)
  from "2.prems"(1) consider w1 where "gai host w = (None, w1)" "r = acc"
    | a as w1 where "gai host w = (Some (AF_INET a # as), w1)"
        "resolve_loop gai host n (List.insert (IPv4AddrToString a) acc) w1 = Some (r, w')"
    by (auto split: prod.splits option.splits list.splits sockaddr.splits)
  then show ?case
  proof cases
    case 1
    with "2.prems"(2) show ?thesis by auto
  next
    case 2
    from "2.IH"[OF 2(1)[symmetric] refl refl refl 2(2)] "2.prems"(2) have
      "distinct r" "length r \<le> length (List.insert (IPv4AddrToString a) acc) + n"
      "set (List.insert (IPv4AddrToString a) acc) \<subseteq> set r"
      "set r \<subseteq> set (List.insert (IPv4AddrToString a) acc) \<union> range IPv4AddrToString"
      by simp_all
    moreover have "length (List.insert (IPv4AddrToString a) acc) \<le> Suc (length acc)"
      by (simp add: List.insert_def)
    ultimately show ?thesis by auto
  qed
qed auto

text \<open>Whatever the resolver answers, a host name resolves to at most as many addresses as there
  are attempts, without repetition, and each is the text of an IPv4 address.\<close>

theorem MaybeResolveIPv4_bounded:
  assumes "MaybeResolveIPv4 gai attempts host w = Some (addrs, w')"
  shows "distinct addrs \<and> length addrs \<le> nat attempts \<and> set addrs \<subseteq> range IPv4AddrToString"
  using resolve_loop_spec[of gai host "nat attempts" "[]" w addrs w'] assms
  by (simp add: MaybeResolveIPv4_def)

theorem MaybeResolveIPv4_bounded_witness:
  "distinct [''10.0.0.7''] \<and> length [''10.0.0.7''] \<le> nat 10 \<and>
   set [''10.0.0.7''] \<subseteq> range IPv4AddrToString"
proof -
  have "MaybeResolveIPv4 (\<lambda>_ w. (if w < 3 then Some [AF_INET (10, 0, 0, 7)] else None, Suc w))
      10 ''filer'' 0 = Some ([''10.0.0.7''], 4)"
    by code_simp
  then show ?thesis by (rule MaybeResolveIPv4_bounded)
qed

end
