(* ===== verification/Smb_Env.thy ===== *)
theory Smb_Env
  imports Smb_Util Net_Util
begin

text \<open>
  What the proxy's code calls but does not contain: the Samba client wrapper, the clock, the resolver
  and \<^verbatim>\<open>boost::filesystem\<close>, collected in one record that every operation takes as its first
  argument. A wrapper call gets the address of the connection whose context it is given, the context
  and the state \<open>'w\<close> of the outside world (the server, the network, the clock, the allocator), and
  returns its result with both as it leaves them; \<open>nt_status\<close> and \<open>error_msg\<close> of the context are
  what the failing call left there. Strings are passed as the \<^verbatim>\<open>std::string\<close>; the wrapper sees
  their C strings. The command line flags are a record with the defaults of the sources.
\<close>

record flags =
  smb_proxy_alarm_handler_invoke_period_secs :: int
  smb_proxy_task_cache_inactive_secs :: int
  smb_proxy_connection_cache_inactive_secs :: int
  smb_proxy_create_connection_retry_count :: int
  smb_proxy_file_max_read_retries :: int
  smb_proxy_file_read_write_timeout_secs :: int
  smb_proxy_file_max_write_retries :: int
  smb_proxy_task_file_handles_cache_size :: int
  smb_proxy_max_fh_cache_size :: uint64
  smb_proxy_check_memory_usage :: bool
  smb_proxy_show_cached_file_handles :: bool
  smb_proxy_fetch_children_update_task_threshold :: int
  enable_dfs_path :: bool
  smb_proxy_open_error_cache_duration_secs :: int
  smb_proxy_verify_share_retries :: int
  apache_util_net_dns_resolve_num_attempts :: int
  gpl_util_memory_usage_additional_allowance_MB :: int

definition default_flags :: flags where
  "default_flags =
     \<lparr>smb_proxy_alarm_handler_invoke_period_secs = 30,
      smb_proxy_task_cache_inactive_secs = 10 * 60,
      smb_proxy_connection_cache_inactive_secs = 5 * 60,
      smb_proxy_create_connection_retry_count = 3,
      smb_proxy_file_max_read_retries = 2,
      smb_proxy_file_read_write_timeout_secs = 60,
      smb_proxy_file_max_write_retries = 2,
      smb_proxy_task_file_handles_cache_size = 1000,
      smb_proxy_max_fh_cache_size = 1000,
      smb_proxy_check_memory_usage = True,
      smb_proxy_show_cached_file_handles = True,
      smb_proxy_fetch_children_update_task_threshold = 16,
      enable_dfs_path = True,
      smb_proxy_open_error_cache_duration_secs = 120,
      smb_proxy_verify_share_retries = 3,
      apache_util_net_dns_resolve_num_attempts = 10,
      gpl_util_memory_usage_additional_allowance_MB = 0\<rparr>"

text \<open>One entry of \<^verbatim>\<open>smbc_wrapper_list_dirplus\<close>.\<close>

record smbc_wrapper_readirplus_entry =
  rd_name :: string
  rd_metadata :: smbc_wrapper_entity_metadata

text \<open>The context of one connection together with the world.\<close>

type_synonym 'w sess = "smbc_wrapper_context \<times> 'w"

type_synonym ('w, 'a) call = "addr \<Rightarrow> 'w sess \<Rightarrow> 'a \<times> 'w sess"

record 'w smb_env =
  e_flags :: flags
  e_now :: "'w \<Rightarrow> int \<times> 'w"
    \<comment> \<open>\<^verbatim>\<open>std::chrono::system_clock\<close> in microseconds\<close>
  e_invalid_fnum :: uint16
    \<comment> \<open>\<^verbatim>\<open>SMBC_WRAPPER_INVALID_FNUM\<close>\<close>
  e_is_ip :: "string \<Rightarrow> bool"
    \<comment> \<open>\<^verbatim>\<open>inet_pton\<close> accepts the text as an IPv4 or an IPv6 address\<close>
  e_getaddrinfo :: "'w getaddrinfo"
  e_inet_ntop :: "sockaddr \<Rightarrow> string option"
  e_normalize :: "string \<Rightarrow> string"
  e_parent_path :: "string \<Rightarrow> string"
  e_filename :: "string \<Rightarrow> string"
  e_talloc :: "uint64 \<Rightarrow> 'w \<Rightarrow> addr option \<times> 'w"
  e_free :: "addr \<Rightarrow> 'w \<Rightarrow> 'w"
  e_is_dfs :: "addr \<Rightarrow> 'w sess \<Rightarrow> bool"
  e_get_server :: "addr \<Rightarrow> 'w sess \<Rightarrow> string"
  e_get_share :: "addr \<Rightarrow> 'w sess \<Rightarrow> string"
  e_create_connection :: "string \<Rightarrow> string \<Rightarrow> string \<Rightarrow> string \<Rightarrow> string \<Rightarrow> ('w, int) call"
  e_shutdown_connection :: "('w, unit) call"
  e_close_fnum :: "uint16 \<Rightarrow> ('w, int) call"
  e_get_metadata :: "string \<Rightarrow> ('w, smbc_wrapper_entity_metadata option) call"
  e_read_symlink :: "string \<Rightarrow> ('w, int \<times> string \<times> uint32) call"
  e_list_dir :: "string \<Rightarrow> uint16 \<Rightarrow> ('w, string list option \<times> uint16) call"
  e_list_dirplus ::
    "string \<Rightarrow> uint16 \<Rightarrow> ('w, smbc_wrapper_readirplus_entry list option \<times> uint16) call"
  e_fetch_file_data ::
    "string \<Rightarrow> uint64 \<Rightarrow> uint32 \<Rightarrow> uint16 option \<Rightarrow> int \<Rightarrow>
     ('w, string option \<times> uint32 \<times> uint16) call"
    \<comment> \<open>the data read, \<open>actual_read_size\<close>, and the handle if one was passed\<close>
  e_write_file_data ::
    "string \<Rightarrow> uint64 \<Rightarrow> uint32 \<Rightarrow> string \<Rightarrow> uint16 option \<Rightarrow> int \<Rightarrow> ('w, uint32 \<times> uint16) call"
  e_create_object :: "string \<Rightarrow> bool \<Rightarrow> ('w, int) call"
  e_delete_object :: "string \<Rightarrow> ('w, int) call"
  e_delete_directory :: "string \<Rightarrow> ('w, int) call"
  e_delete_entity :: "string \<Rightarrow> smbc_entity_type \<Rightarrow> bool \<Rightarrow> ('w, int) call"
  e_set_metadata ::
    "string \<Rightarrow> bool \<Rightarrow> bool \<Rightarrow> uint32 \<Rightarrow> smbc_wrapper_entity_metadata \<Rightarrow> ('w, int) call"
  e_rename :: "string \<Rightarrow> string \<Rightarrow> smbc_entity_type \<Rightarrow> bool \<Rightarrow> ('w, int) call"
  e_rename_object :: "string \<Rightarrow> string \<Rightarrow> ('w, int) call"
  e_create_hardlink :: "string \<Rightarrow> string \<Rightarrow> ('w, int) call"
  e_create_symlink :: "string \<Rightarrow> string \<Rightarrow> uint32 \<Rightarrow> ('w, int) call"
  e_get_share_size_info :: "('w, smbc_wrapper_size_info) call"
  e_ShortDebugString :: "EntityMetadata \<Rightarrow> string"
  e_serialize_cookie :: "int \<times> int \<Rightarrow> string"
    \<comment> \<open>protobuf's encoding of \<open>SmbProxyConnectionCookie\<close>: creation time, children fetched\<close>
  e_parse_cookie :: "string \<Rightarrow> (int \<times> int) option"
  e_statm_pages :: "'w \<Rightarrow> int option"
    \<comment> \<open>the resident pages \<^verbatim>\<open>/proc/pid/statm\<close> reports, if it can be read\<close>
  e_page_size :: int
  e_rlimit_rss :: "'w \<Rightarrow> uint64 option"
    \<comment> \<open>\<^verbatim>\<open>getrlimit(RLIMIT_RSS)\<close>\<close>
  e_release_memory :: "'w \<Rightarrow> 'w"

text \<open>\<open>GetSmbPath\<close> with a context: the server and share are consulted only on a DFS connection.\<close>

definition SmbPath :: "'w smb_env \<Rightarrow> addr \<Rightarrow> 'w sess \<Rightarrow> string \<Rightarrow> string" where
  "SmbPath E p s path =
     GetSmbPath (if enable_dfs_path (e_flags E) \<and> e_is_dfs E p s
                 then Some (e_get_server E p s, e_get_share E p s) else None) path"

definition IsIpAddress :: "'w smb_env \<Rightarrow> string \<Rightarrow> bool" where
  "IsIpAddress E srv = e_is_ip E (c_str srv)"

text \<open>Scoped memory contexts: the body runs with the context, which is freed afterwards.\<close>

definition with_mem ::
  "'w smb_env \<Rightarrow> uint64 \<Rightarrow> ('w sess \<Rightarrow> 'a \<times> 'w sess) \<Rightarrow> ('w sess \<Rightarrow> 'a \<times> 'w sess) \<Rightarrow>
   'w sess \<Rightarrow> 'a \<times> 'w sess" where
  "with_mem E sz failed body s =
     (case e_talloc E sz (snd s) of
        (None, w) \<Rightarrow> failed (fst s, w)
      | (Some m, w) \<Rightarrow> let (r, (c, w)) = body (fst s, w) in (r, (c, e_free E m w)))"

end
