(* ===== verification/Sample_Server.thy ===== *)
theory Sample_Server
  imports Smb_Env
begin

text \<open>
  A small in-memory SMB server as an instance of the environment: directories, files with contents and
  a clock that advances on every reading. It shows that the hypotheses the theorems make about the
  Samba wrapper can be met, and runs the model on concrete requests.
\<close>

record sample =
  d_clock :: int
  d_dirs :: "string list"
  d_files :: "(string \<times> string) list"

definition sample_ok :: "'a \<Rightarrow> 'w sess \<Rightarrow> 'a \<times> 'w sess" where
  "sample_ok r s = (r, s)"

definition sample_fail :: "uint32 \<Rightarrow> 'a \<Rightarrow> 'w sess \<Rightarrow> 'a \<times> 'w sess" where
  "sample_fail st r s = (r, ((fst s)\<lparr>nt_status := st, error_msg := ''failed''\<rparr>, snd s))"

definition sample_get_metadata :: "string \<Rightarrow> (sample, smbc_wrapper_entity_metadata option) call" where
  "sample_get_metadata path p s =
     (if path \<in> set (d_dirs (snd s))
      then (Some (zero_smb_metadata\<lparr>sm_attributes := kSmbAttrDirectory\<rparr>), s)
      else case map_of (d_files (snd s)) path of
             Some d \<Rightarrow> (Some (zero_smb_metadata\<lparr>sm_size := int (length d)\<rparr>), s)
           | None \<Rightarrow> sample_fail kNtStatusObjectNameNotFound None s)"

definition sample_create_object :: "string \<Rightarrow> bool \<Rightarrow> (sample, int) call" where
  "sample_create_object path is_file p s =
     (if path \<in> set (d_dirs (snd s)) \<or> map_of (d_files (snd s)) path \<noteq> None
      then sample_fail kNtStatusObjectNameCollision (-1) s
      else if is_file then (0, (fst s, (snd s)\<lparr>d_files := (path, []) # d_files (snd s)\<rparr>))
      else (0, (fst s, (snd s)\<lparr>d_dirs := path # d_dirs (snd s)\<rparr>)))"

definition sample_delete_file :: "string \<Rightarrow> (sample, int) call" where
  "sample_delete_file path p s =
     (if path \<in> set (d_dirs (snd s)) \<or> map_of (d_files (snd s)) path = None
      then sample_fail kNtStatusObjectNameNotFound (-1) s
      else (0, (fst s, (snd s)\<lparr>d_files := AList.delete path (d_files (snd s))\<rparr>)))"

definition sample_delete_directory :: "string \<Rightarrow> (sample, int) call" where
  "sample_delete_directory path p s =
     (0, (fst s, (snd s)\<lparr>d_dirs := removeAll path (d_dirs (snd s)),
                          d_files := AList.delete path (d_files (snd s))\<rparr>))"

definition sample_fetch ::
  "string \<Rightarrow> uint64 \<Rightarrow> uint32 \<Rightarrow> uint16 option \<Rightarrow> int \<Rightarrow> (sample, string option \<times> uint32 \<times> uint16) call" where
  "sample_fetch path off sz fn t p s =
     (case map_of (d_files (snd s)) path of
        None \<Rightarrow> sample_fail kNtStatusObjectNameNotFound (None, 0, case fn of None \<Rightarrow> 0 | Some f \<Rightarrow> f) s
      | Some d \<Rightarrow>
          let x = take (unat sz) (drop (unat off) d)
          in ((Some x, word_of_nat (length x), 7), s))"

text \<open>The bytes of a file after a write; a gap before the offset is filled with zeros.\<close>

definition overwrite :: "string \<Rightarrow> nat \<Rightarrow> string \<Rightarrow> string" where
  "overwrite d off x =
     take off (d @ replicate (off - length d) (CHR 0x00)) @ x @ drop (off + length x) d"

definition sample_write ::
  "string \<Rightarrow> uint64 \<Rightarrow> uint32 \<Rightarrow> string \<Rightarrow> uint16 option \<Rightarrow> int \<Rightarrow> (sample, uint32 \<times> uint16) call" where
  "sample_write path off sz x fn t p s =
     (case map_of (d_files (snd s)) path of
        None \<Rightarrow> sample_fail kNtStatusObjectNameNotFound (0, case fn of None \<Rightarrow> 0 | Some f \<Rightarrow> f) s
      | Some d \<Rightarrow>
          if sz = 0 then ((0, 7), s)
          else ((sz, 7), (fst s, (snd s)\<lparr>d_files :=
                  AList.update path (overwrite d (unat off) (take (unat sz) x)) (d_files (snd s))\<rparr>)))"

definition sample_rename :: "string \<Rightarrow> string \<Rightarrow> (sample, int) call" where
  "sample_rename a b p s =
     (case map_of (d_files (snd s)) a of
        None \<Rightarrow> sample_fail kNtStatusObjectNameNotFound (-1) s
      | Some d \<Rightarrow> (0, (fst s, (snd s)\<lparr>d_files := AList.update b d (AList.delete a (d_files (snd s)))\<rparr>)))"

definition sample_env :: "sample smb_env" where
  "sample_env =
     \<lparr>e_flags = default_flags, e_now = (\<lambda>w. (d_clock w, w\<lparr>d_clock := d_clock w + 1\<rparr>)),
      e_invalid_fnum = 65535, e_is_ip = (\<lambda>_. True), e_getaddrinfo = (\<lambda>_ w. (None, w)),
      e_inet_ntop = (\<lambda>_. None), e_normalize = id, e_parent_path = (\<lambda>x. GetParentDir x slash),
      e_filename = id, e_talloc = (\<lambda>_ w. (Some 0, w)), e_free = (\<lambda>_ w. w),
      e_is_dfs = (\<lambda>_ _. False), e_get_server = (\<lambda>_ _. []), e_get_share = (\<lambda>_ _. []),
      e_create_connection = (\<lambda>_ _ _ _ _ p s. (0, ((fst s)\<lparr>max_read_size := 4, max_write_size := 4\<rparr>, snd s))),
      e_shutdown_connection = (\<lambda>p s. ((), s)), e_close_fnum = (\<lambda>_ p. sample_ok 0),
      e_get_metadata = sample_get_metadata, e_read_symlink = (\<lambda>_ p. sample_ok (0, [], 0)),
      e_list_dir = (\<lambda>_ _ p. sample_ok (Some [], 65535)), e_list_dirplus = (\<lambda>_ _ p. sample_ok (Some [], 65535)),
      e_fetch_file_data = sample_fetch, e_write_file_data = sample_write,
      e_create_object = sample_create_object, e_delete_object = sample_delete_file,
      e_delete_directory = sample_delete_directory, e_delete_entity = (\<lambda>x _ _. sample_delete_file x),
      e_set_metadata = (\<lambda>_ _ _ _ _ p. sample_ok 0), e_rename = (\<lambda>a b _ _. sample_rename a b),
      e_rename_object = sample_rename, e_create_hardlink = (\<lambda>_ _ p. sample_ok 0),
      e_create_symlink = (\<lambda>_ _ _ p. sample_ok 0),
      e_get_share_size_info = (\<lambda>p. sample_ok
        \<lparr>si_success = True, si_total_allocation_units = 10, si_caller_available_allocation_units = 4,
         si_actual_available_allocation_units = 4, si_sectors_per_allocation_unit = 8,
         si_bytes_per_sector = 512\<rparr>),
      e_ShortDebugString = (\<lambda>_. []), e_serialize_cookie = (\<lambda>_. []), e_parse_cookie = (\<lambda>_. None),
      e_statm_pages = (\<lambda>_. Some 100), e_page_size = 4096, e_rlimit_rss = (\<lambda>_. Some 4294967296),
      e_release_memory = (\<lambda>w. w)\<rparr>"

definition empty_context :: smbc_wrapper_context where
  "empty_context = \<lparr>nt_status = 0, error_msg = [], max_read_size = 0, max_write_size = 0\<rparr>"

definition sample_world :: sample where
  "sample_world =
     \<lparr>d_clock = 1000, d_dirs = [[bslash, CHR ''d'']],
      d_files = [(bslash # ''f'', ''hello world''), (bslash # ''g'', ''0123456789'')]\<rparr>"

lemmas sample_defs = sample_env_def sample_ok_def sample_fail_def sample_get_metadata_def
  sample_create_object_def sample_delete_file_def sample_delete_directory_def sample_fetch_def
  sample_write_def sample_rename_def sample_world_def empty_context_def

end
