(* ===== verification/Smb_Server.thy ===== *)
theory Smb_Server
  imports Sample_Server
begin

text \<open>
  The functions of \<open>gpl_util/smb/util.cc\<close> that talk to the server: entity metadata, the creation of
  directories with their parents, and the connection by host name. Each takes the environment, the
  address of the connection and its session (context and world).
\<close>

subsection \<open>Metadata\<close>

definition msg_get_md :: "string \<Rightarrow> string \<Rightarrow> string" where
  "msg_get_md path m = ''Failed to get metadata for path '' @ path @ '', error msg: '' @ m"

definition msg_get_symlink :: "string \<Rightarrow> string \<Rightarrow> string" where
  "msg_get_symlink path m = ''Failed to get symlink target for path '' @ path @ '', error msg: '' @ m"

text \<open>The attributes copied from the wrapper's structure; the ACLs become an extended attribute.\<close>

definition fill_metadata :: "smbc_wrapper_entity_metadata \<Rightarrow> EntityMetadata \<Rightarrow> EntityMetadata" where
  "fill_metadata src md =
     md\<lparr>md_attributes := sm_attributes src, md_uid := sm_uid src, md_gid := sm_gid src,
        md_change_time_usecs := ConvertTimespecToUsecs (sm_change_time_ts src),
        md_modify_time_usecs := ConvertTimespecToUsecs (sm_modify_time_ts src),
        md_create_time_usecs := ConvertTimespecToUsecs (sm_create_time_ts src),
        md_access_time_usecs := ConvertTimespecToUsecs (sm_access_time_ts src),
        md_size := sm_size src, md_allocation_size := sm_allocation_size src,
        md_inode_id := sm_inode_id src, md_num_hardlinks := sm_num_hardlinks src,
        md_extended_attributes := md_extended_attributes md @ [(kSmbXattrACL, sm_acls src)]\<rparr>"

definition flip_slashes :: "string \<Rightarrow> string" where
  "flip_slashes = map (\<lambda>c. if c = bslash then slash else c)"

text \<open>The result is the error and the metadata message as the function leaves it, on errors too.\<close>

definition GetEntityMetadata ::
  "'w smb_env \<Rightarrow> addr \<Rightarrow> string \<Rightarrow> bool \<Rightarrow> EntityMetadata \<Rightarrow> 'w sess \<Rightarrow>
   (Error \<times> EntityMetadata) \<times> 'w sess" where
  "GetEntityMetadata E p path fetch_symlink_tgt md s =
     (case e_get_metadata E path p s of
        (None, s) \<Rightarrow>
          ((FromSmbErrorMessage (nt_status (fst s)) (msg_get_md path (error_msg (fst s))), md), s)
      | (Some src, s) \<Rightarrow>
          if sm_attributes src AND kSmbAttrDirectory \<noteq> 0
          then ((no_error, fill_metadata src (md\<lparr>md_type := MdDirectory\<rparr>)), s)
          else if sm_attributes src AND kSmbAttrReparsePoint \<noteq> 0
          then let md = md\<lparr>md_type := MdFile\<rparr> in
               if fetch_symlink_tgt
               then let ((status, target_path, fl), s) = e_read_symlink E path p s in
                    if status = 0
                    then ((no_error, fill_metadata src
                            (md\<lparr>md_symlink_target := flip_slashes target_path, md_symlink_flags := fl\<rparr>)), s)
                    else ((FromSmbErrorMessage (nt_status (fst s))
                             (msg_get_symlink path (error_msg (fst s))), md), s)
               else ((no_error, fill_metadata src md), s)
          else ((no_error, fill_metadata src (md\<lparr>md_type := MdFile\<rparr>)), s))"

text \<open>The overload with its own memory context; callers pass a fresh message.\<close>

definition GetEntityMetadata3 ::
  "'w smb_env \<Rightarrow> addr \<Rightarrow> string \<Rightarrow> 'w sess \<Rightarrow> (Error \<times> EntityMetadata) \<times> 'w sess" where
  "GetEntityMetadata3 E p path s =
     with_mem E (256 * kNumBytesInKB)
       (\<lambda>s. ((mk_error kInvalid ''Failed to create memory context for fetching metadata'',
              empty_metadata), s))
       (GetEntityMetadata E p path False empty_metadata) s"

subsection \<open>Creating directories\<close>

definition msg_not_dir :: "string \<Rightarrow> string" where
  "msg_not_dir path =
     ''CreateDirectoryWithChecks failed: Existing entity '' @ path @ '' is not a directory''"

definition msg_create_obj :: "string \<Rightarrow> string \<Rightarrow> string" where
  "msg_create_obj path m =
     ''Failed on smbc_wrapper_create_object for: '' @ path @ '', error_msg: '' @ m"

definition CreateDirectoryWithChecks ::
  "'w smb_env \<Rightarrow> addr \<Rightarrow> string \<Rightarrow> 'w sess \<Rightarrow> Error \<times> 'w sess" where
  "CreateDirectoryWithChecks E p path s =
     (let (ret, s) = e_create_object E path False p s in
      if ret < 0
      then if nt_status (fst s) = kNtStatusObjectNameCollision
           then let ((error, metadata), s) = GetEntityMetadata3 E p path s in
                if \<not> Ok error \<or> md_type metadata \<noteq> MdDirectory
                then (mk_error kInvalid (msg_not_dir path), s) else (no_error, s)
           else (FromSmbErrorMessage (nt_status (fst s)) (msg_create_obj path (error_msg (fst s))), s)
      else (no_error, s))"

text \<open>The recursion goes to the part before the last backslash, which is shorter. Without one
  \<^verbatim>\<open>substr(0, npos)\<close> is the whole path again and the call never returns; only a debug assertion
  guards that case, and \<open>None\<close> stands for it.\<close>

definition msg_mkdir :: "string \<Rightarrow> string" where
  "msg_mkdir d = ''MkDirWithParentsInternal failed: '' @ d"

definition msg_path_not_dir :: "string \<Rightarrow> string" where
  "msg_path_not_dir path = ''The specified path: '' @ path @ '' is not a directory''"

function MkDirWithParentsInternal ::
  "'w smb_env \<Rightarrow> addr \<Rightarrow> string \<Rightarrow> string list \<Rightarrow> 'w sess \<Rightarrow>
   (Error \<times> string list \<times> 'w sess) option" where
  "MkDirWithParentsInternal E p path created s =
     (let ((error, metadata), s) = GetEntityMetadata E p path False empty_metadata s in
      if \<not> Ok error \<and> type_of error \<noteq> kNonExistent then Some (error, created, s)
      else if Ok error
      then if md_type metadata \<noteq> MdDirectory
           then Some (mk_error kInvalid (msg_path_not_dir path), created, s)
           else Some (error, created, s)
      else case rfind bslash path of
             None \<Rightarrow> None
           | Some pos \<Rightarrow>
               let parent_path = take pos path in
               do { (error, created, s) \<leftarrow>
                      (if parent_path \<noteq> [] then MkDirWithParentsInternal E p parent_path created s
                       else Some (no_error, created, s));
                    if \<not> Ok error then Some (error, created, s)
                    else let (error, s) = CreateDirectoryWithChecks E p path s in
                         if \<not> Ok error
                         then Some (mk_error (type_of error) (msg_mkdir (error_detail error)), created, s)
                         else Some (no_error, created @ [path], s) })"
  by pat_completeness auto
termination
  by (relation "measure (\<lambda>(E, p, path, created, s). length path)") (auto dest!: rfind_Some)

declare MkDirWithParentsInternal.simps [simp del]

definition msg_delete_dir :: "string \<Rightarrow> string \<Rightarrow> string" where
  "msg_delete_dir path m = ''Failed to delete the directory '' @ path @ '', error msg: '' @ m"

text \<open>The cleanup loop of \<open>MkDirWithParents\<close>, on the created directories in reverse order.\<close>

fun cleanup_dirs ::
  "'w smb_env \<Rightarrow> addr \<Rightarrow> Error \<Rightarrow> string list \<Rightarrow> 'w sess \<Rightarrow> Error \<times> 'w sess" where
  "cleanup_dirs E p error [] s = (error, s)"
| "cleanup_dirs E p error (d # ds) s =
     (let (ret, s) = e_delete_directory E d p s in
      if ret < 0 then (FromSmbErrorMessage (nt_status (fst s)) (msg_delete_dir d (error_msg (fst s))), s)
      else cleanup_dirs E p error ds s)"

definition mkdir_path :: "'w smb_env \<Rightarrow> string \<Rightarrow> string" where
  "mkdir_path E path =
     (let dir_path = NormalizePath (e_normalize E) path bslash in
      if dir_path \<noteq> [] \<and> last dir_path = bslash then butlast dir_path else dir_path)"

definition MkDirWithParents ::
  "'w smb_env \<Rightarrow> addr \<Rightarrow> string \<Rightarrow> 'w sess \<Rightarrow> (Error \<times> 'w sess) option" where
  "MkDirWithParents E p path s =
     (if path = [] \<or> hd path \<noteq> bslash
      then Some (mk_error kInvalid (''Invalid directory path '' @ path), s)
      else case e_talloc E (256 * kNumBytesInKB) (snd s) of
             (None, w) \<Rightarrow>
               Some (mk_error kInvalid ''Failed to create memory context for fetching metadata'', (fst s, w))
           | (Some m, w) \<Rightarrow>
               do { (error, created, s) \<leftarrow>
                      MkDirWithParentsInternal E p (mkdir_path E path) [] (fst s, w);
                    let (error, s) =
                          (if Ok error then (error, s) else cleanup_dirs E p error (rev created) s);
                    Some (error, (fst s, e_free E m (snd s))) })"

definition CreateDirectoryHelper ::
  "'w smb_env \<Rightarrow> addr \<Rightarrow> string \<Rightarrow> bool \<Rightarrow> 'w sess \<Rightarrow> (Error \<times> 'w sess) option" where
  "CreateDirectoryHelper E p path create_parent_dir s =
     (if path = [] then Some (no_error, s)
      else if create_parent_dir then MkDirWithParents E p path s
      else Some (CreateDirectoryWithChecks E p path s))"

subsection \<open>Connecting by host name\<close>

text \<open>The loop over the resolved addresses: the first connection that succeeds is kept.\<close>

fun try_addresses ::
  "'w smb_env \<Rightarrow> addr \<Rightarrow> (string \<Rightarrow> ('w, int) call) \<Rightarrow> sockaddr list \<Rightarrow> int \<Rightarrow> 'w sess \<Rightarrow> int \<times> 'w sess" where
  "try_addresses E p connect [] ret s = (ret, s)"
| "try_addresses E p connect (a # as) ret s =
     (if a = AF_OTHER then try_addresses E p connect as ret s
      else case e_inet_ntop E a of
             None \<Rightarrow> try_addresses E p connect as ret s
           | Some ip \<Rightarrow>
               let (ret, s) = connect ip p s in
               if ret \<noteq> -1 then (ret, s) else try_addresses E p connect as ret s)"

definition CreateSmbConnectionByResolvingHostname ::
  "'w smb_env \<Rightarrow> addr \<Rightarrow> string \<Rightarrow> string \<Rightarrow> string \<Rightarrow> string \<Rightarrow> string \<Rightarrow> 'w sess \<Rightarrow> int \<times> 'w sess" where
  "CreateSmbConnectionByResolvingHostname E p srv shr user pass workgroup s =
     (case e_getaddrinfo E srv (snd s) of
        (None, w) \<Rightarrow> (-1, (fst s, w))
      | (Some ai, w) \<Rightarrow>
          try_addresses E p (\<lambda>ip. e_create_connection E ip shr user pass workgroup) ai (-1) (fst s, w))"

subsection \<open>What the server promises\<close>

text \<open>\<open>dirs\<close> reads the set of existing directories off the world. The contract says what the calls used
  to create directories report and change when nobody else works on the share meanwhile: metadata
  tells directories from other entities, a successful creation adds a new directory, a failed call
  changes nothing.\<close>

definition dir_contract :: "'w smb_env \<Rightarrow> addr \<Rightarrow> ('w \<Rightarrow> string set) \<Rightarrow> bool" where
  "dir_contract E p dirs \<longleftrightarrow>
     (\<forall>path s. let (r, s') = e_get_metadata E path p s in
        dirs (snd s') = dirs (snd s) \<and>
        (case r of
           Some src \<Rightarrow> (path \<in> dirs (snd s) \<longleftrightarrow> sm_attributes src AND kSmbAttrDirectory \<noteq> 0)
         | None \<Rightarrow> type_of (FromSmbErrorMessage (nt_status (fst s')) []) = kNonExistent \<longrightarrow>
                     path \<notin> dirs (snd s))) \<and>
     (\<forall>path s. let (ret, s') = e_create_object E path False p s in
        dirs (snd s') = (if ret < 0 then dirs (snd s) else insert path (dirs (snd s)))) \<and>
     (\<forall>path s. let (ret, s') = e_delete_directory E path p s in
        0 \<le> ret \<and> dirs (snd s') = dirs (snd s) - {path}) \<and>
     (\<forall>sz w. dirs (snd (e_talloc E sz w)) = dirs w) \<and> (\<forall>m w. dirs (e_free E m w) = dirs w)"

lemma dir_contractD:
  assumes "dir_contract E p dirs"
  shows "e_get_metadata E path p s = (r, s') \<Longrightarrow> dirs (snd s') = dirs (snd s)"
    "e_get_metadata E path p s = (Some src, s') \<Longrightarrow>
       path \<in> dirs (snd s) \<longleftrightarrow> sm_attributes src AND kSmbAttrDirectory \<noteq> 0"
    "e_get_metadata E path p s = (None, s') \<Longrightarrow>
       type_of (FromSmbErrorMessage (nt_status (fst s')) m) = kNonExistent \<Longrightarrow> path \<notin> dirs (snd s)"
    "e_create_object E path False p s = (ret, s') \<Longrightarrow>
       dirs (snd s') = (if ret < 0 then dirs (snd s) else insert path (dirs (snd s)))"
    "e_delete_directory E path p s = (ret, s') \<Longrightarrow> 0 \<le> ret \<and> dirs (snd s') = dirs (snd s) - {path}"
    "dirs (snd (e_talloc E sz w)) = dirs w" "dirs (e_free E mm w) = dirs w"
proof -
  have ne: "type_of (FromSmbErrorMessage st m) = kNonExistent \<longleftrightarrow>
      type_of (FromSmbErrorMessage st []) = kNonExistent" for st
    by (simp add: From_nonexistent)
  note c = assms[unfolded dir_contract_def]
  show "e_get_metadata E path p s = (r, s') \<Longrightarrow> dirs (snd s') = dirs (snd s)"
    using c[THEN conjunct1, rule_format, of path s] by simp
  show "e_get_metadata E path p s = (Some src, s') \<Longrightarrow>
       path \<in> dirs (snd s) \<longleftrightarrow> sm_attributes src AND kSmbAttrDirectory \<noteq> 0"
    using c[THEN conjunct1, rule_format, of path s] by simp
  show "e_get_metadata E path p s = (None, s') \<Longrightarrow>
       type_of (FromSmbErrorMessage (nt_status (fst s')) m) = kNonExistent \<Longrightarrow> path \<notin> dirs (snd s)"
    using c[THEN conjunct1, rule_format, of path s] ne by simp
  show "e_create_object E path False p s = (ret, s') \<Longrightarrow>
       dirs (snd s') = (if ret < 0 then dirs (snd s) else insert path (dirs (snd s)))"
    using c[THEN conjunct2, THEN conjunct1, rule_format, of path s] by simp
  show "e_delete_directory E path p s = (ret, s') \<Longrightarrow> 0 \<le> ret \<and> dirs (snd s') = dirs (snd s) - {path}"
    using c[THEN conjunct2, THEN conjunct2, THEN conjunct1, rule_format, of path s] by simp
  show "dirs (snd (e_talloc E sz w)) = dirs w" "dirs (e_free E mm w) = dirs w"
    using c by auto
qed

lemma sample_dir_contract: "dir_contract sample_env p (\<lambda>w. set (d_dirs w))"
  by (auto simp: dir_contract_def sample_defs kSmbAttrDirectory_def zero_smb_metadata_def
      split: option.splits)

subsection \<open>Creation of directories against the contract\<close>

lemma FromSmb_not_Ok [simp]: "Ok (FromSmbErrorMessage st m) \<longleftrightarrow> False"
  by simp

lemma GetEntityMetadata_dirs:
  assumes c: "dir_contract E p dirs"
    and g: "GetEntityMetadata E p path False md s = ((e, md'), s')"
  shows "dirs (snd s') = dirs (snd s)" "Ok e \<Longrightarrow> path \<in> dirs (snd s) \<longleftrightarrow> md_type md' = MdDirectory"
    "type_of e = kNonExistent \<Longrightarrow> path \<notin> dirs (snd s)"
proof -
  obtain r s1 where r: "e_get_metadata E path p s = (r, s1)" by (rule prod.exhaust)
  note d = dir_contractD(1-3)[OF c]
  have s1: "s' = s1" using g r
    by (auto simp: GetEntityMetadata_def Let_def split: option.splits if_splits)
  show "dirs (snd s') = dirs (snd s)" using d(1)[OF r] s1 by simp
  show "path \<in> dirs (snd s) \<longleftrightarrow> md_type md' = MdDirectory" if "Ok e"
  proof (cases r)
    case None
    with g r that show ?thesis by (auto simp: GetEntityMetadata_def)
  next
    case (Some src)
    then show ?thesis using d(2)[OF r[unfolded Some]] g r
      by (auto simp: GetEntityMetadata_def Let_def fill_metadata_def split: if_splits)
  qed
  show "path \<notin> dirs (snd s)" if n: "type_of e = kNonExistent"
  proof (cases r)
    case None
    with g r n show ?thesis using d(3)[OF r[unfolded None]] by (auto simp: GetEntityMetadata_def)
  next
    case (Some src)
    with g r n show ?thesis by (auto simp: GetEntityMetadata_def Let_def split: if_splits)
  qed
qed

lemma GetEntityMetadata3_dirs:
  assumes c: "dir_contract E p dirs" and g: "GetEntityMetadata3 E p path s = ((e, md'), s')"
  shows "dirs (snd s') = dirs (snd s)" "Ok e \<Longrightarrow> path \<in> dirs (snd s) \<longleftrightarrow> md_type md' = MdDirectory"
proof -
  obtain m w where t: "e_talloc E (256 * kNumBytesInKB) (snd s) = (m, w)" by (rule prod.exhaust)
  have w: "dirs w = dirs (snd s)" using dir_contractD(6)[OF c, of "256 * kNumBytesInKB" "snd s"] t by simp
  have "dirs (snd s') = dirs (snd s) \<and> (Ok e \<longrightarrow> (path \<in> dirs (snd s) \<longleftrightarrow> md_type md' = MdDirectory))"
  proof (cases m)
    case None
    have "GetEntityMetadata3 E p path s =
        ((mk_error kInvalid ''Failed to create memory context for fetching metadata'', empty_metadata), (fst s, w))"
      unfolding GetEntityMetadata3_def with_mem_def t None by simp
    with g have "e = mk_error kInvalid ''Failed to create memory context for fetching metadata''" "s' = (fst s, w)"
      by simp_all
    with w show ?thesis by simp
  next
    case (Some a)
    obtain e1 md1 c1 w1 where g1: "GetEntityMetadata E p path False empty_metadata (fst s, w) = ((e1, md1), (c1, w1))"
      by (rule pair_pairE)
    then have "GetEntityMetadata3 E p path s = ((e1, md1), (c1, e_free E a w1))"
      unfolding GetEntityMetadata3_def with_mem_def t Some by simp
    with g have "e = e1" "md' = md1" "s' = (c1, e_free E a w1)" by simp_all
    with GetEntityMetadata_dirs[OF c g1] w dir_contractD(7)[OF c] show ?thesis by simp
  qed
  then show "dirs (snd s') = dirs (snd s)" "Ok e \<Longrightarrow> path \<in> dirs (snd s) \<longleftrightarrow> md_type md' = MdDirectory"
    by blast+
qed

lemma CreateDirectoryWithChecks_dirs:
  assumes c: "dir_contract E p dirs" and n: "path \<notin> dirs (snd s)"
    and g: "CreateDirectoryWithChecks E p path s = (e, s')"
  shows "dirs (snd s') = (if Ok e then insert path (dirs (snd s)) else dirs (snd s))"
proof -
  obtain ret s1 where r: "e_create_object E path False p s = (ret, s1)" by (rule prod.exhaust)
  note d1 = dir_contractD(4)[OF c r]
  obtain e2 md2 s2 where g2: "GetEntityMetadata3 E p path s1 = ((e2, md2), s2)" by (rule pair_fstE)
  note d2 = GetEntityMetadata3_dirs[OF c g2]
  show ?thesis
    using g r d1 g2 d2 n
    by (auto simp: CreateDirectoryWithChecks_def Let_def split: if_splits)
qed

lemma MkDirWithParentsInternal_dirs:
  assumes c: "dir_contract E p dirs"
  shows "MkDirWithParentsInternal E p path created s = Some (e, created', s') \<Longrightarrow>
    \<exists>new. created' = created @ new \<and> dirs (snd s') = dirs (snd s) \<union> set new \<and>
      set new \<inter> dirs (snd s) = {} \<and> (Ok e \<longrightarrow> path \<in> dirs (snd s')) \<and>
      (\<forall>d\<in>set new. prefix d path)"
proof (induction path arbitrary: created s e created' s' rule: measure_induct_rule[of length])
  case (less path)
  obtain e1 md1 s1 where g: "GetEntityMetadata E p path False empty_metadata s = ((e1, md1), s1)"
    by (rule pair_fstE)
  note d = GetEntityMetadata_dirs[OF c g]
  note run = less.prems[unfolded MkDirWithParentsInternal.simps[of E p path], simplified g Let_def prod.case]
  show ?case
  proof (cases "Ok e1 \<or> type_of e1 \<noteq> kNonExistent")
    case True
    then have "created' = created \<and> s' = s1 \<and> (Ok e \<longrightarrow> path \<in> dirs (snd s))"
      using run d by (auto simp: Ok_def split: if_splits)
    with d(1) show ?thesis by auto
  next
    case False
    then have ne: "path \<notin> dirs (snd s1)" using d(1,3) by simp
    from run False obtain pos where pos: "rfind bslash path = Some pos"
      by (auto simp: Ok_def split: option.splits)
    let ?par = "if take pos path \<noteq> [] then MkDirWithParentsInternal E p (take pos path) created s1
      else Some (no_error, created, s1)"
    from run False pos obtain e2 cr2 s2 where par: "?par = Some (e2, cr2, s2)"
      and rest: "(if \<not> Ok e2 then Some (e2, cr2, s2)
                  else case CreateDirectoryWithChecks E p path s2 of (error, s) \<Rightarrow>
                       if \<not> Ok error
                       then Some (mk_error (type_of error) (msg_mkdir (error_detail error)), cr2, s)
                       else Some (no_error, cr2 @ [path], s)) = Some (e, created', s')"
      by (auto simp: Ok_def Option.bind_eq_Some_conv)
    have len: "length (take pos path) < length path" using rfind_Some[OF pos] by simp
    obtain new where new: "cr2 = created @ new" "dirs (snd s2) = dirs (snd s1) \<union> set new"
        "set new \<inter> dirs (snd s1) = {}" "\<forall>d\<in>set new. prefix d (take pos path)"
      using par less.IH[OF len, of created s1 e2 cr2 s2] by (cases "take pos path = []") auto
    have "path \<notin> set new" using new(4) len prefix_length_le leD by blast
    then have ne2: "path \<notin> dirs (snd s2)" using ne new(2) by simp
    have pre: "\<forall>d\<in>set new. prefix d path" using new(4) take_is_prefix prefix_order.trans by blast
    obtain e3 s3 where cd: "CreateDirectoryWithChecks E p path s2 = (e3, s3)" by (rule prod.exhaust)
    note d3 = CreateDirectoryWithChecks_dirs[OF c ne2 cd]
    show ?thesis
    proof (cases "Ok e2 \<and> Ok e3")
      case True
      with rest cd have "e = no_error" "created' = created @ (new @ [path])" "s' = s3" using new(1) by auto
      with True d3 new d(1) ne pre show ?thesis by (intro exI[of _ "new @ [path]"]) auto
    next
      case False
      then have "\<not> Ok e \<and> created' = created @ new \<and> dirs (snd s') = dirs (snd s2)"
        using rest cd d3 new(1) by (auto simp: Ok_def split: if_splits)
      with new d(1) pre show ?thesis by (intro exI[of _ new]) auto
    qed
  qed
qed

lemma cleanup_dirs_undoes:
  assumes c: "dir_contract E p dirs"
  shows "cleanup_dirs E p e ds s = (e', s') \<Longrightarrow> e' = e \<and> dirs (snd s') = dirs (snd s) - set ds"
proof (induction ds arbitrary: s)
  case (Cons d ds)
  obtain ret s1 where r: "e_delete_directory E d p s = (ret, s1)" by (rule prod.exhaust)
  note d = dir_contractD(5)[OF c r]
  have "cleanup_dirs E p e ds s1 = (e', s')" using Cons.prems r d by simp
  from Cons.IH[OF this] d show ?case by auto
qed simp

text \<open>The recursion reaches a parent that needs no backslash only for the empty path.\<close>

lemma MkDirWithParentsInternal_returns:
  "path \<noteq> [] \<Longrightarrow> hd path = bslash \<Longrightarrow> \<exists>r. MkDirWithParentsInternal E p path created s = Some r"
proof (induction path arbitrary: created s rule: measure_induct_rule[of length])
  case (less path)
  have "bslash \<in> set path" using less.prems by (cases path) auto
  then obtain pos where pos: "rfind bslash path = Some pos" using rfind_None by fastforce
  then have len: "length (take pos path) < length path" using rfind_Some[OF pos] by simp
  obtain e1 md1 s1 where g: "GetEntityMetadata E p path False empty_metadata s = ((e1, md1), s1)"
    by (rule pair_fstE)
  let ?par = "if take pos path \<noteq> [] then MkDirWithParentsInternal E p (take pos path) created s1
      else Some (no_error, created, s1)"
  have "\<exists>r. ?par = Some r"
    using less.IH[OF len, of created s1] less.prems by (cases path; cases pos) auto
  then obtain e2 cr2 s2 where par: "?par = Some (e2, cr2, s2)" by auto
  obtain e3 s3 where cd: "CreateDirectoryWithChecks E p path s2 = (e3, s3)" by (rule prod.exhaust)
  show ?case
    by (subst MkDirWithParentsInternal.simps) (simp add: g pos par cd Let_def del: take_eq_Nil)
qed



end
