(* ===== verification/Node_List.thy ===== *)
theory Node_List
  imports Prelude
begin

text \<open>
  \<^verbatim>\<open>std::list\<close> with iterators kept elsewhere, as the LRU structures of the proxy use it. A list
  is a sequence of nodes, each an identifier (the iterator's target) and an element; identifiers
  stay valid when other nodes come and go. An index maps the key of an element to the identifier
  of its node. The theory holds the operations, the agreement of list and index, and the abstract
  least-recently-used cache (a list of key and value pairs, most recent first) that both caches of
  the proxy implement, as locales.
\<close>

type_synonym 'a nlist = "(nat \<times> 'a) list"

definition nl_erase :: "nat \<Rightarrow> 'a nlist \<Rightarrow> 'a nlist" where
  "nl_erase i xs = filter (\<lambda>n. fst n \<noteq> i) xs"

text \<open>The element an iterator points to; a dangling iterator has no defined target.\<close>

definition nl_get :: "nat \<Rightarrow> 'a nlist \<Rightarrow> 'a" where
  "nl_get i xs = the (map_of xs i)"

text \<open>\<^verbatim>\<open>splice(begin(), list, it)\<close>: the node moves to the front.\<close>

definition nl_splice_front :: "nat \<Rightarrow> 'a nlist \<Rightarrow> 'a nlist" where
  "nl_splice_front i xs = (i, nl_get i xs) # nl_erase i xs"

subsection \<open>Agreement of list and index\<close>

definition index_ok :: "('a \<Rightarrow> 'k) \<Rightarrow> ('k, nat) umap \<Rightarrow> 'a nlist \<Rightarrow> nat \<Rightarrow> bool" where
  "index_ok key m xs nxt \<longleftrightarrow>
     distinct (map fst xs) \<and> distinct (map (key \<circ> snd) xs) \<and> keys_distinct m \<and>
     set m = (\<lambda>n. (key (snd n), fst n)) ` set xs \<and> (\<forall>n\<in>set xs. fst n < nxt)"

lemma index_okD:
  assumes "index_ok key m xs nxt"
  shows "distinct (map fst xs)" "distinct (map (key \<circ> snd) xs)" "keys_distinct m"
    "set m = (\<lambda>n. (key (snd n), fst n)) ` set xs" "\<And>n. n \<in> set xs \<Longrightarrow> fst n < nxt"
  using assms by (auto simp: index_ok_def)

lemma node_unique:
  "distinct (map fst xs) \<Longrightarrow> (i, a) \<in> set xs \<Longrightarrow> n \<in> set xs \<Longrightarrow> fst n = i \<Longrightarrow> n = (i, a)"
  by (cases n) (auto dest: eq_key_imp_eq_value)

lemma key_unique:
  "distinct (map (key \<circ> snd) xs) \<Longrightarrow> x \<in> set xs \<Longrightarrow> y \<in> set xs \<Longrightarrow> key (snd x) = key (snd y) \<Longrightarrow> x = y"
  by (simp add: distinct_map inj_on_def)

lemma index_ok_empty: "index_ok key [] [] nxt"
  by (simp add: index_ok_def)

lemma index_ok_find:
  assumes "index_ok key m xs nxt"
  shows "map_of m k = Some i \<longleftrightarrow> (\<exists>a. (i, a) \<in> set xs \<and> key a = k)"
  using index_okD(3,4)[OF assms] by (subst map_of_eq_Some_iff) force+

lemma index_ok_find_None:
  assumes "index_ok key m xs nxt"
  shows "map_of m k = None \<longleftrightarrow> k \<notin> (key \<circ> snd) ` set xs"
  using index_okD(4)[OF assms] by (auto simp: map_of_eq_None_iff image_iff)

lemma index_ok_length:
  assumes "index_ok key m xs nxt"
  shows "length m = length xs"
proof -
  from index_okD(3)[OF assms] have "distinct m" by (simp add: distinct_map)
  then have "length m = card (set m)" by (simp add: distinct_card)
  also have "\<dots> = card (set xs)"
    unfolding index_okD(4)[OF assms]
  proof (rule card_image, rule inj_onI)
    fix x y
    assume "x \<in> set xs" "y \<in> set xs" and eq: "(key (snd x), fst x) = (key (snd y), fst y)"
    with index_okD(2)[OF assms] show "x = y" by (auto intro: key_unique)
  qed
  also have "\<dots> = length xs"
    using index_okD(1)[OF assms] by (simp add: distinct_card distinct_map)
  finally show ?thesis .
qed

lemma index_ok_get:
  assumes "index_ok key m xs nxt" "(i, a) \<in> set xs"
  shows "nl_get i xs = a"
  using index_okD(1)[OF assms(1)] assms(2) by (simp add: nl_get_def)

lemma nl_erase_key:
  assumes "index_ok key m xs nxt" "map_of m k = Some i"
  shows "nl_erase i xs = filter (\<lambda>n. key (snd n) \<noteq> k) xs"
proof -
  from assms obtain a where a: "(i, a) \<in> set xs" "key a = k" by (auto simp: index_ok_find)
  have "fst n \<noteq> i \<longleftrightarrow> key (snd n) \<noteq> k" if n: "n \<in> set xs" for n
  proof
    show "key (snd n) \<noteq> k \<Longrightarrow> fst n \<noteq> i"
      using node_unique[OF index_okD(1)[OF assms(1)] a(1) n] a(2) by (metis snd_conv)
    show "fst n \<noteq> i \<Longrightarrow> key (snd n) \<noteq> k"
      using key_unique[OF index_okD(2)[OF assms(1)] n a(1)] a(2) by auto
  qed
  then show ?thesis by (auto simp: nl_erase_def intro!: filter_cong)
qed

subsubsection \<open>Operations keep the agreement\<close>

lemma index_ok_erase:
  assumes ok: "index_ok key m xs nxt" and k: "map_of m k = Some i"
  shows "index_ok key (AList.delete k m) (nl_erase i xs) nxt"
proof -
  note d = index_okD[OF ok]
  have e: "nl_erase i xs = filter (\<lambda>n. key (snd n) \<noteq> k) xs" by (rule nl_erase_key[OF ok k])
  have "distinct (map fst (nl_erase i xs))" "distinct (map (key \<circ> snd) (nl_erase i xs))"
    using d(1,2) by (auto simp: e distinct_map_filter)
  moreover have "set (AList.delete k m) = (\<lambda>n. (key (snd n), fst n)) ` set (nl_erase i xs)"
    using d(4) by (auto simp: e)
  ultimately show ?thesis using d(3,5) by (auto simp: index_ok_def e)
qed

lemma index_ok_push:
  assumes ok: "index_ok key m xs nxt" and k: "map_of m (key a) = None"
    and m': "set m' = insert (key a, nxt) (set m)" "keys_distinct m'"
    and xs': "xs' = (nxt, a) # xs \<or> xs' = xs @ [(nxt, a)]"
  shows "index_ok key m' xs' (Suc nxt)"
proof -
  note d = index_okD[OF ok]
  have new: "nxt \<notin> fst ` set xs" using d(5) by (metis image_iff less_irrefl)
  have newk: "key a \<notin> (key \<circ> snd) ` set xs" using index_ok_find_None[OF ok] k by simp
  from xs' have "distinct (map fst xs')" "distinct (map (key \<circ> snd) xs')"
    using d(1,2) new newk by (auto simp: comp_def)
  moreover have "set m' = (\<lambda>n. (key (snd n), fst n)) ` set xs'"
    using xs' m'(1) d(4) by auto
  moreover have "\<forall>n\<in>set xs'. fst n < Suc nxt"
  proof -
    have "n \<in> set xs \<Longrightarrow> fst n < Suc nxt" for n using d(5)[of n] by simp
    with xs' show ?thesis by auto
  qed
  ultimately show ?thesis using m'(2) by (simp add: index_ok_def)
qed

lemma index_ok_splice:
  assumes ok: "index_ok key m xs nxt" and k: "map_of m k = Some i"
  shows "index_ok key m (nl_splice_front i xs) nxt"
    and "map snd (nl_splice_front i xs) = nl_get i xs # filter (\<lambda>a. key a \<noteq> k) (map snd xs)"
    and "key (nl_get i xs) = k"
proof -
  note d = index_okD[OF ok]
  from ok k obtain a where a: "(i, a) \<in> set xs" "key a = k" by (auto simp: index_ok_find)
  then have g: "nl_get i xs = a" by (simp add: index_ok_get[OF ok])
  with a show kk: "key (nl_get i xs) = k" by simp
  have e: "nl_erase i xs = filter (\<lambda>n. key (snd n) \<noteq> k) xs" by (rule nl_erase_key[OF ok k])
  then show "map snd (nl_splice_front i xs) = nl_get i xs # filter (\<lambda>a. key a \<noteq> k) (map snd xs)"
    by (simp add: nl_splice_front_def filter_map comp_def)
  have "distinct (map fst (nl_splice_front i xs))"
    using d(1) by (auto simp: nl_splice_front_def nl_erase_def distinct_map_filter)
  moreover have "distinct (map (key \<circ> snd) (nl_splice_front i xs))"
    using d(2) a g by (auto simp: nl_splice_front_def e distinct_map_filter)
  moreover have "set (nl_splice_front i xs) = set xs"
  proof -
    have "n \<in> set xs \<longleftrightarrow> n = (i, a) \<or> n \<in> set xs \<and> fst n \<noteq> i" for n
      using a(1) node_unique[OF d(1) a(1)] by blast
    then show ?thesis by (auto simp: nl_splice_front_def nl_erase_def g)
  qed
  ultimately show "index_ok key m (nl_splice_front i xs) nxt"
    using d(3,4,5) by (simp add: index_ok_def)
qed

subsection \<open>The abstract cache\<close>

text \<open>A cache as a list of pairs with distinct keys, most recently used first.\<close>

definition lru_insert :: "nat \<Rightarrow> 'k \<Rightarrow> 'v \<Rightarrow> ('k \<times> 'v) list \<Rightarrow> ('k \<times> 'v) list" where
  "lru_insert cap k v xs = take cap ((k, v) # filter (\<lambda>p. fst p \<noteq> k) xs)"

definition lru_touch :: "'k \<Rightarrow> ('k \<times> 'v) list \<Rightarrow> ('k \<times> 'v) list" where
  "lru_touch k xs =
     (case map_of xs k of None \<Rightarrow> xs | Some v \<Rightarrow> (k, v) # filter (\<lambda>p. fst p \<noteq> k) xs)"

definition lru_remove :: "'k \<Rightarrow> ('k \<times> 'v) list \<Rightarrow> ('k \<times> 'v) list" where
  "lru_remove k xs = filter (\<lambda>p. fst p \<noteq> k) xs"

text \<open>\<open>k\<close> is present with value \<open>v\<close> and only keys of \<open>S\<close> are more recent.\<close>

definition recent_after :: "'k set \<Rightarrow> 'k \<Rightarrow> 'v \<Rightarrow> ('k \<times> 'v) list \<Rightarrow> bool" where
  "recent_after S k v xs \<longleftrightarrow> (\<exists>ps qs. xs = ps @ (k, v) # qs \<and> fst ` set ps \<subseteq> S)"

lemma recent_afterI: "xs = ps @ (k, v) # qs \<Longrightarrow> fst ` set ps \<subseteq> S \<Longrightarrow> recent_after S k v xs"
  by (auto simp: recent_after_def)

lemma recent_after_map_of:
  "recent_after S k v xs \<Longrightarrow> k \<notin> S \<Longrightarrow> map_of xs k = Some v"
  by (auto simp: recent_after_def map_of_append map_add_def split: option.splits dest!: map_of_SomeD)
     (metis fst_conv image_eqI subsetD)

lemma recent_after_filter:
  assumes "recent_after S k v xs" "k' \<noteq> k"
  shows "recent_after S k v (filter (\<lambda>p. fst p \<noteq> k') xs)"
proof -
  from assms(1) obtain ps qs where "xs = ps @ (k, v) # qs" "fst ` set ps \<subseteq> S"
    by (auto simp: recent_after_def)
  with assms(2) show ?thesis
    by (intro recent_afterI[of _ "filter (\<lambda>p. fst p \<noteq> k') ps" k v "filter (\<lambda>p. fst p \<noteq> k') qs"]) auto
qed

lemma recent_after_Cons:
  assumes "recent_after S k v xs" "fst p \<in> S"
  shows "recent_after S k v (p # xs)"
proof -
  from assms(1) obtain ps qs where "xs = ps @ (k, v) # qs" "fst ` set ps \<subseteq> S"
    by (auto simp: recent_after_def)
  with assms(2) show ?thesis by (intro recent_afterI[of _ "p # ps" k v qs]) auto
qed

lemma recent_after_take:
  assumes r: "recent_after S k v xs" and d: "distinct (map fst xs)"
    and S: "finite S" "card S < cap"
  shows "recent_after S k v (take cap xs)"
proof -
  from r obtain ps qs where xs: "xs = ps @ (k, v) # qs" and ps: "fst ` set ps \<subseteq> S"
    by (auto simp: recent_after_def)
  from d xs have "distinct (map fst ps)" by simp
  then have "length ps = card (fst ` set ps)" by (metis distinct_card length_map set_map)
  also have "\<dots> \<le> card S" using S(1) ps by (rule card_mono)
  finally have "length ps < cap" using S(2) by simp
  then obtain j where "cap - length ps = Suc j" by (cases "cap - length ps") auto
  with \<open>length ps < cap\<close> have "take cap xs = ps @ (k, v) # take j qs" by (simp add: xs)
  then show ?thesis using ps by (rule recent_afterI)
qed

lemma map_of_filter_key: "k' \<noteq> k \<Longrightarrow> map_of (filter (\<lambda>p. fst p \<noteq> k) xs) k' = map_of xs k'"
  by (induction xs) auto

lemma distinct_filter_keys: "distinct (map fst xs) \<Longrightarrow> distinct (map fst (filter P xs))"
  by (simp add: distinct_map_filter)

lemma lru_insert_facts:
  assumes "distinct (map fst xs)"
  shows "distinct (map fst (lru_insert cap k v xs))" "length (lru_insert cap k v xs) \<le> cap"
    "0 < cap \<Longrightarrow> map_of (lru_insert cap k v xs) k = Some v"
proof -
  have "distinct (map fst ((k, v) # filter (\<lambda>p. fst p \<noteq> k) xs))"
    using assms by (auto simp: distinct_map_filter)
  then show "distinct (map fst (lru_insert cap k v xs))"
    unfolding lru_insert_def by (metis distinct_take take_map)
  show "length (lru_insert cap k v xs) \<le> cap" by (simp add: lru_insert_def)
  show "0 < cap \<Longrightarrow> map_of (lru_insert cap k v xs) k = Some v"
    by (cases cap) (simp_all add: lru_insert_def)
qed

subsection \<open>Sequences of operations\<close>

datatype ('k, 'v) cache_op = CInsert 'k 'v | CLookup 'k | CRemove 'k

primrec op_key :: "('k, 'v) cache_op \<Rightarrow> 'k" where
  "op_key (CInsert k v) = k"
| "op_key (CLookup k) = k"
| "op_key (CRemove k) = k"

text \<open>Running a client's operations with the given insertion, lookup and removal.\<close>

fun cache_run ::
  "('k \<Rightarrow> 'v \<Rightarrow> 'c \<Rightarrow> 'c) \<Rightarrow> ('k \<Rightarrow> 'c \<Rightarrow> 'v option \<times> 'c) \<Rightarrow> ('k \<Rightarrow> 'c \<Rightarrow> 'c) \<Rightarrow>
   ('k, 'v) cache_op list \<Rightarrow> 'c \<Rightarrow> 'c" where
  "cache_run ins look rem [] c = c"
| "cache_run ins look rem (CInsert k v # ops) c = cache_run ins look rem ops (ins k v c)"
| "cache_run ins look rem (CLookup k # ops) c = cache_run ins look rem ops (snd (look k c))"
| "cache_run ins look rem (CRemove k # ops) c = cache_run ins look rem ops (rem k c)"

subsection \<open>Interfaces\<close>

text \<open>What a client of a bounded cache relies on: an invariant, an abstraction to the recency list,
  a capacity, insertion and removal. The lookup that does not change the cache is \<open>find\<close>.\<close>

locale bounded_cache =
  fixes inv :: "'c \<Rightarrow> bool"
    and abs :: "'c \<Rightarrow> ('k \<times> 'v) list"
    and cap :: "'c \<Rightarrow> nat"
    and ins :: "'k \<Rightarrow> 'v \<Rightarrow> 'c \<Rightarrow> 'c"
    and rem :: "'k \<Rightarrow> 'c \<Rightarrow> 'c"
    and find :: "'k \<Rightarrow> 'c \<Rightarrow> 'v option"
  assumes abs_distinct: "inv c \<Longrightarrow> distinct (map fst (abs c))"
    and abs_bound: "inv c \<Longrightarrow> length (abs c) \<le> cap c"
    and ins_inv: "inv c \<Longrightarrow> inv (ins k v c)"
    and ins_cap: "cap (ins k v c) = cap c"
    and ins_abs: "inv c \<Longrightarrow> abs (ins k v c) = lru_insert (cap c) k v (abs c)"
    and rem_inv: "inv c \<Longrightarrow> inv (rem k c)"
    and rem_cap: "cap (rem k c) = cap c"
    and rem_abs: "inv c \<Longrightarrow> abs (rem k c) = lru_remove k (abs c)"
    and find_abs: "inv c \<Longrightarrow> find k c = map_of (abs c) k"
begin

lemma find_ins_same: "inv c \<Longrightarrow> 0 < cap c \<Longrightarrow> find k (ins k v c) = Some v"
  by (simp add: find_abs ins_inv ins_abs abs_distinct lru_insert_facts)

lemma find_rem_same: "inv c \<Longrightarrow> find k (rem k c) = None"
  by (simp add: find_abs rem_inv rem_abs lru_remove_def map_of_eq_None_iff) force

lemma find_rem_other: "inv c \<Longrightarrow> k' \<noteq> k \<Longrightarrow> find k' (rem k c) = find k' c"
  by (simp add: find_abs rem_inv rem_abs lru_remove_def map_of_filter_key)

lemma ins_keeps_recent:
  assumes "inv c" "recent_after S k v (abs c)" "k' \<in> S" "k \<notin> S" "finite S" "card S < cap c"
  shows "recent_after S k v (abs (ins k' v' c))"
proof -
  have "recent_after S k v ((k', v') # filter (\<lambda>p. fst p \<noteq> k') (abs c))"
    using assms by (intro recent_after_Cons recent_after_filter) auto
  moreover have "distinct (map fst ((k', v') # filter (\<lambda>p. fst p \<noteq> k') (abs c)))"
    using abs_distinct[OF assms(1)] by (auto simp: distinct_map_filter)
  ultimately show ?thesis
    unfolding ins_abs[OF assms(1)] lru_insert_def using assms(5,6) by (intro recent_after_take)
qed

lemma rem_keeps_recent:
  "inv c \<Longrightarrow> recent_after S k v (abs c) \<Longrightarrow> k' \<noteq> k \<Longrightarrow> recent_after S k v (abs (rem k' c))"
  by (simp add: rem_abs lru_remove_def recent_after_filter)

end

text \<open>A cache whose lookup also makes the entry the most recent one.\<close>

locale lru_cache = bounded_cache +
  fixes look :: "'b \<Rightarrow> 'a \<Rightarrow> 'c option \<times> 'a"
  assumes look_inv: "inv c \<Longrightarrow> inv (snd (look k c))"
    and look_cap: "cap (snd (look k c)) = cap c"
    and look_abs: "inv c \<Longrightarrow> abs (snd (look k c)) = lru_touch k (abs c)"
    and look_val: "inv c \<Longrightarrow> fst (look k c) = map_of (abs c) k"
begin

lemma look_keeps_recent:
  assumes "inv c" "recent_after S k v (abs c)" "k' \<in> S" "k \<notin> S"
  shows "recent_after S k v (abs (snd (look k' c)))"
proof (cases "map_of (abs c) k'")
  case None
  with assms show ?thesis by (simp add: look_abs lru_touch_def)
next
  case (Some u)
  moreover have "recent_after S k v ((k', u) # filter (\<lambda>p. fst p \<noteq> k') (abs c))"
    using assms by (intro recent_after_Cons recent_after_filter) auto
  ultimately show ?thesis using assms by (simp add: look_abs lru_touch_def)
qed

lemma run_inv: "inv c \<Longrightarrow> inv (cache_run ins look rem ops c)"
proof (induction ops arbitrary: c)
  case (Cons op ops)
  then show ?case by (cases op) (auto intro: ins_inv look_inv rem_inv)
qed simp

lemma run_keeps_recent:
  "\<lbrakk>inv c; recent_after S k v (abs c); k \<notin> S; finite S; card S < cap c; op_key ` set ops \<subseteq> S\<rbrakk>
   \<Longrightarrow> recent_after S k v (abs (cache_run ins look rem ops c))"
proof (induction ops arbitrary: c)
  case (Cons op ops)
  have k: "op_key op \<in> S" "op_key op \<noteq> k" and ops: "op_key ` set ops \<subseteq> S"
    using Cons.prems(3,6) by auto
  show ?case
  proof (cases op)
    case (CInsert k' v')
    with Cons.prems k have "recent_after S k v (abs (ins k' v' c))"
      by (intro ins_keeps_recent) auto
    with CInsert Cons.prems ops show ?thesis
      by (simp add: Cons.IH ins_inv ins_cap)
  next
    case (CLookup k')
    with Cons.prems k have "recent_after S k v (abs (snd (look k' c)))"
      by (intro look_keeps_recent) auto
    with CLookup Cons.prems ops show ?thesis
      by (simp add: Cons.IH look_inv look_cap)
  next
    case (CRemove k')
    with Cons.prems k have "recent_after S k v (abs (rem k' c))"
      by (intro rem_keeps_recent) auto
    with CRemove Cons.prems ops show ?thesis
      by (simp add: Cons.IH rem_inv rem_cap)
  qed
qed simp

text \<open>An inserted entry is found again as long as fewer other keys than the capacity were used.\<close>

lemma inserted_is_found:
  assumes c: "inv c" and S: "finite (op_key ` set ops)" "card (op_key ` set ops) < cap c"
    and k: "k \<notin> op_key ` set ops"
  shows "fst (look k (cache_run ins look rem ops (ins k v c))) = Some v"
proof -
  have "0 < cap c" using S(2) by simp
  then obtain n where "cap c = Suc n" by (cases "cap c") auto
  then have "recent_after (op_key ` set ops) k v (abs (ins k v c))"
    using c by (intro recent_afterI[of _ "[]"]) (auto simp: ins_abs lru_insert_def)
  then have "recent_after (op_key ` set ops) k v (abs (cache_run ins look rem ops (ins k v c)))"
    using c S k by (intro run_keeps_recent) (auto simp: ins_inv ins_cap)
  then show ?thesis
    using c k by (simp add: look_val run_inv ins_inv recent_after_map_of)
qed

end

end
