(* ===== verification/LRU_Cache.thy ===== *)
theory LRU_Cache
  imports Node_List
begin

text \<open>
  The class template \<open>LRUCache\<close> of \<open>gpl_util/base/lru_cache.h\<close>: a list of entries, most recent
  first, and a hash map from keys to list iterators. It is shown to implement the abstract cache
  of \<open>Node_List\<close>: the interpretation \<open>lru\<close> discharges the laws of \<open>lru_cache\<close> for it.
\<close>

record ('k, 'v) LRUCache =
  entry_list :: "('k \<times> 'v) nlist"
  entry_map :: "('k, nat) umap"
  max_entries :: int
  next_node :: nat
    \<comment> \<open>the identifier the next list node gets\<close>

text \<open>The constructor aborts unless \<open>max_entries\<close> is positive.\<close>

definition LRUCache_new :: "int \<Rightarrow> ('k, 'v) LRUCache option" where
  "LRUCache_new n =
     (if n > 0 then Some \<lparr>entry_list = [], entry_map = [], max_entries = n, next_node = 0\<rparr>
      else None)"

text \<open>The eviction at the end of \<open>Insert\<close>. The bound is compared as an unsigned 64-bit number.\<close>

definition LRUCache_evict :: "('k, 'v) LRUCache \<Rightarrow> ('k, 'v) LRUCache" where
  "LRUCache_evict c =
     (if int (length (entry_map c)) > max_entries c mod 2 ^ 64
      then c\<lparr>entry_map := AList.delete (fst (snd (last (entry_list c)))) (entry_map c),
             entry_list := butlast (entry_list c)\<rparr>
      else c)"

definition LRUCache_Insert :: "'k \<Rightarrow> 'v \<Rightarrow> ('k, 'v) LRUCache \<Rightarrow> ('k, 'v) LRUCache" where
  "LRUCache_Insert key val c =
     (let it = next_node c;
          l = (it, (key, val)) # entry_list c;
          c1 = (case map_of (entry_map c) key of
                  Some old \<Rightarrow> c\<lparr>entry_list := nl_erase old l,
                                entry_map := AList.update key it (entry_map c)\<rparr>
                | None \<Rightarrow> c\<lparr>entry_list := l, entry_map := emplace key it (entry_map c)\<rparr>)
      in LRUCache_evict (c1\<lparr>next_node := Suc it\<rparr>))"

text \<open>\<open>Lookup\<close> returns the value when the caller passes a place for it; the entry moves to the
  front either way.\<close>

definition LRUCache_Lookup ::
  "'k \<Rightarrow> ('k, 'v) LRUCache \<Rightarrow> 'v option \<times> ('k, 'v) LRUCache" where
  "LRUCache_Lookup key c =
     (case map_of (entry_map c) key of
        None \<Rightarrow> (None, c)
      | Some it \<Rightarrow> (Some (snd (nl_get it (entry_list c))),
                   c\<lparr>entry_list := nl_splice_front it (entry_list c)\<rparr>))"

definition LRUCache_Remove :: "'k \<Rightarrow> ('k, 'v) LRUCache \<Rightarrow> ('k, 'v) LRUCache" where
  "LRUCache_Remove key c =
     (case map_of (entry_map c) key of
        None \<Rightarrow> c
      | Some it \<Rightarrow> c\<lparr>entry_list := nl_erase it (entry_list c),
                     entry_map := AList.delete key (entry_map c)\<rparr>)"

definition LRUCache_Clear :: "('k, 'v) LRUCache \<Rightarrow> ('k, 'v) LRUCache" where
  "LRUCache_Clear c = c\<lparr>entry_map := [], entry_list := []\<rparr>"

subsection \<open>Invariant and abstraction\<close>

definition lru_inv :: "('k, 'v) LRUCache \<Rightarrow> bool" where
  "lru_inv c \<longleftrightarrow>
     index_ok fst (entry_map c) (entry_list c) (next_node c) \<and>
     0 < max_entries c \<and> max_entries c < 2 ^ 63 \<and>
     int (length (entry_list c)) \<le> max_entries c"

definition lru_abs :: "('k, 'v) LRUCache \<Rightarrow> ('k \<times> 'v) list" where
  "lru_abs c = map snd (entry_list c)"

definition lru_cap :: "('k, 'v) LRUCache \<Rightarrow> nat" where
  "lru_cap c = nat (max_entries c)"

definition lru_find :: "'k \<Rightarrow> ('k, 'v) LRUCache \<Rightarrow> 'v option" where
  "lru_find k c = fst (LRUCache_Lookup k c)"

lemma lru_new_inv:
  "0 < n \<Longrightarrow> n < 2 ^ 63 \<Longrightarrow> \<exists>c. LRUCache_new n = Some c \<and> lru_inv c \<and> lru_abs c = [] \<and> lru_cap c = nat n"
  by (simp add: LRUCache_new_def lru_inv_def lru_abs_def lru_cap_def index_ok_empty)

lemma lru_inv_index: "lru_inv c \<Longrightarrow> index_ok fst (entry_map c) (entry_list c) (next_node c)"
  by (simp add: lru_inv_def)

lemma lru_abs_distinct: "lru_inv c \<Longrightarrow> distinct (map fst (lru_abs c))"
  using index_okD(2)[OF lru_inv_index] by (simp add: lru_abs_def comp_def)

lemma lru_map_of:
  assumes "lru_inv c" "map_of (entry_map c) k = Some it"
  shows "nl_get it (entry_list c) = (k, snd (nl_get it (entry_list c)))"
    "map_of (lru_abs c) k = Some (snd (nl_get it (entry_list c)))"
proof -
  from assms obtain a where a: "(it, a) \<in> set (entry_list c)" "fst a = k"
    unfolding index_ok_find[OF lru_inv_index[OF assms(1)]] by blast
  then have g: "nl_get it (entry_list c) = a" by (intro index_ok_get[OF lru_inv_index[OF assms(1)]])
  from a(2) show "nl_get it (entry_list c) = (k, snd (nl_get it (entry_list c)))"
    unfolding g by (cases a) simp
  from a have "(k, snd a) \<in> set (lru_abs c)" by (force simp: lru_abs_def)
  then show "map_of (lru_abs c) k = Some (snd (nl_get it (entry_list c)))"
    using lru_abs_distinct[OF assms(1)] g by simp
qed

lemma lru_map_of_None:
  "lru_inv c \<Longrightarrow> map_of (entry_map c) k = None \<Longrightarrow> map_of (lru_abs c) k = None"
  using index_ok_find_None[OF lru_inv_index]
  by (force simp: lru_abs_def map_of_eq_None_iff)

text \<open>The state of \<open>Insert\<close> just before the eviction.\<close>

definition insert_pre :: "'k \<Rightarrow> 'v \<Rightarrow> ('k, 'v) LRUCache \<Rightarrow> ('k, 'v) LRUCache \<Rightarrow> bool" where
  "insert_pre k v c c1 \<longleftrightarrow>
     index_ok fst (entry_map c1) (entry_list c1) (next_node c1) \<and> max_entries c1 = max_entries c \<and>
     lru_abs c1 = (k, v) # filter (\<lambda>p. fst p \<noteq> k) (lru_abs c)"

lemma Insert_split:
  assumes "lru_inv c"
  obtains c1 where "LRUCache_Insert k v c = LRUCache_evict c1" "insert_pre k v c c1"
proof (cases "map_of (entry_map c) k")
  case None
  note ok = lru_inv_index[OF assms]
  let ?c1 = "c\<lparr>entry_list := (next_node c, k, v) # entry_list c,
                entry_map := emplace k (next_node c) (entry_map c), next_node := Suc (next_node c)\<rparr>"
  have "index_ok fst (emplace k (next_node c) (entry_map c)) ((next_node c, k, v) # entry_list c)
      (Suc (next_node c))"
    using None index_okD(3)[OF ok] by (intro index_ok_push[OF ok]) (auto simp: emplace_fresh map_of_eq_None_iff rev_image_eqI)
  moreover have "filter (\<lambda>p. fst p \<noteq> k) (lru_abs c) = lru_abs c"
    using lru_map_of_None[OF assms None] unfolding filter_id_conv map_of_eq_None_iff by blast
  ultimately have "insert_pre k v c ?c1"
    by (simp add: insert_pre_def lru_abs_def)
  with None show ?thesis by (intro that[of ?c1]) (simp_all add: LRUCache_Insert_def Let_def)
next
  case (Some old)
  note ok = lru_inv_index[OF assms]
  let ?m = "AList.update k (next_node c) (entry_map c)"
  let ?l = "nl_erase old ((next_node c, k, v) # entry_list c)"
  let ?c1 = "c\<lparr>entry_list := ?l, entry_map := ?m, next_node := Suc (next_node c)\<rparr>"
  have ne: "old \<noteq> next_node c"
    using Some index_okD(5)[OF ok] unfolding index_ok_find[OF ok] by force
  then have l: "?l = (next_node c, k, v) # nl_erase old (entry_list c)" by (simp add: nl_erase_def)
  have m: "set ?m = insert (k, next_node c) (set (AList.delete k (entry_map c)))" "keys_distinct ?m"
    using index_okD(3)[OF ok] by (simp_all add: set_update distinct_update)
  have "index_ok fst ?m ?l (Suc (next_node c))"
    unfolding l using m by (intro index_ok_push[OF index_ok_erase[OF ok Some]]) auto
  moreover have "lru_abs ?c1 = (k, v) # filter (\<lambda>p. fst p \<noteq> k) (lru_abs c)"
    by (simp add: lru_abs_def l nl_erase_key[OF ok Some] filter_map comp_def)
  ultimately have "insert_pre k v c ?c1" by (simp add: insert_pre_def)
  with Some show ?thesis by (intro that[of ?c1]) (simp_all add: LRUCache_Insert_def Let_def)
qed

text \<open>The eviction drops the least recently used entry, from the list and from the map.\<close>

lemma nl_erase_last:
  assumes "distinct (map fst l)" "last l = (i, p)" "l \<noteq> []"
  shows "nl_erase i l = butlast l"
proof -
  obtain l' where "l = l' @ [(i, p)]" using assms(2,3) by (metis append_butlast_last_id)
  with assms(1) show ?thesis by (force simp: nl_erase_def filter_id_conv)
qed

lemma evict_facts:
  assumes pre: "insert_pre k v c c1" and inv: "lru_inv c"
  shows "lru_inv (LRUCache_evict c1)"
    "lru_abs (LRUCache_evict c1) = take (lru_cap c) (lru_abs c1)"
proof -
  from pre have ok: "index_ok fst (entry_map c1) (entry_list c1) (next_node c1)"
    and mx: "max_entries c1 = max_entries c"
    and ab: "lru_abs c1 = (k, v) # filter (\<lambda>p. fst p \<noteq> k) (lru_abs c)"
    by (auto simp: insert_pre_def)
  have bnd: "0 < max_entries c" "max_entries c < 2 ^ 63" "int (length (lru_abs c)) \<le> max_entries c"
    using inv by (auto simp: lru_inv_def lru_abs_def)
  have len: "length (lru_abs c1) = length (entry_list c1)" "length (entry_map c1) = length (entry_list c1)"
    using index_ok_length[OF ok] by (simp_all add: lru_abs_def)
  have "length (entry_list c1) \<le> Suc (length (lru_abs c))"
    unfolding len(1)[symmetric] ab by simp
  then have "int (length (entry_list c1)) \<le> max_entries c + 1" using bnd(3) by linarith
  moreover have md: "max_entries c mod 2 ^ 64 = max_entries c" using bnd by simp
  ultimately consider (fits) "int (length (entry_list c1)) \<le> max_entries c"
    | (over) "int (length (entry_list c1)) = max_entries c + 1" by linarith
  then have "lru_inv (LRUCache_evict c1) \<and>
    lru_abs (LRUCache_evict c1) = take (lru_cap c) (lru_abs c1)"
  proof cases
    case fits
    then have "LRUCache_evict c1 = c1" using md mx len(2) by (simp add: LRUCache_evict_def)
    with fits ok bnd mx len show ?thesis by (simp add: lru_inv_def lru_cap_def)
  next
    case over
    let ?l = "entry_list c1"
    from over bnd have ne: "?l \<noteq> []" by auto
    obtain i p where il: "last ?l = (i, p)" by (rule prod.exhaust)
    then have mem: "(i, p) \<in> set ?l" using ne last_in_set by fastforce
    then have fd: "map_of (entry_map c1) (fst p) = Some i" unfolding index_ok_find[OF ok] by blast
    have er: "nl_erase i ?l = butlast ?l" by (rule nl_erase_last[OF index_okD(1)[OF ok] il ne])
    have ev: "LRUCache_evict c1 = c1\<lparr>entry_map := AList.delete (fst p) (entry_map c1), entry_list := butlast ?l\<rparr>"
      using over md mx len(2) il by (simp add: LRUCache_evict_def)
    have "index_ok fst (AList.delete (fst p) (entry_map c1)) (butlast ?l) (next_node c1)"
      using index_ok_erase[OF ok fd] er by simp
    moreover have "int (length (butlast ?l)) = max_entries c" using over bnd ne by simp
    moreover have "map snd (butlast ?l) = take (lru_cap c) (lru_abs c1)"
    proof -
      have "length ?l - 1 = lru_cap c" using over bnd(1) unfolding lru_cap_def by linarith
      then show ?thesis by (simp add: lru_abs_def butlast_conv_take take_map)
    qed
    ultimately show ?thesis using bnd mx by (simp add: ev lru_inv_def lru_abs_def)
  qed
  then show "lru_inv (LRUCache_evict c1)"
    "lru_abs (LRUCache_evict c1) = take (lru_cap c) (lru_abs c1)" by simp_all
qed

subsection \<open>The cache implements its interface\<close>

lemma Insert_facts:
  assumes "lru_inv c"
  shows "lru_inv (LRUCache_Insert k v c)"
    "lru_abs (LRUCache_Insert k v c) = lru_insert (lru_cap c) k v (lru_abs c)"
proof -
  obtain c1 where c1: "LRUCache_Insert k v c = LRUCache_evict c1" "insert_pre k v c c1"
    using Insert_split[OF assms] by blast
  then show "lru_inv (LRUCache_Insert k v c)"
    "lru_abs (LRUCache_Insert k v c) = lru_insert (lru_cap c) k v (lru_abs c)"
    using evict_facts[OF c1(2) assms] by (simp_all add: insert_pre_def lru_insert_def)
qed

lemma cap_frame:
  "lru_cap (LRUCache_Insert k v c) = lru_cap c"
  "lru_cap (LRUCache_Remove k c) = lru_cap c"
  "lru_cap (snd (LRUCache_Lookup k c)) = lru_cap c"
  by (simp_all add: LRUCache_Insert_def LRUCache_evict_def LRUCache_Remove_def LRUCache_Lookup_def
      lru_cap_def Let_def split: option.split)

lemma Remove_facts:
  assumes "lru_inv c"
  shows "lru_inv (LRUCache_Remove k c)" "lru_abs (LRUCache_Remove k c) = lru_remove k (lru_abs c)"
proof -
  note ok = lru_inv_index[OF assms]
  have "lru_inv (LRUCache_Remove k c) \<and> lru_abs (LRUCache_Remove k c) = lru_remove k (lru_abs c)"
  proof (cases "map_of (entry_map c) k")
    case None
    moreover have "lru_remove k (lru_abs c) = lru_abs c"
      using lru_map_of_None[OF assms None]
      unfolding lru_remove_def filter_id_conv map_of_eq_None_iff by blast
    ultimately show ?thesis using assms by (simp add: LRUCache_Remove_def)
  next
    case (Some it)
    have "int (length (filter (\<lambda>n. fst (snd n) \<noteq> k) (entry_list c))) \<le> max_entries c"
      using assms length_filter_le[of "\<lambda>n. fst (snd n) \<noteq> k" "entry_list c"]
      by (simp only: lru_inv_def) linarith
    with Some assms index_ok_erase[OF ok Some] show ?thesis
      by (simp add: LRUCache_Remove_def lru_inv_def lru_abs_def lru_remove_def
          nl_erase_key[OF ok Some] filter_map comp_def)
  qed
  then show "lru_inv (LRUCache_Remove k c)" "lru_abs (LRUCache_Remove k c) = lru_remove k (lru_abs c)"
    by simp_all
qed

lemma Lookup_facts:
  assumes "lru_inv c"
  shows "lru_inv (snd (LRUCache_Lookup k c))"
    "lru_abs (snd (LRUCache_Lookup k c)) = lru_touch k (lru_abs c)"
    "fst (LRUCache_Lookup k c) = map_of (lru_abs c) k"
proof -
  note ok = lru_inv_index[OF assms]
  have "lru_inv (snd (LRUCache_Lookup k c)) \<and>
    lru_abs (snd (LRUCache_Lookup k c)) = lru_touch k (lru_abs c) \<and>
    fst (LRUCache_Lookup k c) = map_of (lru_abs c) k"
  proof (cases "map_of (entry_map c) k")
    case None
    then show ?thesis
      using assms lru_map_of_None[OF assms None] by (simp add: LRUCache_Lookup_def lru_touch_def)
  next
    case (Some it)
    let ?l = "nl_splice_front it (entry_list c)"
    have "length ?l = length (entry_list c)"
      using index_ok_length[OF index_ok_splice(1)[OF ok Some]] index_ok_length[OF ok] by simp
    then have "lru_inv (snd (LRUCache_Lookup k c))"
      using Some assms index_ok_splice(1)[OF ok Some] by (simp add: LRUCache_Lookup_def lru_inv_def)
    moreover have "lru_abs (snd (LRUCache_Lookup k c)) = lru_touch k (lru_abs c)"
      using Some index_ok_splice(2)[OF ok Some] lru_map_of(1)[OF assms Some]
        lru_map_of(2)[OF assms Some, unfolded lru_abs_def]
      by (simp add: LRUCache_Lookup_def lru_touch_def lru_abs_def)
    ultimately show ?thesis
      using Some lru_map_of(2)[OF assms Some] by (simp add: LRUCache_Lookup_def)
  qed
  then show "lru_inv (snd (LRUCache_Lookup k c))"
    "lru_abs (snd (LRUCache_Lookup k c)) = lru_touch k (lru_abs c)"
    "fst (LRUCache_Lookup k c) = map_of (lru_abs c) k" by simp_all
qed

interpretation lru: lru_cache lru_inv lru_abs lru_cap LRUCache_Insert LRUCache_Remove lru_find
  LRUCache_Lookup
proof unfold_locales
  show "lru_inv c \<Longrightarrow> length (lru_abs c) \<le> lru_cap c" for c :: "('k, 'v) LRUCache"
    by (simp add: lru_inv_def lru_abs_def lru_cap_def le_nat_iff)
qed (simp_all add: lru_abs_distinct Insert_facts Remove_facts Lookup_facts cap_frame lru_find_def)

text \<open>C9. The list with a map of iterators implements the plain recency list: each operation keeps
  the agreement of map and list and acts on the recency list as its specification does. An insertion
  puts the key in front and drops what exceeds the capacity, a successful lookup moves the entry to
  the front, and a removal drops the key. \<open>Clear\<close> leaves the empty cache.\<close>

theorem LRUCache_refines:
  assumes "lru_inv c"
  shows "lru_inv (LRUCache_Insert k v c) \<and>
    lru_abs (LRUCache_Insert k v c) = lru_insert (lru_cap c) k v (lru_abs c) \<and>
    lru_inv (snd (LRUCache_Lookup k c)) \<and>
    lru_abs (snd (LRUCache_Lookup k c)) = lru_touch k (lru_abs c) \<and>
    fst (LRUCache_Lookup k c) = map_of (lru_abs c) k \<and>
    lru_inv (LRUCache_Remove k c) \<and> lru_abs (LRUCache_Remove k c) = lru_remove k (lru_abs c) \<and>
    lru_inv (LRUCache_Clear c) \<and> lru_abs (LRUCache_Clear c) = []"
proof -
  have "lru_inv (LRUCache_Clear c) \<and> lru_abs (LRUCache_Clear c) = []"
    using assms by (simp add: LRUCache_Clear_def lru_inv_def lru_abs_def index_ok_empty)
  with assms show ?thesis
    by (simp only: Insert_facts Lookup_facts Remove_facts simp_thms)
qed

definition sample_cache :: "(string, int) LRUCache" where
  "sample_cache = LRUCache_Insert ''c'' 3 (LRUCache_Insert ''b'' 2 (LRUCache_Insert ''a'' 1
     (the (LRUCache_new 2))))"

lemma sample_cache_facts: "lru_inv sample_cache" "lru_cap sample_cache = 2"
proof -
  obtain c :: "(string, int) LRUCache" where "LRUCache_new 2 = Some c" "lru_inv c" "lru_cap c = nat 2"
    using lru_new_inv[of 2] by auto
  then show "lru_inv sample_cache" "lru_cap sample_cache = 2"
    by (simp_all add: sample_cache_def lru.ins_inv lru.ins_cap)
qed

theorem LRUCache_refines_witness:
  "lru_inv sample_cache \<and> lru_abs sample_cache = [(''c'', 3), (''b'', 2)] \<and>
   lru_abs (snd (LRUCache_Lookup ''b'' sample_cache)) = [(''b'', 2), (''c'', 3)]"
proof -
  have "lru_abs (snd (LRUCache_Lookup ''b'' sample_cache)) = lru_touch ''b'' (lru_abs sample_cache)"
    using LRUCache_refines[OF sample_cache_facts(1)] by blast
  moreover have "lru_abs sample_cache = [(''c'', 3), (''b'', 2)]" by code_simp
  ultimately show ?thesis using sample_cache_facts(1) by (simp add: lru_touch_def)
qed

text \<open>C33. Recency: an inserted entry is still found, with its value, after any sequence of
  insertions, lookups and removals of other keys that touches fewer distinct keys than the cache
  holds.\<close>

theorem LRUCache_keeps_recent:
  assumes "lru_inv c" "card (op_key ` set ops) < lru_cap c" "k \<notin> op_key ` set ops"
  shows "fst (LRUCache_Lookup k
     (cache_run LRUCache_Insert LRUCache_Lookup LRUCache_Remove ops (LRUCache_Insert k v c))) = Some v"
  using assms by (intro lru.inserted_is_found) auto

theorem LRUCache_keeps_recent_witness:
  "fst (LRUCache_Lookup ''k'' (cache_run LRUCache_Insert LRUCache_Lookup LRUCache_Remove
     [CInsert ''x'' 1, CLookup ''x'', CInsert ''x'' 5] (LRUCache_Insert ''k'' 7 sample_cache))) = Some 7"
  by (rule LRUCache_keeps_recent) (simp_all add: sample_cache_facts)

end
