(* ===== verification/Id_Locker.thy ===== *)
theory Id_Locker
  imports Prelude
begin

text \<open>
  The class template \<open>IDLocker\<close> of \<open>gpl_util/base/id_locker.h\<close> and \<open>id_locker.cc\<close>: shared and
  exclusive locks on identifiers, each backed by a \<^verbatim>\<open>boost::shared_mutex\<close> that exists only
  while the identifier is in use. The global mutex makes the bookkeeping of every call atomic; the
  wait for the per-identifier mutex happens outside it, through a reference into the map. The model
  is a step relation over any number of concurrent acquisitions. When the boost mutex grants a
  waiting request is a parameter.
\<close>

text \<open>The owners of a \<^verbatim>\<open>boost::shared_mutex\<close>.\<close>

record shared_mutex =
  sm_readers :: nat
  sm_writer :: bool

record IDState =
  reader_count :: int
  writer_count :: int
  id_mutex :: shared_mutex

definition new_IDState :: IDState where
  "new_IDState = \<lparr>reader_count = 0, writer_count = 0, id_mutex = \<lparr>sm_readers = 0, sm_writer = False\<rparr>\<rparr>"

definition IDState_ToString :: "IDState \<Rightarrow> string" where
  "IDState_ToString s =
     ''reader_count: '' @ to_string (reader_count s) @ '', writer_count: '' @ to_string (writer_count s)"

text \<open>The map entries are objects with an address, since callers keep references to them; an erased
  entry is no longer in the range of \<open>id_map\<close>.\<close>

record 'id IDLocker =
  id_map :: "('id, addr) umap"
  id_states :: "addr \<Rightarrow> IDState"
  next_state :: addr

definition IDLocker_new :: "'id IDLocker" where
  "IDLocker_new = \<lparr>id_map = [], id_states = (\<lambda>_. new_IDState), next_state = 0\<rparr>"

text \<open>\<^verbatim>\<open>id_map_[id]\<close>: a reference to the entry, created when missing.\<close>

definition id_ref :: "'id \<Rightarrow> 'id IDLocker \<Rightarrow> addr \<times> 'id IDLocker" where
  "id_ref i L =
     (case map_of (id_map L) i of
        Some a \<Rightarrow> (a, L)
      | None \<Rightarrow> (next_state L,
          L\<lparr>id_map := emplace i (next_state L) (id_map L),
            id_states := (id_states L)(next_state L := new_IDState),
            next_state := Suc (next_state L)\<rparr>))"

definition upd_state :: "addr \<Rightarrow> (IDState \<Rightarrow> IDState) \<Rightarrow> 'id IDLocker \<Rightarrow> 'id IDLocker" where
  "upd_state a f L = L\<lparr>id_states := (id_states L)(a := f (id_states L a))\<rparr>"

definition MaybeCleanupIDStateLocked :: "'id \<Rightarrow> addr \<Rightarrow> 'id IDLocker \<Rightarrow> 'id IDLocker" where
  "MaybeCleanupIDStateLocked i a L =
     (if reader_count (id_states L a) = 0 \<and> writer_count (id_states L a) = 0
      then L\<lparr>id_map := AList.delete i (id_map L)\<rparr> else L)"

text \<open>The acquisitions up to the release of the global lock; the result is the reference whose mutex
  the caller then waits for.\<close>

definition AcquireSharedLock :: "'id \<Rightarrow> 'id IDLocker \<Rightarrow> addr \<times> 'id IDLocker" where
  "AcquireSharedLock i L =
     (let (a, L) = id_ref i L
      in (a, upd_state a (\<lambda>s. s\<lparr>reader_count := reader_count s + 1\<rparr>) L))"

definition AcquireExclusiveLock :: "'id \<Rightarrow> 'id IDLocker \<Rightarrow> addr \<times> 'id IDLocker" where
  "AcquireExclusiveLock i L =
     (let (a, L) = id_ref i L
      in (a, upd_state a (\<lambda>s. s\<lparr>writer_count := writer_count s + 1\<rparr>) L))"

text \<open>Their second half: the mutex of the entry is locked.\<close>

definition lock_shared :: "addr \<Rightarrow> 'id IDLocker \<Rightarrow> 'id IDLocker" where
  "lock_shared a = upd_state a
     (\<lambda>s. s\<lparr>id_mutex := (id_mutex s)\<lparr>sm_readers := Suc (sm_readers (id_mutex s))\<rparr>\<rparr>)"

definition lock_exclusive :: "addr \<Rightarrow> 'id IDLocker \<Rightarrow> 'id IDLocker" where
  "lock_exclusive a = upd_state a (\<lambda>s. s\<lparr>id_mutex := (id_mutex s)\<lparr>sm_writer := True\<rparr>\<rparr>)"

definition ReleaseSharedLock :: "'id \<Rightarrow> 'id IDLocker \<Rightarrow> 'id IDLocker" where
  "ReleaseSharedLock i L =
     (let (a, L) = id_ref i L;
          L = upd_state a (\<lambda>s. s\<lparr>reader_count := reader_count s - 1\<rparr>) L;
          L = upd_state a
            (\<lambda>s. s\<lparr>id_mutex := (id_mutex s)\<lparr>sm_readers := sm_readers (id_mutex s) - 1\<rparr>\<rparr>) L
      in MaybeCleanupIDStateLocked i a L)"

definition ReleaseExclusiveLock :: "'id \<Rightarrow> 'id IDLocker \<Rightarrow> 'id IDLocker" where
  "ReleaseExclusiveLock i L =
     (let (a, L) = id_ref i L;
          L = upd_state a (\<lambda>s. s\<lparr>writer_count := writer_count s - 1\<rparr>) L;
          L = upd_state a (\<lambda>s. s\<lparr>id_mutex := (id_mutex s)\<lparr>sm_writer := False\<rparr>\<rparr>) L
      in MaybeCleanupIDStateLocked i a L)"

text \<open>The destructor's log lines, one per identifier still in use (\<open>show\<close> prints an identifier).\<close>

definition IDLocker_dtor :: "('id \<Rightarrow> string) \<Rightarrow> 'id IDLocker \<Rightarrow> string list" where
  "IDLocker_dtor prt L =
     (if id_map L = [] then []
      else ''IDLocker object is being destroyed when the following locks or waiters are outstanding'' #
           map (\<lambda>(i, a). prt i @ '': '' @ IDState_ToString (id_states L a)) (id_map L))"

subsection \<open>Concurrent acquisitions\<close>

text \<open>Where an acquisition is: not started or released, waiting for the mutex at an address, or
  holding it.\<close>

datatype 'id acq = Idle | WaitS 'id addr | HoldS 'id addr | WaitX 'id addr | HoldX 'id addr

type_synonym ('t, 'id) lock_state = "'id IDLocker \<times> ('t \<Rightarrow> 'id acq)"

definition lock_init :: "('t, 'id) lock_state \<Rightarrow> bool" where
  "lock_init S \<longleftrightarrow> S = (IDLocker_new, \<lambda>_. Idle)"

text \<open>\<open>gs\<close> and \<open>gx\<close> say when the boost mutex lets a shared and an exclusive request through.\<close>

inductive lock_step ::
  "(shared_mutex \<Rightarrow> bool) \<Rightarrow> (shared_mutex \<Rightarrow> bool) \<Rightarrow>
   ('t, 'id) lock_state \<Rightarrow> ('t, 'id) lock_state \<Rightarrow> bool"
  for gs gx where
  acq_shared: "ps t = Idle \<Longrightarrow> AcquireSharedLock i L = (a, L') \<Longrightarrow>
     lock_step gs gx (L, ps) (L', ps(t := WaitS i a))"
| got_shared: "ps t = WaitS i a \<Longrightarrow> gs (id_mutex (id_states L a)) \<Longrightarrow>
     lock_step gs gx (L, ps) (lock_shared a L, ps(t := HoldS i a))"
| rel_shared: "ps t = HoldS i a \<Longrightarrow>
     lock_step gs gx (L, ps) (ReleaseSharedLock i L, ps(t := Idle))"
| acq_excl: "ps t = Idle \<Longrightarrow> AcquireExclusiveLock i L = (a, L') \<Longrightarrow>
     lock_step gs gx (L, ps) (L', ps(t := WaitX i a))"
| got_excl: "ps t = WaitX i a \<Longrightarrow> gx (id_mutex (id_states L a)) \<Longrightarrow>
     lock_step gs gx (L, ps) (lock_exclusive a L, ps(t := HoldX i a))"
| rel_excl: "ps t = HoldX i a \<Longrightarrow>
     lock_step gs gx (L, ps) (ReleaseExclusiveLock i L, ps(t := Idle))"

text \<open>The documented contract of \<^verbatim>\<open>boost::shared_mutex\<close>: a shared request is granted only while
  no writer owns it, an exclusive one only while nobody does.\<close>

definition shared_mutex_contract ::
  "(shared_mutex \<Rightarrow> bool) \<Rightarrow> (shared_mutex \<Rightarrow> bool) \<Rightarrow> bool" where
  "shared_mutex_contract gs gx \<longleftrightarrow>
     (\<forall>m. (gs m \<longrightarrow> \<not> sm_writer m) \<and> (gx m \<longrightarrow> \<not> sm_writer m \<and> sm_readers m = 0))"

subsection \<open>Invariant\<close>

primrec acq_id :: "'id acq \<Rightarrow> 'id option" where
  "acq_id Idle = None"
| "acq_id (WaitS i a) = Some i"
| "acq_id (HoldS i a) = Some i"
| "acq_id (WaitX i a) = Some i"
| "acq_id (HoldX i a) = Some i"

primrec acq_addr :: "'id acq \<Rightarrow> addr" where
  "acq_addr Idle = 0"
| "acq_addr (WaitS i a) = a"
| "acq_addr (HoldS i a) = a"
| "acq_addr (WaitX i a) = a"
| "acq_addr (HoldX i a) = a"

definition is_shared :: "'id \<Rightarrow> 'id acq \<Rightarrow> bool" where
  "is_shared i p \<longleftrightarrow> (\<exists>a. p = WaitS i a \<or> p = HoldS i a)"

definition is_excl :: "'id \<Rightarrow> 'id acq \<Rightarrow> bool" where
  "is_excl i p \<longleftrightarrow> (\<exists>a. p = WaitX i a \<or> p = HoldX i a)"

definition holds_shared :: "'id \<Rightarrow> 'id acq \<Rightarrow> bool" where
  "holds_shared i p \<longleftrightarrow> (\<exists>a. p = HoldS i a)"

definition holds_excl :: "'id \<Rightarrow> 'id acq \<Rightarrow> bool" where
  "holds_excl i p \<longleftrightarrow> (\<exists>a. p = HoldX i a)"

lemmas acq_defs = is_shared_def is_excl_def holds_shared_def holds_excl_def

text \<open>How many acquisitions satisfy a predicate.\<close>

definition cnt :: "('id acq \<Rightarrow> bool) \<Rightarrow> ('t \<Rightarrow> 'id acq) \<Rightarrow> nat" where
  "cnt P ps = card {t. P (ps t)}"

definition active :: "('t \<Rightarrow> 'id acq) \<Rightarrow> 't set" where
  "active ps = {t. ps t \<noteq> Idle}"

text \<open>The counters of an entry count its waiting and holding acquisitions, the mutex owners are the
  holders, and everybody refers to the same entry.\<close>

definition entry_ok :: "IDState \<Rightarrow> addr \<Rightarrow> 'id \<Rightarrow> ('t \<Rightarrow> 'id acq) \<Rightarrow> bool" where
  "entry_ok s a i ps \<longleftrightarrow>
     reader_count s = int (cnt (is_shared i) ps) \<and> writer_count s = int (cnt (is_excl i) ps) \<and>
     sm_readers (id_mutex s) = cnt (holds_shared i) ps \<and>
     of_bool (sm_writer (id_mutex s)) = cnt (holds_excl i) ps \<and>
     (sm_writer (id_mutex s) \<longrightarrow> sm_readers (id_mutex s) = 0) \<and>
     (\<forall>t. acq_id (ps t) = Some i \<longrightarrow> acq_addr (ps t) = a)"

definition id_ok :: "'id IDLocker \<Rightarrow> ('t \<Rightarrow> 'id acq) \<Rightarrow> 'id \<Rightarrow> bool" where
  "id_ok L ps i \<longleftrightarrow>
     (case map_of (id_map L) i of
        None \<Rightarrow> \<forall>t. acq_id (ps t) \<noteq> Some i
      | Some a \<Rightarrow> a < next_state L \<and> (\<exists>t. acq_id (ps t) = Some i) \<and> entry_ok (id_states L a) a i ps)"

definition lock_inv :: "('t, 'id) lock_state \<Rightarrow> bool" where
  "lock_inv S \<longleftrightarrow>
     (case S of (L, ps) \<Rightarrow>
        finite (active ps) \<and>
        (\<forall>i j a. map_of (id_map L) i = Some a \<longrightarrow> map_of (id_map L) j = Some a \<longrightarrow> i = j) \<and>
        (\<forall>i. id_ok L ps i))"

lemma cnt_upd:
  assumes "finite (active ps)" "\<not> P Idle"
  shows "cnt P (ps(t := p)) + of_bool (P (ps t)) = cnt P ps + of_bool (P p)"
proof -
  let ?S = "{u. P (ps u)} - {t}"
  have fin: "finite {u. P (ps u)}"
    by (rule finite_subset[OF _ assms(1)]) (use assms(2) in \<open>auto simp: active_def\<close>)
  have old: "card ?S + of_bool (P (ps t)) = card {u. P (ps u)}"
    using card_Suc_Diff1[OF fin, of t] by (cases "P (ps t)") auto
  have "{u. P ((ps(t := p)) u)} = (if P p then insert t ?S else ?S)" by auto
  then have "card {u. P ((ps(t := p)) u)} = card ?S + of_bool (P p)"
    using fin by (cases "P p") (simp_all add: card.insert_remove)
  with old show ?thesis by (simp add: cnt_def)
qed

lemma cnt_upd_int:
  assumes "finite (active ps)" "\<not> P Idle"
  shows "int (cnt P (ps(t := p))) + of_bool (P (ps t)) = int (cnt P ps) + of_bool (P p)"
  using arg_cong[OF cnt_upd[of ps P t p], of int] assms by simp

lemma cnt_zero: "finite (active ps) \<Longrightarrow> \<not> P Idle \<Longrightarrow> cnt P ps = 0 \<longleftrightarrow> (\<forall>t. \<not> P (ps t))"
proof -
  assume a: "finite (active ps)" "\<not> P Idle"
  have "finite {u. P (ps u)}"
    by (rule finite_subset[OF _ a(1)]) (use a(2) in \<open>auto simp: active_def\<close>)
  then show ?thesis by (auto simp: cnt_def)
qed

lemma not_Idle [simp]:
  "\<not> is_shared i Idle" "\<not> is_excl i Idle" "\<not> holds_shared i Idle" "\<not> holds_excl i Idle"
  by (simp_all add: acq_defs)

lemma acq_kinds:
  "is_shared i p \<Longrightarrow> acq_id p = Some i" "is_excl i p \<Longrightarrow> acq_id p = Some i"
  "acq_id p = Some i \<longleftrightarrow> is_shared i p \<or> is_excl i p"
  "holds_shared i p \<Longrightarrow> is_shared i p" "holds_excl i p \<Longrightarrow> is_excl i p"
  by (cases p; auto simp: acq_defs)+

subsection \<open>Every step keeps the invariant\<close>

lemma entry_ok_upd:
  assumes ok: "entry_ok s a i ps" and fin: "finite (active ps)"
    and "reader_count s' + of_bool (is_shared i (ps t)) = reader_count s + of_bool (is_shared i p)"
    and "writer_count s' + of_bool (is_excl i (ps t)) = writer_count s + of_bool (is_excl i p)"
    and "sm_readers (id_mutex s') + of_bool (holds_shared i (ps t)) =
         sm_readers (id_mutex s) + of_bool (holds_shared i p)"
    and "of_bool (sm_writer (id_mutex s')) + of_bool (holds_excl i (ps t)) =
         (of_bool (sm_writer (id_mutex s)) + of_bool (holds_excl i p) :: nat)"
    and "sm_writer (id_mutex s') \<Longrightarrow> sm_readers (id_mutex s') = 0"
    and "acq_id p = Some i \<Longrightarrow> acq_addr p = a"
  shows "entry_ok s' a i (ps(t := p))"
proof -
  note c = cnt_upd[OF fin, of _ t p] and ci = cnt_upd_int[OF fin, of _ t p]
  have "reader_count s' = int (cnt (is_shared i) (ps(t := p)))"
    using ci[of "is_shared i", OF not_Idle(1)] assms(3) ok unfolding entry_ok_def by linarith
  moreover have "writer_count s' = int (cnt (is_excl i) (ps(t := p)))"
    using ci[of "is_excl i", OF not_Idle(2)] assms(4) ok unfolding entry_ok_def by linarith
  moreover have "sm_readers (id_mutex s') = cnt (holds_shared i) (ps(t := p))"
    using c[of "holds_shared i", OF not_Idle(3)] assms(5) ok unfolding entry_ok_def by linarith
  moreover have "of_bool (sm_writer (id_mutex s')) = cnt (holds_excl i) (ps(t := p))"
    using c[of "holds_excl i", OF not_Idle(4)] assms(6) ok unfolding entry_ok_def by linarith
  ultimately show ?thesis using ok assms(7,8) by (simp add: entry_ok_def)
qed

lemma cnt_other:
  assumes "P (ps t) \<longleftrightarrow> P p"
  shows "cnt P (ps(t := p)) = cnt P ps"
proof -
  have "{u. P ((ps(t := p)) u)} = {u. P (ps u)}" using assms by auto
  then show ?thesis by (simp add: cnt_def)
qed

lemma id_ok_other:
  assumes ok: "id_ok L ps j" and t: "acq_id (ps t) \<noteq> Some j" and p: "acq_id p \<noteq> Some j"
    and m: "map_of (id_map L') j = map_of (id_map L) j" and n: "next_state L \<le> next_state L'"
    and s: "\<And>a. map_of (id_map L) j = Some a \<Longrightarrow> id_states L' a = id_states L a"
  shows "id_ok L' (ps(t := p)) j"
proof -
  have c: "cnt P (ps(t := p)) = cnt P ps" if "\<And>q. P q \<Longrightarrow> acq_id q = Some j" for P
    using that t p by (intro cnt_other) blast
  have cs: "cnt (is_shared j) (ps(t := p)) = cnt (is_shared j) ps"
    "cnt (is_excl j) (ps(t := p)) = cnt (is_excl j) ps"
    "cnt (holds_shared j) (ps(t := p)) = cnt (holds_shared j) ps"
    "cnt (holds_excl j) (ps(t := p)) = cnt (holds_excl j) ps"
    by (rule c, auto simp: acq_defs)+
  have e: "(\<exists>u. acq_id ((ps(t := p)) u) = Some j) \<longleftrightarrow> (\<exists>u. acq_id (ps u) = Some j)"
    using t p by (metis fun_upd_apply)
  show ?thesis
  proof (cases "map_of (id_map L) j")
    case None
    with ok e show ?thesis unfolding id_ok_def m by simp
  next
    case (Some a)
    have "entry_ok (id_states L a) a j (ps(t := p))"
      using ok Some p unfolding id_ok_def entry_ok_def cs by (simp only: option.case) auto
    with Some ok n e show ?thesis unfolding id_ok_def m s[OF Some, symmetric]
      using s[OF Some] by simp
  qed
qed

lemma id_ref_facts:
  assumes inv: "lock_inv (L, ps)" and r: "id_ref i L = (a, L1)"
  shows "map_of (id_map L1) i = Some a" "a < next_state L1" "entry_ok (id_states L1 a) a i ps"
    "next_state L \<le> next_state L1"
    "\<And>j. j \<noteq> i \<Longrightarrow> map_of (id_map L1) j = map_of (id_map L) j"
    "\<And>j b. j \<noteq> i \<Longrightarrow> map_of (id_map L) j = Some b \<Longrightarrow> b \<noteq> a \<and> id_states L1 b = id_states L b"
proof -
  from inv have fin: "finite (active ps)" and ids: "\<And>i. id_ok L ps i"
    and inj: "\<And>i j a. map_of (id_map L) i = Some a \<Longrightarrow> map_of (id_map L) j = Some a \<Longrightarrow> i = j"
    by (auto simp: lock_inv_def)
  have lt: "map_of (id_map L) j = Some b \<Longrightarrow> b < next_state L" for j b
    using ids[of j] by (simp add: id_ok_def)
  have "map_of (id_map L1) i = Some a \<and> a < next_state L1 \<and> entry_ok (id_states L1 a) a i ps \<and>
    next_state L \<le> next_state L1 \<and> (\<forall>j. j \<noteq> i \<longrightarrow> map_of (id_map L1) j = map_of (id_map L) j) \<and>
    (\<forall>j b. j \<noteq> i \<longrightarrow> map_of (id_map L) j = Some b \<longrightarrow> b \<noteq> a \<and> id_states L1 b = id_states L b)"
  proof (cases "map_of (id_map L) i")
    case None
    then have no: "\<forall>t. acq_id (ps t) \<noteq> Some i" using ids[of i] by (simp add: id_ok_def)
    then have "cnt (is_shared i) ps = 0" "cnt (is_excl i) ps = 0" "cnt (holds_shared i) ps = 0"
      "cnt (holds_excl i) ps = 0"
      using no by (subst cnt_zero[OF fin]; auto simp: acq_kinds(3) dest: acq_kinds(4,5))+
    with no have "entry_ok new_IDState a i ps" by (simp add: entry_ok_def new_IDState_def)
    moreover have "b \<noteq> next_state L" if "map_of (id_map L) j = Some b" for j b
      using lt[OF that] by simp
    ultimately show ?thesis using r None by (auto simp: id_ref_def)
  next
    case (Some b)
    with r have "a = b" "L1 = L" by (auto simp: id_ref_def)
    moreover have "c \<noteq> b" if "j \<noteq> i" "map_of (id_map L) j = Some c" for j c
      using inj[OF Some] that by blast
    ultimately show ?thesis using Some ids[of i] by (auto simp: id_ok_def)
  qed
  then show "map_of (id_map L1) i = Some a" "a < next_state L1" "entry_ok (id_states L1 a) a i ps"
    "next_state L \<le> next_state L1"
    "\<And>j. j \<noteq> i \<Longrightarrow> map_of (id_map L1) j = map_of (id_map L) j"
    "\<And>j b. j \<noteq> i \<Longrightarrow> map_of (id_map L) j = Some b \<Longrightarrow> b \<noteq> a \<and> id_states L1 b = id_states L b"
    by blast+
qed

text \<open>The shape all six steps share: the entry of one identifier is changed by \<open>f\<close>, one acquisition
  of that identifier moves to \<open>p\<close>, and the entry is dropped when nobody uses it any more.\<close>

lemma lock_inv_local:
  assumes inv: "lock_inv (L, ps)" and r: "id_ref i L = (a, L1)"
    and t: "acq_id (ps t) \<in> {None, Some i}" and p: "acq_id p \<in> {None, Some i}"
    and e: "entry_ok (f (id_states L1 a)) a i (ps(t := p))"
  shows "lock_inv (MaybeCleanupIDStateLocked i a (upd_state a f L1), ps(t := p))"
proof -
  note R = id_ref_facts[OF inv r]
  from inv have fin: "finite (active ps)" and ids: "\<And>i. id_ok L ps i"
    and inj: "\<And>i j a. map_of (id_map L) i = Some a \<Longrightarrow> map_of (id_map L) j = Some a \<Longrightarrow> i = j"
    by (auto simp: lock_inv_def)
  let ?ps = "ps(t := p)" and ?L2 = "upd_state a f L1"
  let ?L3 = "MaybeCleanupIDStateLocked i a ?L2"
  have fin': "finite (active ?ps)"
    by (rule finite_subset[of _ "insert t (active ps)"]) (use fin in \<open>auto simp: active_def\<close>)
  have frame: "next_state ?L3 = next_state L1" "id_states ?L3 = (id_states L1)(a := f (id_states L1 a))"
    "\<And>j. j \<noteq> i \<Longrightarrow> map_of (id_map ?L3) j = map_of (id_map L) j"
    using R(5) by (auto simp: MaybeCleanupIDStateLocked_def upd_state_def)
  have others: "id_ok ?L3 ?ps j" if j: "j \<noteq> i" for j
    using ids[of j] j t p R(4) R(6)[OF j] frame by (intro id_ok_other[of L]) auto
  have unused: "reader_count (f (id_states L1 a)) = 0 \<and> writer_count (f (id_states L1 a)) = 0 \<longleftrightarrow>
      (\<forall>t. acq_id (?ps t) \<noteq> Some i)"
    using e cnt_zero[OF fin', of "is_shared i"] cnt_zero[OF fin', of "is_excl i"]
    unfolding entry_ok_def acq_kinds(3) by auto
  have this_id: "id_ok ?L3 ?ps i"
  proof (cases "\<forall>t. acq_id (?ps t) \<noteq> Some i")
    case True
    with unused have "?L3 = ?L2\<lparr>id_map := AList.delete i (id_map ?L2)\<rparr>"
      by (simp add: MaybeCleanupIDStateLocked_def upd_state_def)
    then have "map_of (id_map ?L3) i = None" by simp
    with True show ?thesis by (simp only: id_ok_def option.case not_False_eq_True simp_thms)
  next
    case False
    with unused have "\<not> (reader_count (f (id_states L1 a)) = 0 \<and> writer_count (f (id_states L1 a)) = 0)"
      by blast
    then have "?L3 = ?L2" by (auto simp: MaybeCleanupIDStateLocked_def upd_state_def)
    then have "map_of (id_map ?L3) i = Some a" using R(1) by (simp add: upd_state_def)
    then show ?thesis using False e R(2) frame by (simp only: id_ok_def option.case) simp
  qed
  have "map_of (id_map ?L3) i \<in> {None, Some a}"
    using R(1) by (auto simp: MaybeCleanupIDStateLocked_def upd_state_def)
  then have "j = k" if "map_of (id_map ?L3) j = Some b" "map_of (id_map ?L3) k = Some b" for j k b
    using that frame(3) R(6) inj by (metis insertE option.distinct(1) option.inject singletonD)
  moreover have "id_ok ?L3 ?ps j" for j using others this_id by (cases "j = i") auto
  ultimately show ?thesis using fin' unfolding lock_inv_def prod.case by blast
qed

lemma id_ref_present: "map_of (id_map L) i = Some a \<Longrightarrow> id_ref i L = (a, L)"
  by (simp add: id_ref_def)

lemma acq_present:
  assumes "lock_inv (L, ps)" "acq_id (ps t) = Some i"
  shows "map_of (id_map L) i = Some (acq_addr (ps t))"
    "entry_ok (id_states L (acq_addr (ps t))) (acq_addr (ps t)) i ps"
proof -
  have "id_ok L ps i" using assms(1) by (simp add: lock_inv_def)
  then have "\<exists>a. map_of (id_map L) i = Some a \<and> entry_ok (id_states L a) a i ps"
    using assms(2) by (cases "map_of (id_map L) i") (simp_all add: id_ok_def)
  then obtain a where a: "map_of (id_map L) i = Some a" "entry_ok (id_states L a) a i ps" by blast
  then have "acq_addr (ps t) = a" using assms(2) by (simp add: entry_ok_def)
  with a show "map_of (id_map L) i = Some (acq_addr (ps t))"
    "entry_ok (id_states L (acq_addr (ps t))) (acq_addr (ps t)) i ps" by simp_all
qed

text \<open>An entry somebody still uses is not cleaned up.\<close>

lemma cleanup_used:
  assumes "finite (active ps)" "entry_ok (id_states L a) a i ps" "acq_id (ps t) = Some i"
  shows "MaybeCleanupIDStateLocked i a L = L"
proof -
  from assms(3) have "is_shared i (ps t) \<or> is_excl i (ps t)" unfolding acq_kinds(3) .
  then have "cnt (is_shared i) ps \<noteq> 0 \<or> cnt (is_excl i) ps \<noteq> 0"
    using cnt_zero[of ps "is_shared i"] cnt_zero[of ps "is_excl i"] assms(1) not_Idle(1,2) by metis
  with assms(2) show ?thesis by (auto simp: MaybeCleanupIDStateLocked_def entry_ok_def)
qed

text \<open>Steps that leave the moving acquisition in use of the identifier.\<close>

lemma lock_inv_enter:
  assumes inv: "lock_inv (L, ps)" and r: "id_ref i L = (a, L1)"
    and t: "acq_id (ps t) \<in> {None, Some i}" and p: "acq_id p = Some i"
    and e: "entry_ok (f (id_states L1 a)) a i (ps(t := p))"
  shows "lock_inv (upd_state a f L1, ps(t := p))"
proof -
  have fin: "finite (active (ps(t := p)))"
    by (rule finite_subset[of _ "insert t (active ps)"]) (use inv in \<open>auto simp: active_def lock_inv_def\<close>)
  have "MaybeCleanupIDStateLocked i a (upd_state a f L1) = upd_state a f L1"
    using e p by (intro cleanup_used[OF fin, of _ _ _ t]) (simp_all add: upd_state_def)
  with lock_inv_local[of L ps i a L1 t p f] inv r t p e show ?thesis by simp
qed

lemma upd_state_twice: "upd_state a g (upd_state a f L) = upd_state a (g \<circ> f) L"
  by (simp add: upd_state_def)

lemma AcquireSharedLock_inv:
  assumes inv: "lock_inv (L, ps)" and t: "ps t = Idle" and f: "AcquireSharedLock i L = (a, L')"
  shows "lock_inv (L', ps(t := WaitS i a))"
proof -
  obtain L1 where r: "id_ref i L = (a, L1)" and
    L': "L' = upd_state a (\<lambda>s. s\<lparr>reader_count := reader_count s + 1\<rparr>) L1"
    using f by (auto simp: AcquireSharedLock_def split: prod.splits)
  show ?thesis unfolding L' using t id_ref_facts(3)[OF inv r] inv
    by (intro lock_inv_enter[OF inv r] entry_ok_upd[OF id_ref_facts(3)[OF inv r]])
       (auto simp: acq_defs lock_inv_def entry_ok_def)
qed

lemma AcquireExclusiveLock_inv:
  assumes inv: "lock_inv (L, ps)" and t: "ps t = Idle" and f: "AcquireExclusiveLock i L = (a, L')"
  shows "lock_inv (L', ps(t := WaitX i a))"
proof -
  obtain L1 where r: "id_ref i L = (a, L1)" and
    L': "L' = upd_state a (\<lambda>s. s\<lparr>writer_count := writer_count s + 1\<rparr>) L1"
    using f by (auto simp: AcquireExclusiveLock_def split: prod.splits)
  show ?thesis unfolding L' using t id_ref_facts(3)[OF inv r] inv
    by (intro lock_inv_enter[OF inv r] entry_ok_upd[OF id_ref_facts(3)[OF inv r]])
       (auto simp: acq_defs lock_inv_def entry_ok_def)
qed

lemma lock_shared_inv:
  assumes inv: "lock_inv (L, ps)" and t: "ps t = WaitS i a"
    and g: "\<not> sm_writer (id_mutex (id_states L a))"
  shows "lock_inv (lock_shared a L, ps(t := HoldS i a))"
proof -
  note A = acq_present[OF inv, of t i, unfolded t, simplified]
  show ?thesis unfolding lock_shared_def using t g A(2) inv
    by (intro lock_inv_enter[OF inv id_ref_present[OF A(1)]] entry_ok_upd[OF A(2)])
       (auto simp: acq_defs lock_inv_def)
qed

lemma lock_exclusive_inv:
  assumes inv: "lock_inv (L, ps)" and t: "ps t = WaitX i a"
    and g: "\<not> sm_writer (id_mutex (id_states L a))" "sm_readers (id_mutex (id_states L a)) = 0"
  shows "lock_inv (lock_exclusive a L, ps(t := HoldX i a))"
proof -
  note A = acq_present[OF inv, of t i, unfolded t, simplified]
  show ?thesis unfolding lock_exclusive_def using t g A(2) inv
    by (intro lock_inv_enter[OF inv id_ref_present[OF A(1)]] entry_ok_upd[OF A(2)])
       (auto simp: acq_defs lock_inv_def)
qed

lemma ReleaseSharedLock_inv:
  assumes inv: "lock_inv (L, ps)" and t: "ps t = HoldS i a"
  shows "lock_inv (ReleaseSharedLock i L, ps(t := Idle))"
proof -
  note A = acq_present[OF inv, of t i, unfolded t, simplified]
  have fin: "finite (active ps)" using inv by (simp add: lock_inv_def)
  have pos: "0 < sm_readers (id_mutex (id_states L a))"
    using A(2) cnt_zero[OF fin, of "holds_shared i"] t by (auto simp: entry_ok_def acq_defs)
  show ?thesis
    unfolding ReleaseSharedLock_def id_ref_present[OF A(1)] Let_def prod.case upd_state_twice
    using t pos A(2) fin
    by (intro lock_inv_local[OF inv id_ref_present[OF A(1)]] entry_ok_upd[OF A(2)])
       (auto simp: acq_defs entry_ok_def)
qed

lemma ReleaseExclusiveLock_inv:
  assumes inv: "lock_inv (L, ps)" and t: "ps t = HoldX i a"
  shows "lock_inv (ReleaseExclusiveLock i L, ps(t := Idle))"
proof -
  note A = acq_present[OF inv, of t i, unfolded t, simplified]
  have fin: "finite (active ps)" using inv by (simp add: lock_inv_def)
  have w: "sm_writer (id_mutex (id_states L a))"
    using A(2) cnt_zero[OF fin, of "holds_excl i"] t
    by (cases "sm_writer (id_mutex (id_states L a))") (auto simp: entry_ok_def acq_defs)
  show ?thesis
    unfolding ReleaseExclusiveLock_def id_ref_present[OF A(1)] Let_def prod.case upd_state_twice
    using t w A(2) fin
    by (intro lock_inv_local[OF inv id_ref_present[OF A(1)]] entry_ok_upd[OF A(2)])
       (auto simp: acq_defs entry_ok_def)
qed

lemmas lock_ops_inv =
  AcquireSharedLock_inv lock_shared_inv ReleaseSharedLock_inv
  AcquireExclusiveLock_inv lock_exclusive_inv ReleaseExclusiveLock_inv

lemma lock_step_inv:
  assumes c: "shared_mutex_contract gs gx" and inv: "lock_inv S" and st: "lock_step gs gx S T"
  shows "lock_inv T"
  using st inv c by cases (auto simp: shared_mutex_contract_def intro: lock_ops_inv)

lemma lock_init_inv: "lock_init S \<Longrightarrow> lock_inv S"
  by (simp add: lock_init_def lock_inv_def IDLocker_new_def id_ok_def active_def)

interpretation locker: inductive_invariant lock_init
  "\<lambda>S T. shared_mutex_contract gs gx \<and> lock_step gs gx S T" lock_inv for gs gx
  by unfold_locales (auto intro: lock_init_inv lock_step_inv)

lemma reachable_lock_inv:
  "shared_mutex_contract gs gx \<Longrightarrow> reachable lock_init (lock_step gs gx) S \<Longrightarrow> lock_inv S"
  using locker.reachable_inv[of gs gx S] by simp

lemma id_ok_reachable:
  "shared_mutex_contract gs gx \<Longrightarrow> reachable lock_init (lock_step gs gx) (L, ps) \<Longrightarrow> id_ok L ps i"
  using reachable_lock_inv[of gs gx "(L, ps)"] by (simp add: lock_inv_def)

text \<open>The holders of one identifier: a writer excludes everybody else.\<close>

lemma lock_inv_exclusive:
  assumes inv: "lock_inv (L, ps)" and t: "ps t = HoldX i a" and u: "u \<noteq> t"
  shows "\<not> holds_shared i (ps u) \<and> \<not> holds_excl i (ps u)"
proof -
  have fin: "finite (active ps)" using inv by (simp add: lock_inv_def)
  have e: "entry_ok (id_states L a) a i ps" using acq_present(2)[OF inv, of t i] t by simp
  have "cnt (holds_excl i) (ps(t := Idle)) + 1 = cnt (holds_excl i) ps"
    using cnt_upd[of ps "holds_excl i" t Idle] fin t by (simp add: holds_excl_def)
  moreover have "cnt (holds_excl i) ps \<le> 1" and w: "sm_writer (id_mutex (id_states L a))"
    using e cnt_zero[of ps "holds_excl i"] fin t
    by (cases "sm_writer (id_mutex (id_states L a))"; auto simp: entry_ok_def holds_excl_def)+
  ultimately have "cnt (holds_excl i) (ps(t := Idle)) = 0" by simp
  moreover have "finite (active (ps(t := Idle)))"
    by (rule finite_subset[OF _ fin]) (auto simp: active_def)
  ultimately have "\<not> holds_excl i ((ps(t := Idle)) u)" using cnt_zero[of "ps(t := Idle)" "holds_excl i"] by simp
  moreover have "cnt (holds_shared i) ps = 0" using e w by (simp add: entry_ok_def)
  ultimately show ?thesis using u cnt_zero[of ps "holds_shared i"] fin by simp
qed

text \<open>C10. Mutual exclusion per identifier. Although the per-identifier mutexes are created on demand
  and erased when unused, and the wait for one happens outside the global lock, whoever holds the
  exclusive lock of an identifier is alone: no other acquisition holds that identifier, shared or
  exclusive. The boost mutex is only assumed to keep its own contract.\<close>

theorem IDLocker_mutual_exclusion:
  assumes "shared_mutex_contract gs gx" "reachable lock_init (lock_step gs gx) (L, ps)"
    and "ps t = HoldX i a" "u \<noteq> t"
  shows "ps u \<noteq> HoldX i b \<and> ps u \<noteq> HoldS i b"
  using lock_inv_exclusive[OF reachable_lock_inv[OF assms(1,2)] assms(3,4)]
  by (auto simp: acq_defs)

definition strict_shared :: "shared_mutex \<Rightarrow> bool" where
  "strict_shared m \<longleftrightarrow> \<not> sm_writer m"

definition strict_excl :: "shared_mutex \<Rightarrow> bool" where
  "strict_excl m \<longleftrightarrow> \<not> sm_writer m \<and> sm_readers m = 0"

lemma strict_contract: "shared_mutex_contract strict_shared strict_excl"
  by (simp add: shared_mutex_contract_def strict_shared_def strict_excl_def)

text \<open>Acquisition \<open>0\<close> owns an identifier exclusively while acquisition \<open>1\<close> waits for it.\<close>

definition sample_lock :: "(nat, string) lock_state" where
  "sample_lock =
     (let L1 = snd (AcquireExclusiveLock ''x'' IDLocker_new)
      in (snd (AcquireSharedLock ''x'' (lock_exclusive 0 L1)),
          (\<lambda>_. Idle)(0 := WaitX ''x'' 0, 0 := HoldX ''x'' 0, 1 := WaitS ''x'' 0)))"

lemma sample_lock_reachable:
  "reachable lock_init (lock_step strict_shared strict_excl) sample_lock"
proof -
  let ?R = "reachable lock_init (lock_step strict_shared strict_excl)"
  let ?L1 = "snd (AcquireExclusiveLock ''x'' IDLocker_new)"
  let ?p0 = "(\<lambda>_. Idle) :: nat \<Rightarrow> string acq"
  have a0: "AcquireExclusiveLock ''x'' IDLocker_new = (0, ?L1)"
    by (simp add: AcquireExclusiveLock_def id_ref_def IDLocker_new_def)
  have "?R (IDLocker_new, ?p0)" by (rule reach_init) (simp add: lock_init_def)
  then have "?R (?L1, ?p0(0 := WaitX ''x'' 0))"
    by (rule reach_step) (rule acq_excl[OF _ a0], simp)
  then have R3: "?R (lock_exclusive 0 ?L1, ?p0(0 := WaitX ''x'' 0, 0 := HoldX ''x'' 0))"
    by (rule reach_step, intro got_excl)
       (simp_all add: AcquireExclusiveLock_def id_ref_def IDLocker_new_def upd_state_def new_IDState_def
          strict_excl_def)
  have a1: "AcquireSharedLock ''x'' (lock_exclusive 0 ?L1) = (0, snd (AcquireSharedLock ''x'' (lock_exclusive 0 ?L1)))"
    by (simp add: AcquireExclusiveLock_def AcquireSharedLock_def lock_exclusive_def id_ref_def
        IDLocker_new_def upd_state_def emplace_def)
  have idle: "(?p0(0 := WaitX ''x'' 0, 0 := HoldX ''x'' 0)) 1 = Idle" by simp
  define p1 where "p1 = ?p0(0 := WaitX ''x'' 0, 0 := HoldX ''x'' 0)"
  define L2 where "L2 = lock_exclusive 0 ?L1"
  define L3 where "L3 = snd (AcquireSharedLock ''x'' L2)"
  have a1': "AcquireSharedLock ''x'' L2 = (0, L3)" using a1 by (simp only: L2_def L3_def)
  have idle': "p1 1 = Idle" using idle by (simp only: p1_def)
  have "lock_step strict_shared strict_excl (L2, p1) (L3, p1(1 := WaitS ''x'' 0))"
    using idle' a1' by (rule acq_shared[of p1 1])
  moreover have "?R (L2, p1)" using R3 by (simp only: p1_def L2_def)
  ultimately have "?R (L3, p1(1 := WaitS ''x'' 0))" by (blast intro: reach_step)
  then show ?thesis by (simp only: sample_lock_def Let_def p1_def L2_def L3_def)
qed

theorem IDLocker_mutual_exclusion_witness:
  "snd sample_lock 0 = HoldX ''x'' 0 \<and> snd sample_lock 1 \<noteq> HoldS ''x'' 0"
proof -
  have "snd sample_lock 0 = HoldX ''x'' 0" by (simp add: sample_lock_def Let_def)
  moreover have "snd sample_lock 1 \<noteq> HoldX ''x'' 0 \<and> snd sample_lock 1 \<noteq> HoldS ''x'' 0"
    using IDLocker_mutual_exclusion[OF strict_contract, of "fst sample_lock" "snd sample_lock" 0 "''x''" 0 1 0]
      sample_lock_reachable calculation by simp
  ultimately show ?thesis by simp
qed

text \<open>C27. The map holds exactly the identifiers in use. Whoever waits for or holds an identifier has
  a reference to the entry that is still in the map under it (so the wait outside the global lock
  never touches an erased entry, and everybody waits on the same mutex), the counters the code
  asserts to be positive are, and an identifier nobody uses has no entry.\<close>

theorem IDLocker_references_live:
  assumes "shared_mutex_contract gs gx" "reachable lock_init (lock_step gs gx) (L, ps)"
  shows "(acq_id (ps t) = Some i \<longrightarrow> map_of (id_map L) i = Some (acq_addr (ps t)) \<and>
            0 < reader_count (id_states L (acq_addr (ps t))) + writer_count (id_states L (acq_addr (ps t)))) \<and>
         ((\<forall>u. acq_id (ps u) \<noteq> Some i) \<longrightarrow> map_of (id_map L) i = None)"
proof (intro conjI impI)
  note inv = reachable_lock_inv[OF assms]
  have fin: "finite (active ps)" using inv by (simp add: lock_inv_def)
  assume t: "acq_id (ps t) = Some i"
  then show "map_of (id_map L) i = Some (acq_addr (ps t))" by (rule acq_present(1)[OF inv])
  from t have "cnt (is_shared i) ps \<noteq> 0 \<or> cnt (is_excl i) ps \<noteq> 0"
    using cnt_zero[of ps "is_shared i"] cnt_zero[of ps "is_excl i"] fin unfolding acq_kinds(3) by auto
  with acq_present(2)[OF inv t]
  show "0 < reader_count (id_states L (acq_addr (ps t))) + writer_count (id_states L (acq_addr (ps t)))"
    by (auto simp: entry_ok_def)
next
  assume "\<forall>u. acq_id (ps u) \<noteq> Some i"
  then show "map_of (id_map L) i = None"
    using id_ok_reachable[OF assms, of i]
    by (cases "map_of (id_map L) i") (simp_all add: id_ok_def)
qed

theorem IDLocker_references_live_witness:
  "map_of (id_map (fst sample_lock)) ''x'' = Some 0 \<and> map_of (id_map (fst sample_lock)) ''y'' = None"
proof -
  have s: "snd sample_lock 1 = WaitS ''x'' 0" "\<And>u. acq_id (snd sample_lock u) \<noteq> Some ''y''"
    by (simp_all add: sample_lock_def Let_def)
  note L = IDLocker_references_live[OF strict_contract, of "fst sample_lock" "snd sample_lock"]
  have "map_of (id_map (fst sample_lock)) ''x'' = Some 0"
    using L[of 1 "''x''"] sample_lock_reachable s(1) by simp
  moreover have "map_of (id_map (fst sample_lock)) ''y'' = None"
    using L[of 1 "''y''"] sample_lock_reachable s(2) by simp
  ultimately show ?thesis by simp
qed

end
