(* ===== verification/Smb_Proxy_State.thy ===== *)
theory Smb_Proxy_State
  imports Smb_Server LRU_Cache Id_Locker
begin

text \<open>
  The state of \<open>SmbProxy\<close> (\<open>gpl_util/smb/smb_proxy.h\<close>, \<open>smb_proxy.cc\<close>): tasks, each with a map of
  active and a list of inactive connections, and per task a cache of opened files. Objects behind
  shared pointers live in heaps indexed by addresses, so that the same connection can be reached from
  a task and from the operation that uses it. The theory holds the operations on the connection pool;
  their log lines are not modelled.
\<close>

record FileHandle =
  fh_path :: string
  fh_fnum :: uint16

record SmbConnection =
  creation_time_usecs :: int
  conn_last_access_time_usecs :: int
  conn_context :: smbc_wrapper_context
  dir_handle :: uint16
  children_fetched :: int
  fh_lru_list :: "FileHandle nlist"
  fh_lru_map :: "(string, nat) umap"
  fh_next_node :: nat

text \<open>A value-initialised connection object.\<close>

definition new_SmbConnection :: "'w smb_env \<Rightarrow> SmbConnection" where
  "new_SmbConnection E =
     \<lparr>creation_time_usecs = 0, conn_last_access_time_usecs = 0, conn_context = empty_context,
      dir_handle = e_invalid_fnum E, children_fetched = 0, fh_lru_list = [], fh_lru_map = [],
      fh_next_node = 0\<rparr>"

record TaskCacheEntry =
  task_last_access_time_usecs :: int
  share_path :: string
  active_connection_map :: "(int, addr) umap"
  inactive_connection_list :: "addr list"

definition new_TaskCacheEntry :: TaskCacheEntry where
  "new_TaskCacheEntry =
     \<lparr>task_last_access_time_usecs = 0, share_path = [], active_connection_map = [],
      inactive_connection_list = []\<rparr>"

record FileHandleEntry =
  fhe_error :: Error
  fhe_error_time_usecs :: int

record FileHandlesEntry =
  fhs_last_access_time_usecs :: int
  fh_cache :: "(string, FileHandleEntry) LRUCache"

text \<open>\<open>SmbProxy::State\<close>, with the heaps and the world.\<close>

record 'w proxy =
  conns :: "addr \<Rightarrow> SmbConnection"
  conn_next :: addr
  tasks :: "addr \<Rightarrow> TaskCacheEntry"
  task_next :: addr
  fhes :: "addr \<Rightarrow> FileHandlesEntry"
  fhe_next :: addr
  task_cache_map :: "(string, addr) umap"
  file_handles_map :: "(string, addr) umap"
  id_locker :: "string IDLocker"
  world :: 'w

subsection \<open>Access to the heaps\<close>

definition upd_conn :: "addr \<Rightarrow> (SmbConnection \<Rightarrow> SmbConnection) \<Rightarrow> 'w proxy \<Rightarrow> 'w proxy" where
  "upd_conn p f S = S\<lparr>conns := (conns S)(p := f (conns S p))\<rparr>"

definition upd_task :: "addr \<Rightarrow> (TaskCacheEntry \<Rightarrow> TaskCacheEntry) \<Rightarrow> 'w proxy \<Rightarrow> 'w proxy" where
  "upd_task t f S = S\<lparr>tasks := (tasks S)(t := f (tasks S t))\<rparr>"

text \<open>A call on the session of connection \<open>p\<close>.\<close>

definition sess_of :: "addr \<Rightarrow> 'w proxy \<Rightarrow> 'w sess" where
  "sess_of p S = (conn_context (conns S p), world S)"

definition put_sess :: "addr \<Rightarrow> 'w sess \<Rightarrow> 'w proxy \<Rightarrow> 'w proxy" where
  "put_sess p s S = (upd_conn p (\<lambda>c. c\<lparr>conn_context := fst s\<rparr>) S)\<lparr>world := snd s\<rparr>"

definition on_conn :: "addr \<Rightarrow> ('w sess \<Rightarrow> 'a \<times> 'w sess) \<Rightarrow> 'w proxy \<Rightarrow> 'a \<times> 'w proxy" where
  "on_conn p f S = (let (r, s) = f (sess_of p S) in (r, put_sess p s S))"

definition GetNowInUsecs :: "'w smb_env \<Rightarrow> 'w proxy \<Rightarrow> int \<times> 'w proxy" where
  "GetNowInUsecs E S = (let (t, w) = e_now E (world S) in (t, S\<lparr>world := w\<rparr>))"

subsection \<open>Shutting a connection down\<close>

fun close_handles :: "'w smb_env \<Rightarrow> addr \<Rightarrow> uint16 list \<Rightarrow> 'w proxy \<Rightarrow> 'w proxy" where
  "close_handles E p [] S = S"
| "close_handles E p (f # fs) S = close_handles E p fs (snd (on_conn p (e_close_fnum E f p) S))"

definition ShutdownSmbConnection :: "'w smb_env \<Rightarrow> addr \<Rightarrow> 'w proxy \<Rightarrow> 'w proxy" where
  "ShutdownSmbConnection E p S =
     (let c = conns S p;
          S = (if dir_handle c \<noteq> e_invalid_fnum E then close_handles E p [dir_handle c] S else S);
          S = close_handles E p (map (fh_fnum \<circ> snd) (fh_lru_list c)) S;
          S = upd_conn p (\<lambda>c. c\<lparr>fh_lru_list := [], fh_lru_map := []\<rparr>) S
      in snd (on_conn p (e_shutdown_connection E p) S))"

fun shutdown_all :: "'w smb_env \<Rightarrow> addr list \<Rightarrow> 'w proxy \<Rightarrow> 'w proxy" where
  "shutdown_all E [] S = S"
| "shutdown_all E (p # ps) S = shutdown_all E ps (ShutdownSmbConnection E p S)"

subsection \<open>Tasks\<close>

definition ValidateSmbProxyBaseArg :: "SmbProxyBaseArg \<Rightarrow> Error" where
  "ValidateSmbProxyBaseArg arg =
     (if task_key arg = [] then mk_error kInvalid ''The 'task_key' field cannot be empty''
      else if server arg = [] then mk_error kInvalid ''The 'server' field cannot be empty''
      else if share arg = [] then mk_error kInvalid ''The 'share' field cannot be empty''
      else if hd (share arg) \<noteq> slash then mk_error kInvalid ''The 'share' field must start with /''
      else if username arg = [] then mk_error kInvalid ''The 'username' field cannot be empty''
      else if password arg = [] then mk_error kInvalid ''The 'password' field cannot be empty''
      else no_error)"

definition UpdateTaskAccessTime :: "'w smb_env \<Rightarrow> string \<Rightarrow> 'w proxy \<Rightarrow> 'w proxy" where
  "UpdateTaskAccessTime E key S =
     (case map_of (task_cache_map S) key of
        None \<Rightarrow> S
      | Some t \<Rightarrow>
          let (now, S) = GetNowInUsecs E S
          in upd_task t (\<lambda>e. e\<lparr>task_last_access_time_usecs := now\<rparr>) S)"

text \<open>The part of \<open>GetOrCreateSmbConnection\<close> under the lock of the task map.\<close>

definition find_task :: "'w smb_env \<Rightarrow> SmbProxyBaseArg \<Rightarrow> 'w proxy \<Rightarrow> addr \<times> 'w proxy" where
  "find_task E arg S =
     (let (t, S) =
        (case map_of (task_cache_map S) (task_key arg) of
           None \<Rightarrow>
             (task_next S,
              S\<lparr>tasks := (tasks S)(task_next S := new_TaskCacheEntry\<lparr>share_path := server arg @ share arg\<rparr>),
                task_next := Suc (task_next S),
                task_cache_map := emplace (task_key arg) (task_next S) (task_cache_map S)\<rparr>)
         | Some t \<Rightarrow> (t, S));
        (now, S) = GetNowInUsecs E S
      in (t, upd_task t (\<lambda>e. e\<lparr>task_last_access_time_usecs := now\<rparr>) S))"

subsection \<open>Checking out a connection\<close>

text \<open>The retry loop around the connection attempt. The callers have validated that the share is not
  empty, so \<^verbatim>\<open>substr(1)\<close> drops its slash.\<close>

fun connect_loop ::
  "'w smb_env \<Rightarrow> addr \<Rightarrow> SmbProxyBaseArg \<Rightarrow> bool \<Rightarrow> nat \<Rightarrow> int \<Rightarrow> 'w sess \<Rightarrow> int \<times> 'w sess" where
  "connect_loop E p arg isIp 0 ret s = (ret, s)"
| "connect_loop E p arg isIp (Suc n) ret s =
     (if ret \<noteq> -1 then (ret, s)
      else let (ret, s) =
                 (if isIp then (ret, s)
                  else CreateSmbConnectionByResolvingHostname E p (server arg) (drop 1 (share arg))
                         (username arg) (password arg) (domain_name arg) s);
               (ret, s) =
                 (if ret = -1
                  then e_create_connection E (server arg) (drop 1 (share arg)) (username arg)
                         (password arg) (domain_name arg) p s
                  else (ret, s))
           in connect_loop E p arg isIp n ret s)"

definition msg_new_conn :: "string \<Rightarrow> string \<Rightarrow> string" where
  "msg_new_conn sp m = ''Failed to create a new connection to '' @ sp @ '', error msg: '' @ m"

definition create_connection ::
  "'w smb_env \<Rightarrow> SmbProxyBaseArg \<Rightarrow> addr \<Rightarrow> 'w proxy \<Rightarrow> (addr option \<times> Error) \<times> 'w proxy" where
  "create_connection E arg t S =
     (let p = conn_next S;
          S = S\<lparr>conns := (conns S)(p := new_SmbConnection E), conn_next := Suc p\<rparr>;
          (ret, S) = on_conn p (connect_loop E p arg (IsIpAddress E (server arg))
                       (nat (smb_proxy_create_connection_retry_count (e_flags E))) (-1)) S
      in if ret = -1
         then ((None, FromSmbErrorMessage (nt_status (conn_context (conns S p)))
                  (msg_new_conn (server arg @ share arg) (error_msg (conn_context (conns S p))))), S)
         else let (now, S) = GetNowInUsecs E S;
                  S = upd_conn p (\<lambda>c. c\<lparr>creation_time_usecs := now, conn_last_access_time_usecs := now\<rparr>) S
              in ((Some p, no_error),
                  upd_task t (\<lambda>e. e\<lparr>active_connection_map := emplace now p (active_connection_map e)\<rparr>) S))"

text \<open>Moving an inactive connection to the active map.\<close>

definition activate ::
  "'w smb_env \<Rightarrow> addr \<Rightarrow> addr \<Rightarrow> addr list \<Rightarrow> 'w proxy \<Rightarrow> (addr option \<times> Error) \<times> 'w proxy" where
  "activate E t p rest S =
     (let S = upd_task t (\<lambda>e. e\<lparr>inactive_connection_list := rest,
                active_connection_map :=
                  emplace (creation_time_usecs (conns S p)) p (active_connection_map e)\<rparr>) S;
          (now, S) = GetNowInUsecs E S
      in ((Some p, no_error), upd_conn p (\<lambda>c. c\<lparr>conn_last_access_time_usecs := now\<rparr>) S))"

text \<open>The first inactive connection that caches a handle for the path, or just the first one.\<close>

definition pick_inactive :: "'w proxy \<Rightarrow> string \<Rightarrow> addr list \<Rightarrow> addr \<times> addr list" where
  "pick_inactive S handle_path ps =
     (case (if handle_path = [] then None
            else List.extract (\<lambda>p. map_of (fh_lru_map (conns S p)) handle_path \<noteq> None) ps) of
        Some (xs, p, ys) \<Rightarrow> (p, xs @ ys)
      | None \<Rightarrow> (hd ps, tl ps))"

text \<open>The part under the lock of the task.\<close>

definition checkout ::
  "'w smb_env \<Rightarrow> SmbProxyBaseArg \<Rightarrow> string \<Rightarrow> int \<Rightarrow> int \<Rightarrow> addr \<Rightarrow> 'w proxy \<Rightarrow>
   (addr option \<times> Error) \<times> 'w proxy" where
  "checkout E arg handle_path ctime fetched t S =
     (if ctime \<noteq> -1
      then case map_of (active_connection_map (tasks S t)) ctime of
             None \<Rightarrow> ((None, mk_error kRetry ''Cannot find connection''), S)
           | Some p \<Rightarrow>
               if children_fetched (conns S p) \<noteq> fetched
               then let S = ShutdownSmbConnection E p S
                    in ((None, mk_error kRetry ''Children fetched counter do not match''),
                        upd_task t (\<lambda>e. e\<lparr>active_connection_map :=
                          AList.delete ctime (active_connection_map e)\<rparr>) S)
               else let (now, S) = GetNowInUsecs E S
                    in ((Some p, no_error), upd_conn p (\<lambda>c. c\<lparr>conn_last_access_time_usecs := now\<rparr>) S)
      else if inactive_connection_list (tasks S t) \<noteq> []
      then let (p, rest) = pick_inactive S handle_path (inactive_connection_list (tasks S t))
           in activate E t p rest S
      else create_connection E arg t S)"

definition GetOrCreateSmbConnection ::
  "'w smb_env \<Rightarrow> SmbProxyBaseArg \<Rightarrow> string \<Rightarrow> int \<Rightarrow> int \<Rightarrow> 'w proxy \<Rightarrow>
   (addr option \<times> Error) \<times> 'w proxy" where
  "GetOrCreateSmbConnection E arg handle_path ctime fetched S =
     (let (t, S) = find_task E arg S in checkout E arg handle_path ctime fetched t S)"

text \<open>The defaults of the declaration: no handle path, no cookie.\<close>

abbreviation GetOrCreate :: "'w smb_env \<Rightarrow> SmbProxyBaseArg \<Rightarrow> 'w proxy \<Rightarrow> (addr option \<times> Error) \<times> 'w proxy" where
  "GetOrCreate E arg \<equiv> GetOrCreateSmbConnection E arg [] (-1) 0"

definition ReleaseSmbConnection ::
  "'w smb_env \<Rightarrow> SmbProxyBaseArg \<Rightarrow> addr \<Rightarrow> bool \<Rightarrow> 'w proxy \<Rightarrow> 'w proxy" where
  "ReleaseSmbConnection E arg p reuse S =
     (let S = upd_conn p (\<lambda>c. c\<lparr>dir_handle := e_invalid_fnum E, children_fetched := 0\<rparr>) S
      in case map_of (task_cache_map S) (task_key arg) of
           None \<Rightarrow> S
         | Some t \<Rightarrow>
             let S = upd_task t (\<lambda>e. e\<lparr>active_connection_map :=
                       AList.delete (creation_time_usecs (conns S p)) (active_connection_map e)\<rparr>) S
             in if reuse
                then let (now, S) = GetNowInUsecs E S;
                         S = upd_conn p (\<lambda>c. c\<lparr>conn_last_access_time_usecs := now\<rparr>) S
                     in upd_task t (\<lambda>e. e\<lparr>inactive_connection_list := inactive_connection_list e @ [p]\<rparr>) S
                else S)"

subsection \<open>Purging\<close>

definition msg_active :: string where
  "msg_active = ''Cannot purge a task while there are active connections being used''"

definition PurgeTaskAndAllConnections ::
  "'w smb_env \<Rightarrow> addr \<Rightarrow> bool \<Rightarrow> 'w proxy \<Rightarrow> Error \<times> 'w proxy" where
  "PurgeTaskAndAllConnections E t force_purge S =
     (if \<not> force_purge \<and> active_connection_map (tasks S t) \<noteq> []
      then (mk_error kInvalid msg_active, S)
      else let S = shutdown_all E (map snd (active_connection_map (tasks S t))) S;
               S = upd_task t (\<lambda>e. e\<lparr>active_connection_map := []\<rparr>) S;
               S = shutdown_all E (inactive_connection_list (tasks S t)) S
           in (no_error, upd_task t (\<lambda>e. e\<lparr>inactive_connection_list := []\<rparr>) S))"

text \<open>The loop of \<open>MaybePurgeTaskIdleConnections\<close>: what is kept, and the state.\<close>

fun purge_idle ::
  "'w smb_env \<Rightarrow> int \<Rightarrow> addr list \<Rightarrow> 'w proxy \<Rightarrow> addr list \<times> 'w proxy" where
  "purge_idle E now [] S = ([], S)"
| "purge_idle E now (p # ps) S =
     (if now - conn_last_access_time_usecs (conns S p) >
         smb_proxy_connection_cache_inactive_secs (e_flags E) * kNumUsecsInSec
      then purge_idle E now ps (ShutdownSmbConnection E p S)
      else let (rest, S) = purge_idle E now ps S in (p # rest, S))"

definition MaybePurgeTaskIdleConnections :: "'w smb_env \<Rightarrow> addr \<Rightarrow> 'w proxy \<Rightarrow> 'w proxy" where
  "MaybePurgeTaskIdleConnections E t S =
     (let (now, S) = GetNowInUsecs E S;
          (rest, S) = purge_idle E now (inactive_connection_list (tasks S t)) S
      in upd_task t (\<lambda>e. e\<lparr>inactive_connection_list := rest\<rparr>) S)"

text \<open>The first loop of \<open>AlarmHandler\<close>: the tasks that remain, and the state.\<close>

fun alarm_tasks ::
  "'w smb_env \<Rightarrow> int \<Rightarrow> (string, addr) umap \<Rightarrow> 'w proxy \<Rightarrow> (string, addr) umap \<times> 'w proxy" where
  "alarm_tasks E now [] S = ([], S)"
| "alarm_tasks E now ((k, t) # ts) S =
     (if now - task_last_access_time_usecs (tasks S t) \<le>
         smb_proxy_task_cache_inactive_secs (e_flags E) * kNumUsecsInSec
      then let (rest, S) = alarm_tasks E now ts (MaybePurgeTaskIdleConnections E t S)
           in ((k, t) # rest, S)
      else alarm_tasks E now ts (snd (PurgeTaskAndAllConnections E t True S)))"

definition alarm_fhes :: "int \<Rightarrow> 'w proxy \<Rightarrow> 'w proxy" where
  "alarm_fhes now S =
     S\<lparr>file_handles_map :=
        filter (\<lambda>(k, a). fhs_last_access_time_usecs (fhes S a) \<ge> now - kNumUsecsInHour) (file_handles_map S)\<rparr>"

text \<open>\<open>AlarmHandler\<close> up to the memory check.\<close>

definition AlarmPurge :: "'w smb_env \<Rightarrow> 'w proxy \<Rightarrow> 'w proxy" where
  "AlarmPurge E S =
     (let (now, S) = GetNowInUsecs E S;
          (rest, S) = alarm_tasks E now (task_cache_map S) S
      in alarm_fhes now (S\<lparr>task_cache_map := rest\<rparr>))"

text \<open>The purge request of a client; the result is the error field of the response.\<close>

definition SmbProxyPurgeTask :: "'w smb_env \<Rightarrow> string \<Rightarrow> 'w proxy \<Rightarrow> Error option \<times> 'w proxy" where
  "SmbProxyPurgeTask E key S =
     (if key = [] then (Some (mk_error kInvalid ''The 'task_key' field cannot be empty''), S)
      else case map_of (task_cache_map S) key of
             None \<Rightarrow> (Some (mk_error kNonExistent (''The task '' @ key @ '' does not exist'')), S)
           | Some t \<Rightarrow>
               let S = S\<lparr>task_cache_map := AList.delete key (task_cache_map S)\<rparr>;
                   (error, S) = PurgeTaskAndAllConnections E t False S
               in (if Ok error then None else Some error, S))"

end
