(* ===== verification/Conn_Pool.thy ===== *)
theory Conn_Pool
  imports Smb_Proxy_State
begin

text \<open>
  The connection pool: which connections the tasks of the proxy own, the invariant of the pool, and
  that every operation of \<open>Smb_Proxy_State\<close> keeps it. Operations on a connection's session change
  neither the pool nor the identity of a connection; the first group of lemmas says so.
\<close>

subsection \<open>What session calls leave alone\<close>

definition same_pool :: "'w proxy \<Rightarrow> 'w proxy \<Rightarrow> bool" where
  "same_pool S T \<longleftrightarrow>
     task_cache_map T = task_cache_map S \<and> tasks T = tasks S \<and> task_next T = task_next S \<and>
     conn_next T = conn_next S \<and> fhes T = fhes S \<and> fhe_next T = fhe_next S \<and>
     file_handles_map T = file_handles_map S \<and> id_locker T = id_locker S"

definition same_ids :: "'w proxy \<Rightarrow> 'w proxy \<Rightarrow> bool" where
  "same_ids S T \<longleftrightarrow>
     (\<forall>p. creation_time_usecs (conns T p) = creation_time_usecs (conns S p) \<and>
          conn_last_access_time_usecs (conns T p) = conn_last_access_time_usecs (conns S p) \<and>
          dir_handle (conns T p) = dir_handle (conns S p) \<and>
          children_fetched (conns T p) = children_fetched (conns S p))"

definition quiet :: "'w proxy \<Rightarrow> 'w proxy \<Rightarrow> bool" where
  "quiet S T \<longleftrightarrow> same_pool S T \<and> same_ids S T"

lemma quietD:
  assumes "quiet S T"
  shows "task_cache_map T = task_cache_map S" "tasks T = tasks S" "task_next T = task_next S"
    "conn_next T = conn_next S" "fhes T = fhes S" "file_handles_map T = file_handles_map S"
    "creation_time_usecs (conns T p) = creation_time_usecs (conns S p)"
    "conn_last_access_time_usecs (conns T p) = conn_last_access_time_usecs (conns S p)"
    "dir_handle (conns T p) = dir_handle (conns S p)"
    "children_fetched (conns T p) = children_fetched (conns S p)"
    "id_locker T = id_locker S" "fhe_next T = fhe_next S"
  using assms by (simp_all add: quiet_def same_pool_def same_ids_def)

lemma quiet_refl [proxy_frame]: "quiet S S"
  by (simp add: quiet_def same_pool_def same_ids_def)

lemma quiet_trans: "quiet S T \<Longrightarrow> quiet T U \<Longrightarrow> quiet S U"
  by (simp add: quiet_def same_pool_def same_ids_def)

lemma quiet_put_sess [proxy_frame]: "quiet S (put_sess p s S)"
  by (simp add: put_sess_def upd_conn_def quiet_def same_pool_def same_ids_def)

lemma quiet_on_conn: "on_conn p f S = (r, T) \<Longrightarrow> quiet S T"
  by (auto simp: on_conn_def intro: quiet_put_sess split: prod.splits)

lemma quiet_on_conn_snd [proxy_frame]: "quiet S (snd (on_conn p f S))"
  by (rule quiet_on_conn[of p f S "fst (on_conn p f S)"]) simp

lemma quiet_now: "GetNowInUsecs E S = (t, T) \<Longrightarrow> quiet S T \<and> conns T = conns S"
  by (auto simp: GetNowInUsecs_def quiet_def same_pool_def same_ids_def split: prod.splits)

lemma quiet_close_handles [proxy_frame]: "quiet S (close_handles E p fs S)"
  by (induction fs arbitrary: S) (auto intro: quiet_trans quiet_on_conn_snd quiet_refl)

lemma quiet_clear: "quiet S (upd_conn p (\<lambda>c. c\<lparr>fh_lru_list := l, fh_lru_map := m\<rparr>) S)"
  by (simp add: upd_conn_def quiet_def same_pool_def same_ids_def)

lemma quiet_shutdown [proxy_frame]: "quiet S (ShutdownSmbConnection E p S)"
  unfolding ShutdownSmbConnection_def Let_def
  by (intro quiet_trans[OF _ quiet_on_conn_snd] quiet_trans[OF _ quiet_clear]
      quiet_trans[OF _ quiet_close_handles]) (auto intro: quiet_on_conn_snd quiet_refl)

lemma quiet_shutdown_all [proxy_frame]: "quiet S (shutdown_all E ps S)"
  by (induction ps arbitrary: S) (auto intro: quiet_trans quiet_shutdown quiet_refl)

text \<open>Calls on one connection do not touch the objects of the others.\<close>

lemma on_conn_other: "on_conn p f S = (r, T) \<Longrightarrow> q \<noteq> p \<Longrightarrow> conns T q = conns S q"
  by (auto simp: on_conn_def put_sess_def upd_conn_def split: prod.splits)

lemma close_handles_other: "q \<noteq> p \<Longrightarrow> conns (close_handles E p fs S) q = conns S q"
  by (induction fs arbitrary: S) (simp_all add: on_conn_def put_sess_def upd_conn_def split: prod.splits)

lemma shutdown_other: "q \<noteq> p \<Longrightarrow> conns (ShutdownSmbConnection E p S) q = conns S q"
  by (simp add: ShutdownSmbConnection_def Let_def on_conn_def put_sess_def upd_conn_def
      close_handles_other split: prod.splits)

lemma close_handles_lru:
  "fh_lru_list (conns (close_handles E p fs S) q) = fh_lru_list (conns S q)"
  "fh_lru_map (conns (close_handles E p fs S) q) = fh_lru_map (conns S q)"
  by (induction fs arbitrary: S) (simp_all add: on_conn_def put_sess_def upd_conn_def split: prod.splits)

lemma shutdown_clears:
  "fh_lru_list (conns (ShutdownSmbConnection E p S) p) = []"
  "fh_lru_map (conns (ShutdownSmbConnection E p S) p) = []"
  by (simp_all add: ShutdownSmbConnection_def Let_def on_conn_def put_sess_def upd_conn_def split: prod.splits)

subsection \<open>The connections of the pool\<close>

definition task_conns :: "TaskCacheEntry \<Rightarrow> addr list" where
  "task_conns e = map snd (active_connection_map e) @ inactive_connection_list e"

definition pool_conns :: "'w proxy \<Rightarrow> addr list" where
  "pool_conns S = concat (map (\<lambda>kt. task_conns (tasks S (snd kt))) (task_cache_map S))"

definition task_ok :: "'w smb_env \<Rightarrow> 'w proxy \<Rightarrow> TaskCacheEntry \<Rightarrow> bool" where
  "task_ok E S e \<longleftrightarrow>
     keys_distinct (active_connection_map e) \<and>
     (\<forall>c p. (c, p) \<in> set (active_connection_map e) \<longrightarrow> creation_time_usecs (conns S p) = c) \<and>
     (\<forall>p\<in>set (inactive_connection_list e). dir_handle (conns S p) = e_invalid_fnum E)"

text \<open>No connection is in two places, all are allocated, the active ones are indexed by their creation
  time, and an inactive one has no open directory.\<close>

definition pool_ok :: "'w smb_env \<Rightarrow> 'w proxy \<Rightarrow> bool" where
  "pool_ok E S \<longleftrightarrow>
     keys_distinct (task_cache_map S) \<and> distinct (map snd (task_cache_map S)) \<and>
     (\<forall>t\<in>snd ` set (task_cache_map S). t < task_next S) \<and>
     distinct (pool_conns S) \<and> (\<forall>p\<in>set (pool_conns S). p < conn_next S) \<and>
     (\<forall>t\<in>snd ` set (task_cache_map S). task_ok E S (tasks S t))"

definition proxy_init :: "'w \<Rightarrow> 'w proxy" where
  "proxy_init w =
     \<lparr>conns = (\<lambda>_. undefined), conn_next = 0, tasks = (\<lambda>_. new_TaskCacheEntry), task_next = 0,
      fhes = (\<lambda>_. undefined), fhe_next = 0, task_cache_map = [], file_handles_map = [],
      id_locker = IDLocker_new, world = w\<rparr>"

lemma pool_ok_init: "pool_ok E (proxy_init w)"
  by (simp add: pool_ok_def proxy_init_def pool_conns_def)

lemma pool_okD:
  assumes "pool_ok E S"
  shows "keys_distinct (task_cache_map S)" "distinct (map snd (task_cache_map S))"
    "\<And>k t. (k, t) \<in> set (task_cache_map S) \<Longrightarrow> t < task_next S"
    "distinct (pool_conns S)" "\<And>p. p \<in> set (pool_conns S) \<Longrightarrow> p < conn_next S"
    "\<And>k t. (k, t) \<in> set (task_cache_map S) \<Longrightarrow> task_ok E S (tasks S t)"
  using assms by (auto simp: pool_ok_def)

text \<open>The invariant depends only on what quiet steps keep.\<close>

lemma task_ok_quiet:
  assumes "quiet S T"
  shows "task_ok E T e = task_ok E S e"
  by (simp add: task_ok_def quietD[OF assms])

lemma pool_conns_quiet: "quiet S T \<Longrightarrow> pool_conns T = pool_conns S"
  by (simp add: pool_conns_def quietD)

lemma pool_ok_quiet:
  assumes "quiet S T"
  shows "pool_ok E T = pool_ok E S"
  by (simp add: pool_ok_def pool_conns_quiet[OF assms] task_ok_quiet[OF assms] quietD[OF assms])

lemmas pool_ok_shutdown = pool_ok_quiet[OF quiet_shutdown]
lemmas pool_ok_shutdown_all = pool_ok_quiet[OF quiet_shutdown_all]

subsection \<open>Changing one task\<close>

lemma map_cong_set: "(\<And>x. x \<in> set xs \<Longrightarrow> f x = g x) \<Longrightarrow> concat (map f xs) = concat (map g xs)"
  by (induction xs) auto

lemma pool_split:
  fixes S :: "'w proxy"
  assumes "distinct (map snd (task_cache_map S))" "(k, t) \<in> set (task_cache_map S)"
  obtains A B where "pool_conns S = A @ task_conns (tasks S t) @ B"
    "\<And>(T :: 'w proxy) e. task_cache_map T = task_cache_map S \<Longrightarrow> tasks T = (tasks S)(t := e) \<Longrightarrow>
       pool_conns T = A @ task_conns e @ B"
proof -
  obtain xs ys where xy: "task_cache_map S = xs @ (k, t) # ys" using assms(2) by (meson split_list)
  then have nt: "t \<notin> snd ` set xs" "t \<notin> snd ` set ys" using assms(1) by auto
  let ?f = "\<lambda>kt. task_conns (tasks S (snd kt))"
  show ?thesis
  proof (rule that[of "concat (map ?f xs)" "concat (map ?f ys)"])
    show "pool_conns S = concat (map ?f xs) @ task_conns (tasks S t) @ concat (map ?f ys)"
      by (simp add: pool_conns_def xy)
    fix T :: "'w proxy" and e
    assume T: "task_cache_map T = task_cache_map S" "tasks T = (tasks S)(t := e)"
    have "concat (map (\<lambda>kt. task_conns (tasks T (snd kt))) xs) = concat (map ?f xs)"
      "concat (map (\<lambda>kt. task_conns (tasks T (snd kt))) ys) = concat (map ?f ys)"
      using nt by (auto simp: T(2) image_iff intro!: map_cong_set)
    then show "pool_conns T = concat (map ?f xs) @ task_conns e @ concat (map ?f ys)"
      by (simp add: pool_conns_def T xy)
  qed
qed

lemma task_conns_pool:
  "(k, t) \<in> set (task_cache_map S) \<Longrightarrow> p \<in> set (task_conns (tasks S t)) \<Longrightarrow> p \<in> set (pool_conns S)"
  by (force simp: pool_conns_def)

lemma task_ok_cong:
  assumes "task_ok E S e"
    and "\<And>p. p \<in> set (task_conns e) \<Longrightarrow> creation_time_usecs (conns T p) = creation_time_usecs (conns S p) \<and>
           dir_handle (conns T p) = dir_handle (conns S p)"
  shows "task_ok E T e"
proof -
  have "creation_time_usecs (conns T p) = creation_time_usecs (conns S p)"
    if "(c, p) \<in> set (active_connection_map e)" for c p
    using assms(2)[of p] that by (force simp: task_conns_def)
  moreover have "dir_handle (conns T p) = dir_handle (conns S p)" if "p \<in> set (inactive_connection_list e)" for p
    using assms(2)[of p] that by (simp add: task_conns_def)
  ultimately show ?thesis using assms(1) by (auto simp: task_ok_def)
qed

text \<open>The shared shape of the operations: one live task changes, its connections stay, leave, or come
  from outside the pool.\<close>

lemma other_task_disjoint:
  fixes S :: "'w proxy"
  assumes ok: "pool_ok E S" and t: "(k, t) \<in> set (task_cache_map S)"
    and u: "(k', u) \<in> set (task_cache_map S)" and ne: "u \<noteq> t" and p: "p \<in> set (task_conns (tasks S u))"
  shows "p \<notin> set (task_conns (tasks S t))"
proof -
  note D = pool_okD[OF ok]
  let ?T = "S\<lparr>tasks := (tasks S)(t := new_TaskCacheEntry)\<rparr>"
  obtain A B where AB: "pool_conns S = A @ task_conns (tasks S t) @ B"
      "\<And>(T :: 'w proxy) e. task_cache_map T = task_cache_map S \<Longrightarrow> tasks T = (tasks S)(t := e) \<Longrightarrow>
         pool_conns T = A @ task_conns e @ B"
    using pool_split[OF D(2) t] by blast
  have "p \<in> set (pool_conns ?T)" using task_conns_pool[of k' u ?T p] u p ne by simp
  then have "p \<in> set A \<union> set B"
    using AB(2)[of ?T new_TaskCacheEntry] by (simp add: task_conns_def new_TaskCacheEntry_def)
  then show ?thesis using D(4) by (auto simp: AB(1))
qed

lemma pool_ok_one_task:
  fixes S T :: "'w proxy"
  assumes ok: "pool_ok E S" and t: "(k, t) \<in> set (task_cache_map S)"
    and T: "task_cache_map T = task_cache_map S" "tasks T = (tasks S)(t := e)" "task_next T = task_next S"
      "conn_next S \<le> conn_next T"
    and d: "distinct (task_conns e)"
    and src: "\<And>p. p \<in> set (task_conns e) \<Longrightarrow> p \<in> set (task_conns (tasks S t)) \<or>
                 p \<notin> set (pool_conns S) \<and> p < conn_next T"
    and e: "task_ok E T e"
    and others: "\<And>p. p \<in> set (pool_conns S) \<Longrightarrow> p \<notin> set (task_conns (tasks S t)) \<Longrightarrow>
       creation_time_usecs (conns T p) = creation_time_usecs (conns S p) \<and>
       dir_handle (conns T p) = dir_handle (conns S p)"
  shows "pool_ok E T"
proof -
  note D = pool_okD[OF ok]
  obtain A B where AB: "pool_conns S = A @ task_conns (tasks S t) @ B"
      "\<And>(T :: 'w proxy) e. task_cache_map T = task_cache_map S \<Longrightarrow> tasks T = (tasks S)(t := e) \<Longrightarrow>
         pool_conns T = A @ task_conns e @ B"
    using pool_split[OF D(2) t] by blast
  have pT: "pool_conns T = A @ task_conns e @ B" using AB(2)[OF T(1,2)] .
  have src': "p \<notin> set A \<and> p \<notin> set B \<and> p < conn_next T" if "p \<in> set (task_conns e)" for p
    using src[OF that] AB(1) D(4,5) T(4) by fastforce
  have "distinct (pool_conns T)"
    unfolding pT using D(4) d src' by (auto simp: AB(1))
  moreover have "\<forall>p\<in>set (pool_conns T). p < conn_next T"
    using D(5) T(4) src' by (auto simp: pT AB(1) intro: less_le_trans)
  moreover have "\<forall>u\<in>snd ` set (task_cache_map T). task_ok E T (tasks T u)"
  proof
    fix u
    assume "u \<in> snd ` set (task_cache_map T)"
    then obtain k' where u: "(k', u) \<in> set (task_cache_map S)" using T(1) by force
    show "task_ok E T (tasks T u)"
    proof (cases "u = t")
      case True
      with e T(2) show ?thesis by simp
    next
      case False
      have "task_ok E T (tasks S u)"
        by (rule task_ok_cong[OF D(6)[OF u]])
           (rule others[OF task_conns_pool[OF u] other_task_disjoint[OF ok t u False]])
      with False T(2) show ?thesis by simp
    qed
  qed
  ultimately show ?thesis using D(1-3) T(1,3) by (auto simp: pool_ok_def)
qed

subsection \<open>The operations keep the invariant\<close>

lemma now_frame:
  assumes "GetNowInUsecs E S = (now, T)"
  shows "conns T = conns S" "quiet S T"
  using quiet_now[OF assms] by auto

lemma live_task: "map_of (task_cache_map S) k = Some t \<Longrightarrow> (k, t) \<in> set (task_cache_map S)"
  by (rule map_of_SomeD)

lemma task_distinct:
  assumes "pool_ok E S" "(k, t) \<in> set (task_cache_map S)"
  shows "distinct (task_conns (tasks S t))"
  using pool_okD(4)[OF assms(1)] pool_split[OF pool_okD(2)[OF assms(1)] assms(2)] by (metis distinct_append)

text \<open>Different tasks have different connections.\<close>

lemma pool_disjoint:
  fixes S :: "'w proxy"
  assumes ok: "pool_ok E S" and t: "(k, t) \<in> set (task_cache_map S)" and u: "(k', u) \<in> set (task_cache_map S)"
    and ne: "u \<noteq> t" and p: "p \<in> set (task_conns (tasks S t))"
  shows "p \<notin> set (task_conns (tasks S u))"
proof
  assume q: "p \<in> set (task_conns (tasks S u))"
  obtain A B where AB: "pool_conns S = A @ task_conns (tasks S t) @ B"
    "\<And>(T :: 'w proxy) e. task_cache_map T = task_cache_map S \<Longrightarrow> tasks T = (tasks S)(t := e) \<Longrightarrow>
         pool_conns T = A @ task_conns e @ B"
    using pool_split[OF pool_okD(2)[OF ok] t] by blast
  let ?T = "S\<lparr>tasks := (tasks S)(t := new_TaskCacheEntry)\<rparr>"
  have "p \<in> set (pool_conns ?T)" by (rule task_conns_pool[of k' u]) (use u ne q in auto)
  then have "p \<in> set A \<union> set B" using AB(2)[of ?T new_TaskCacheEntry]
    by (simp add: task_conns_def new_TaskCacheEntry_def)
  then show False using pool_okD(4)[OF ok] p by (auto simp: AB(1))
qed

lemma task_ok_conns: "conns T = conns S \<Longrightarrow> task_ok E T e = task_ok E S e"
  by (simp add: task_ok_def)

lemma pool_ok_touch_task:
  assumes "pool_ok E S" "(k, t) \<in> set (task_cache_map S)"
  shows "pool_ok E (upd_task t (\<lambda>e. e\<lparr>task_last_access_time_usecs := now\<rparr>) S)"
  using pool_okD(6)[OF assms] task_distinct[OF assms]
  by (intro pool_ok_one_task[OF assms, where e = "(tasks S t)\<lparr>task_last_access_time_usecs := now\<rparr>"])
     (auto simp: upd_task_def task_conns_def task_ok_def)

text \<open>A request for an unknown task adds an empty one.\<close>

definition with_new_task :: "SmbProxyBaseArg \<Rightarrow> 'w proxy \<Rightarrow> 'w proxy" where
  "with_new_task arg S =
     S\<lparr>tasks := (tasks S)(task_next S := new_TaskCacheEntry\<lparr>share_path := server arg @ share arg\<rparr>),
       task_next := Suc (task_next S), task_cache_map := emplace (task_key arg) (task_next S) (task_cache_map S)\<rparr>"

lemma new_task_fresh:
  assumes "pool_ok E S" "(k, u) \<in> set (task_cache_map S)"
  shows "u \<noteq> task_next S"
  using pool_okD(3)[OF assms(1)] assms(2) by blast

lemma new_task_conns:
  assumes ok: "pool_ok E S" and None: "map_of (task_cache_map S) (task_key arg) = None"
  shows "pool_conns (with_new_task arg S) = pool_conns S" "task_conns (tasks (with_new_task arg S) (task_next S)) = []"
proof -
  let ?new = "new_TaskCacheEntry\<lparr>share_path := server arg @ share arg\<rparr>"
  have noconns: "task_conns ?new = []" by (simp add: task_conns_def new_TaskCacheEntry_def)
  then show "task_conns (tasks (with_new_task arg S) (task_next S)) = []" by (simp add: with_new_task_def)
  have "concat (map (\<lambda>kt. task_conns (((tasks S)(task_next S := ?new)) (snd kt))) (task_cache_map S)) = pool_conns S"
    unfolding pool_conns_def using new_task_fresh[OF ok] by (intro map_cong_set) (metis fun_upd_other prod.collapse)
  with None noconns show "pool_conns (with_new_task arg S) = pool_conns S"
    unfolding pool_conns_def[of "with_new_task arg S"] by (simp add: with_new_task_def emplace_fresh)
qed

lemma pool_ok_new_task:
  assumes ok: "pool_ok E S" and None: "map_of (task_cache_map S) (task_key arg) = None"
  shows "pool_ok E (with_new_task arg S)"
proof -
  let ?S = "with_new_task arg S"
  have tm: "task_cache_map ?S = task_cache_map S @ [(task_key arg, task_next S)]"
    using None by (simp add: with_new_task_def emplace_fresh)
  have tok: "task_ok E ?S (tasks ?S u)" if u: "u \<in> snd ` set (task_cache_map ?S)" for u
  proof (cases "u = task_next S")
    case True
    then show ?thesis by (simp add: task_ok_def new_TaskCacheEntry_def with_new_task_def)
  next
    case False
    with u obtain k where "(k, u) \<in> set (task_cache_map S)" unfolding tm by auto
    then show ?thesis using pool_okD(6)[OF ok] False task_ok_conns[of ?S S] by (simp add: with_new_task_def)
  qed
  have "task_next S \<notin> snd ` set (task_cache_map S)" using new_task_fresh[OF ok] by (metis imageE prod.collapse)
  then have kd: "keys_distinct (task_cache_map ?S)" "distinct (map snd (task_cache_map ?S))"
    using pool_okD(1,2)[OF ok] None unfolding tm by (auto simp: map_of_eq_None_iff)
  have lt: "\<forall>u\<in>snd ` set (task_cache_map ?S). u < task_next ?S"
    using pool_okD(3)[OF ok] unfolding tm by (auto simp: with_new_task_def intro: less_SucI)
  show ?thesis
    unfolding pool_ok_def new_task_conns(1)[OF ok None] using kd lt tok pool_okD(4,5)[OF ok] by (simp add: with_new_task_def)
qed

lemma find_task_shape:
  assumes "find_task E arg S = (t, T)"
  obtains now S1 S2 where "S1 = (if map_of (task_cache_map S) (task_key arg) = None then with_new_task arg S else S)"
    "map_of (task_cache_map S1) (task_key arg) = Some t" "GetNowInUsecs E S1 = (now, S2)"
    "T = upd_task t (\<lambda>e. e\<lparr>task_last_access_time_usecs := now\<rparr>) S2"
proof -
  let ?S = "if map_of (task_cache_map S) (task_key arg) = None then with_new_task arg S else S"
  obtain now S2 where now: "GetNowInUsecs E ?S = (now, S2)" by (rule prod.exhaust)
  have "map_of (task_cache_map ?S) (task_key arg) = Some t \<and> T = upd_task t (\<lambda>e. e\<lparr>task_last_access_time_usecs := now\<rparr>) S2"
    using assms now
    by (cases "map_of (task_cache_map S) (task_key arg)") (auto simp: find_task_def with_new_task_def emplace_fresh map_add_def)
  then show ?thesis using that[OF refl _ now] by blast
qed

lemma find_task_facts:
  assumes ok: "pool_ok E S" and f: "find_task E arg S = (t, T)"
  shows "pool_ok E T" "map_of (task_cache_map T) (task_key arg) = Some t" "conns T = conns S"
    "conn_next T = conn_next S" "pool_conns T = pool_conns S"
    "map_of (task_cache_map S) (task_key arg) = Some t \<or>
     map_of (task_cache_map S) (task_key arg) = None \<and> task_conns (tasks T t) = []"
    "\<And>k u. map_of (task_cache_map S) k = Some u \<Longrightarrow> map_of (task_cache_map T) k = Some u \<and>
       active_connection_map (tasks T u) = active_connection_map (tasks S u) \<and>
       inactive_connection_list (tasks T u) = inactive_connection_list (tasks S u)"
proof -
  obtain now S1 S2 where S1: "S1 = (if map_of (task_cache_map S) (task_key arg) = None then with_new_task arg S else S)"
    "map_of (task_cache_map S1) (task_key arg) = Some t" and now: "GetNowInUsecs E S1 = (now, S2)"
    and T: "T = upd_task t (\<lambda>e. e\<lparr>task_last_access_time_usecs := now\<rparr>) S2"
    by (rule find_task_shape[OF f])
  note N = now_frame[OF now]
  have P: "pool_ok E S1" "pool_conns S1 = pool_conns S" using ok pool_ok_new_task[OF ok] new_task_conns(1)[OF ok] by (simp_all add: S1)
  have C: "conns S1 = conns S" "conn_next S1 = conn_next S" by (simp_all add: S1 with_new_task_def)
  have ok2: "pool_ok E S2" using P(1) pool_ok_quiet[OF N(2)] by simp
  have t2: "map_of (task_cache_map S2) (task_key arg) = Some t" using S1 quietD(1)[OF N(2)] by simp
  show "pool_ok E T" unfolding T by (rule pool_ok_touch_task[OF ok2 live_task[OF t2]])
  show "map_of (task_cache_map T) (task_key arg) = Some t" "conns T = conns S" "conn_next T = conn_next S"
    using t2 N(1) C quietD(4)[OF N(2)] by (simp_all add: T upd_task_def)
  have tc: "task_conns (tasks T u) = task_conns (tasks S1 u)" for u
    using quietD(2)[OF N(2)] by (simp add: T upd_task_def task_conns_def)
  then show "pool_conns T = pool_conns S"
    using P(2) quietD(1)[OF N(2)] by (simp add: pool_conns_def T upd_task_def task_conns_def)
  have "t = task_next S" if "map_of (task_cache_map S) (task_key arg) = None"
    using S1 that by (auto simp: with_new_task_def emplace_fresh map_add_def)
  with new_task_conns(2)[OF ok] tc S1 show "map_of (task_cache_map S) (task_key arg) = Some t \<or>
     map_of (task_cache_map S) (task_key arg) = None \<and> task_conns (tasks T t) = []" by (auto split: if_splits)
  show "map_of (task_cache_map T) k = Some u \<and> active_connection_map (tasks T u) = active_connection_map (tasks S u) \<and>
       inactive_connection_list (tasks T u) = inactive_connection_list (tasks S u)" if k: "map_of (task_cache_map S) k = Some u" for k u
  proof -
    have "map_of (task_cache_map S1) k = Some u \<and> tasks S1 u = tasks S u"
      using k new_task_fresh[OF ok live_task[OF k]] by (auto simp: S1 with_new_task_def map_of_emplace)
    with quietD(1,2)[OF N(2)] show ?thesis by (auto simp: T upd_task_def)
  qed
qed

lemma pick_inactive_split:
  assumes "xs \<noteq> []" "pick_inactive S h xs = (p, rest)"
  obtains us vs where "xs = us @ p # vs" "rest = us @ vs"
proof (cases "if h = [] then None else List.extract (\<lambda>p. map_of (fh_lru_map (conns S p)) h \<noteq> None) xs")
  case None
  with assms have "p = hd xs" "rest = tl xs" by (auto simp: pick_inactive_def)
  with assms(1) show ?thesis by (intro that[of "[]" "tl xs"]) auto
next
  case (Some r)
  obtain us q vs where r: "r = (us, q, vs)" by (metis prod_cases3)
  with Some have "List.extract (\<lambda>p. map_of (fh_lru_map (conns S p)) h \<noteq> None) xs = Some (us, q, vs)"
    by (auto split: if_splits)
  then have "xs = us @ q # vs" by (simp add: extract_Some_iff)
  moreover have "p = q" "rest = us @ vs" using assms(2) Some r by (auto simp: pick_inactive_def)
  ultimately show ?thesis using that by blast
qed

lemma set_emplace: "set (emplace c p A) = (if map_of A c = None then insert (c, p) (set A) else set A)"
  by (auto simp: emplace_def split: option.splits)

lemma distinct_emplace_vals:
  "distinct (map snd A) \<Longrightarrow> p \<notin> snd ` set A \<Longrightarrow> distinct (map snd (emplace c p A))"
  by (auto simp: emplace_def split: option.splits)

lemma distinct_map_delete_vals: "distinct (map snd A) \<Longrightarrow> distinct (map snd (AList.delete c A))"
  by (induction A) auto

text \<open>Putting a connection into the active map of a task, from the inactive list or from outside.\<close>

lemma pool_ok_activate:
  assumes ok: "pool_ok E S" and t: "(k, t) \<in> set (task_cache_map S)"
    and T: "task_cache_map T = task_cache_map S" "task_next T = task_next S" "conn_next S \<le> conn_next T"
      "tasks T = (tasks S)(t := (tasks S t)\<lparr>inactive_connection_list := rest,
         active_connection_map := emplace c p (active_connection_map (tasks S t))\<rparr>)"
    and rest: "distinct (p # rest)" "set rest \<subseteq> set (inactive_connection_list (tasks S t))"
    and p: "p \<in> set (inactive_connection_list (tasks S t)) \<or> p \<notin> set (pool_conns S)" "p < conn_next T"
    and c: "creation_time_usecs (conns T p) = c"
    and others: "\<And>q. q \<in> set (pool_conns S) \<Longrightarrow> q \<noteq> p \<Longrightarrow>
       creation_time_usecs (conns T q) = creation_time_usecs (conns S q) \<and>
       dir_handle (conns T q) = dir_handle (conns S q)"
  shows "pool_ok E T"
proof -
  let ?A = "active_connection_map (tasks S t)"
  let ?e = "(tasks S t)\<lparr>inactive_connection_list := rest, active_connection_map := emplace c p ?A\<rparr>"
  note d = task_distinct[OF ok t] and tok = pool_okD(6)[OF ok t] and tp = task_conns_pool[OF t]
  have dA: "distinct (map snd ?A)" "distinct (inactive_connection_list (tasks S t))"
    "snd ` set ?A \<inter> set (inactive_connection_list (tasks S t)) = {}"
    using d by (auto simp: task_conns_def)
  have pA: "p \<notin> snd ` set ?A" using p(1) dA(3) tp[of p] by (auto simp: task_conns_def)
  have vals: "snd ` set (emplace c p ?A) \<subseteq> insert p (snd ` set ?A)" by (auto simp: set_emplace)
  have "snd ` set (emplace c p ?A) \<inter> set rest = {}" using vals rest dA(3) by fastforce
  then have "distinct (task_conns ?e)"
    using distinct_emplace_vals[OF dA(1) pA] rest(1) by (simp add: task_conns_def)
  moreover have "q \<in> set (task_conns (tasks S t)) \<or> q \<notin> set (pool_conns S) \<and> q < conn_next T"
    if "q \<in> set (task_conns ?e)" for q
    using that vals rest(2) p by (auto simp: task_conns_def)
  moreover have "task_ok E T ?e"
  proof -
    have "creation_time_usecs (conns T q) = c'" if "(c', q) \<in> set (emplace c p ?A)" for c' q
    proof (cases "q = p")
      case True
      with that pA c show ?thesis by (auto simp: set_emplace rev_image_eqI split: if_splits)
    next
      case False
      with that have q: "(c', q) \<in> set ?A" by (auto simp: set_emplace split: if_splits)
      then have "q \<in> set (pool_conns S)" by (intro tp) (force simp: task_conns_def)
      with q False others[of q] tok show ?thesis by (auto simp: task_ok_def)
    qed
    moreover have "dir_handle (conns T q) = e_invalid_fnum E" if q: "q \<in> set rest" for q
    proof -
      from q rest have "q \<noteq> p" and qi: "q \<in> set (inactive_connection_list (tasks S t))" by auto
      moreover from qi have "q \<in> set (pool_conns S)" by (intro tp) (simp add: task_conns_def)
      ultimately show ?thesis using others[of q] tok by (simp add: task_ok_def)
    qed
    ultimately show ?thesis using tok by (simp add: task_ok_def)
  qed
  ultimately show ?thesis
    using others p(1) by (intro pool_ok_one_task[OF ok t T(1) T(4) T(2,3)]) (auto simp: task_conns_def)
qed

lemma activate_facts:
  assumes ok: "pool_ok E S" and t: "(k, t) \<in> set (task_cache_map S)"
    and l: "inactive_connection_list (tasks S t) = us @ p # vs"
    and f: "activate E t p (us @ vs) S = (r, T)"
  shows "pool_ok E T" "r = (Some p, no_error)" "task_cache_map T = task_cache_map S"
    "creation_time_usecs (conns T p) = creation_time_usecs (conns S p)"
    "tasks T = (tasks S)(t := (tasks S t)\<lparr>inactive_connection_list := us @ vs, active_connection_map :=
       emplace (creation_time_usecs (conns S p)) p (active_connection_map (tasks S t))\<rparr>)"
    "conn_next T = conn_next S" "\<And>q. q \<noteq> p \<Longrightarrow> conns T q = conns S q"
proof -
  let ?S1 = "upd_task t (\<lambda>e. e\<lparr>inactive_connection_list := us @ vs, active_connection_map :=
      emplace (creation_time_usecs (conns S p)) p (active_connection_map e)\<rparr>) S"
  obtain now S2 where now: "GetNowInUsecs E ?S1 = (now, S2)" by (rule prod.exhaust)
  note N = now_frame[OF now]
  have T: "T = upd_conn p (\<lambda>c. c\<lparr>conn_last_access_time_usecs := now\<rparr>) S2" and r: "r = (Some p, no_error)"
    using f now by (auto simp: activate_def)
  note tp = task_conns_pool[OF t]
  show "r = (Some p, no_error)" by (rule r)
  show m: "task_cache_map T = task_cache_map S" "conn_next T = conn_next S"
    using quietD(1,4)[OF N(2)] by (simp_all add: T upd_conn_def upd_task_def)
  show tk: "tasks T = (tasks S)(t := (tasks S t)\<lparr>inactive_connection_list := us @ vs, active_connection_map :=
       emplace (creation_time_usecs (conns S p)) p (active_connection_map (tasks S t))\<rparr>)"
    using quietD(2)[OF N(2)] by (simp add: T upd_conn_def upd_task_def)
  show ids: "creation_time_usecs (conns T p) = creation_time_usecs (conns S p)"
    using N(1) by (simp add: T upd_conn_def upd_task_def)
  show o: "conns T q = conns S q" if "q \<noteq> p" for q
    using N(1) that by (simp add: T upd_conn_def upd_task_def)
  have "distinct (p # us @ vs)" using task_distinct[OF ok t] l by (auto simp: task_conns_def)
  moreover have "p < conn_next T" using pool_okD(5)[OF ok tp[of p]] l m(2) by (simp add: task_conns_def)
  moreover have "task_next T = task_next S"
    using quietD(3)[OF N(2)] by (simp add: T upd_conn_def upd_task_def)
  ultimately show "pool_ok E T"
    using l ids o m by (intro pool_ok_activate[OF ok t m(1) _ _ tk]) auto
qed

lemma pool_ok_grow:
  assumes ok: "pool_ok E S"
    and T: "task_cache_map T = task_cache_map S" "tasks T = tasks S" "task_next T = task_next S"
      "conn_next S \<le> conn_next T"
    and o: "\<And>q. q \<in> set (pool_conns S) \<Longrightarrow> creation_time_usecs (conns T q) = creation_time_usecs (conns S q) \<and>
       dir_handle (conns T q) = dir_handle (conns S q)"
  shows "pool_ok E T"
proof -
  note D = pool_okD[OF ok]
  have pc: "pool_conns T = pool_conns S" by (simp add: pool_conns_def T)
  have "task_ok E T (tasks T u)" if u: "(k, u) \<in> set (task_cache_map S)" for k u
    unfolding T(2) by (rule task_ok_cong[OF D(6)[OF u]]) (rule o[OF task_conns_pool[OF u]])
  moreover have "\<forall>p\<in>set (pool_conns S). p < conn_next T" using D(5) T(4) less_le_trans by blast
  ultimately show ?thesis using D(1-4) by (auto simp: pool_ok_def pc T)
qed

lemma create_connection_shape:
  assumes f: "create_connection E arg t S = (r, T)"
  shows "task_cache_map T = task_cache_map S" "task_next T = task_next S"
    "conn_next T = Suc (conn_next S)"
    "\<And>q. q \<noteq> conn_next S \<Longrightarrow> conns T q = conns S q"
    "(\<exists>e. r = (None, e) \<and> \<not> Ok e \<and> tasks T = tasks S) \<or>
     r = (Some (conn_next S), no_error) \<and>
     tasks T = (tasks S)(t := (tasks S t)\<lparr>active_connection_map :=
       emplace (creation_time_usecs (conns T (conn_next S))) (conn_next S) (active_connection_map (tasks S t))\<rparr>)"
proof -
  let ?p = "conn_next S"
  let ?S1 = "S\<lparr>conns := (conns S)(?p := new_SmbConnection E), conn_next := Suc ?p\<rparr>"
  obtain ret S2 where c: "on_conn ?p (connect_loop E ?p arg (IsIpAddress E (server arg))
      (nat (smb_proxy_create_connection_retry_count (e_flags E))) (-1)) ?S1 = (ret, S2)"
    by (rule prod.exhaust)
  obtain now S3 where now: "GetNowInUsecs E S2 = (now, S3)" by (rule prod.exhaust)
  note q = quietD[OF quiet_on_conn[OF c]] and o = on_conn_other[OF c]
    and N = now_frame(1)[OF now] and qn = quietD[OF now_frame(2)[OF now]]
  have r: "ret = -1 \<and> T = S2 \<and> (\<exists>e. r = (None, e) \<and> \<not> Ok e) \<or>
    T = upd_task t (\<lambda>e. e\<lparr>active_connection_map := emplace now ?p (active_connection_map e)\<rparr>)
          (upd_conn ?p (\<lambda>c. c\<lparr>creation_time_usecs := now, conn_last_access_time_usecs := now\<rparr>) S3) \<and>
    r = (Some ?p, no_error)"
    using f c now by (auto simp: create_connection_def Let_def split: if_splits)
  show "task_cache_map T = task_cache_map S" "task_next T = task_next S" "conn_next T = Suc ?p"
    using r q qn by (auto simp: upd_task_def upd_conn_def)
  show "conns T q = conns S q" if "q \<noteq> ?p" for q
    using r o[OF that] N that by (auto simp: upd_task_def upd_conn_def)
  show "(\<exists>e. r = (None, e) \<and> \<not> Ok e \<and> tasks T = tasks S) \<or>
     r = (Some ?p, no_error) \<and> tasks T = (tasks S)(t := (tasks S t)\<lparr>active_connection_map :=
       emplace (creation_time_usecs (conns T ?p)) ?p (active_connection_map (tasks S t))\<rparr>)"
    using r q qn by (auto simp: upd_task_def upd_conn_def)
qed

lemma create_connection_pool_ok:
  assumes ok: "pool_ok E S" and t: "(k, t) \<in> set (task_cache_map S)"
    and f: "create_connection E arg t S = (r, T)"
  shows "pool_ok E T"
proof -
  let ?p = "conn_next S" and ?e = "tasks S t"
  note C = create_connection_shape[OF f]
  have new: "?p \<notin> set (pool_conns S)" using pool_okD(5)[OF ok] by blast
  have o: "conns T q = conns S q" if "q \<in> set (pool_conns S)" for q using that new C(4) by metis
  show ?thesis
  proof (cases "tasks T = tasks S")
    case True
    then show ?thesis using C(1-3) o by (intro pool_ok_grow[OF ok]) auto
  next
    case False
    let ?A = "emplace (creation_time_usecs (conns T ?p)) ?p (active_connection_map ?e)"
    have tk: "tasks T = (tasks S)(t := ?e\<lparr>inactive_connection_list := inactive_connection_list ?e,
        active_connection_map := ?A\<rparr>)"
      using C(5) False by auto
    have "distinct (?p # inactive_connection_list ?e)"
      using task_distinct[OF ok t] new task_conns_pool[OF t, of ?p] by (auto simp: task_conns_def)
    then show ?thesis
      using new o C(3) by (intro pool_ok_activate[OF ok t C(1,2) _ tk]) auto
  qed
qed

text \<open>A connection that came into use: from the inactive list, or a new one.\<close>

definition came_from :: "'w proxy \<Rightarrow> addr \<Rightarrow> addr \<Rightarrow> addr list \<Rightarrow> bool" where
  "came_from S t p rest \<longleftrightarrow>
     p = conn_next S \<and> rest = inactive_connection_list (tasks S t) \<or>
     (\<exists>us vs. inactive_connection_list (tasks S t) = us @ p # vs \<and> rest = us @ vs)"

lemma checkout_facts:
  assumes ok: "pool_ok E S" and t: "(k, t) \<in> set (task_cache_map S)"
    and f: "checkout E arg h (-1) cf t S = ((po, e), T)"
  shows "pool_ok E T \<and> task_cache_map T = task_cache_map S \<and> conn_next S \<le> conn_next T \<and>
    (\<forall>q. q < conn_next S \<longrightarrow> po \<noteq> Some q \<longrightarrow> conns T q = conns S q) \<and>
    (po = None \<and> \<not> Ok e \<and> tasks T = tasks S \<or>
     (\<exists>p rest. po = Some p \<and> e = no_error \<and> p < conn_next T \<and> came_from S t p rest \<and>
        tasks T = (tasks S)(t := (tasks S t)\<lparr>inactive_connection_list := rest, active_connection_map :=
          emplace (creation_time_usecs (conns T p)) p (active_connection_map (tasks S t))\<rparr>)))"
proof (cases "inactive_connection_list (tasks S t) = []")
  case True
  then have c: "create_connection E arg t S = ((po, e), T)" using f by (simp add: checkout_def)
  note C = create_connection_shape[OF c] and ok' = create_connection_pool_ok[OF ok t c]
  from C(5) show ?thesis
  proof (elim disjE exE conjE)
    fix e' assume "(po, e) = (None, e')" "\<not> Ok e'" "tasks T = tasks S"
    with C(1-4) ok' show ?thesis by simp
  next
    assume "(po, e) = (Some (conn_next S), no_error)" "tasks T = (tasks S)(t := (tasks S t)\<lparr>active_connection_map :=
      emplace (creation_time_usecs (conns T (conn_next S))) (conn_next S) (active_connection_map (tasks S t))\<rparr>)"
    with C(1-4) ok' True show ?thesis by (auto simp: came_from_def)
  qed
next
  case False
  obtain p rest where pr: "pick_inactive S h (inactive_connection_list (tasks S t)) = (p, rest)"
    by (rule prod.exhaust)
  obtain us vs where uv: "inactive_connection_list (tasks S t) = us @ p # vs" "rest = us @ vs"
    using pick_inactive_split[OF False pr] by blast
  have a: "activate E t p (us @ vs) S = ((po, e), T)" using f False pr uv(2) by (simp add: checkout_def)
  note A = activate_facts[OF ok t uv(1) a]
  have "p < conn_next S" using pool_okD(5)[OF ok task_conns_pool[OF t, of p]] uv(1) by (simp add: task_conns_def)
  with A uv show ?thesis by (auto simp: came_from_def)
qed

lemma checkout_cookie_facts:
  assumes ok: "pool_ok E S" and t: "(k, t) \<in> set (task_cache_map S)" and ct: "ct \<noteq> -1"
    and f: "checkout E arg h ct cf t S = ((po, e), T)"
  shows "pool_ok E T" "task_cache_map T = task_cache_map S" "conn_next T = conn_next S"
    "po = None \<and> type_of e = kRetry \<or>
     (\<exists>p. po = Some p \<and> e = no_error \<and> map_of (active_connection_map (tasks S t)) ct = Some p \<and>
        children_fetched (conns S p) = cf \<and> tasks T = tasks S)"
proof -
  let ?A = "active_connection_map (tasks S t)"
  have "pool_ok E T \<and> task_cache_map T = task_cache_map S \<and> conn_next T = conn_next S \<and>
    (po = None \<and> type_of e = kRetry \<or>
     (\<exists>p. po = Some p \<and> e = no_error \<and> map_of ?A ct = Some p \<and> children_fetched (conns S p) = cf \<and> tasks T = tasks S))"
  proof (cases "map_of ?A ct")
    case None
    with f ct ok show ?thesis by (auto simp: checkout_def)
  next
    case (Some p)
    show ?thesis
    proof (cases "children_fetched (conns S p) = cf")
      case True
      obtain now S1 where now: "GetNowInUsecs E S = (now, S1)" by (rule prod.exhaust)
      note N = now_frame[OF now] and q = quietD[OF now_frame(2)[OF now]]
      have T: "T = upd_conn p (\<lambda>c. c\<lparr>conn_last_access_time_usecs := now\<rparr>) S1" "po = Some p" "e = no_error"
        using f ct Some True now by (auto simp: checkout_def)
      have "pool_ok E T" unfolding T using q N(1) by (intro pool_ok_grow[OF ok]) (auto simp: upd_conn_def)
      with Some True q show ?thesis by (simp add: T upd_conn_def)
    next
      case False
      let ?S1 = "ShutdownSmbConnection E p S"
      note q = quietD[OF quiet_shutdown[of S E p]]
      have T: "T = upd_task t (\<lambda>e. e\<lparr>active_connection_map := AList.delete ct (active_connection_map e)\<rparr>) ?S1"
        "po = None" "e = mk_error kRetry ''Children fetched counter do not match''"
        using f ct Some False by (auto simp: checkout_def Let_def)
      note tok = pool_okD(6)[OF ok t] and d = task_distinct[OF ok t]
      have "pool_ok E T"
        by (rule pool_ok_one_task[OF ok t, where e = "(tasks S t)\<lparr>active_connection_map := AList.delete ct ?A\<rparr>"])
           (use tok d in \<open>auto simp: T upd_task_def q task_conns_def task_ok_def distinct_map_delete_vals\<close>)
      with q show ?thesis by (simp add: T upd_task_def)
    qed
  qed
  then show "pool_ok E T" "task_cache_map T = task_cache_map S" "conn_next T = conn_next S"
    "po = None \<and> type_of e = kRetry \<or>
     (\<exists>p. po = Some p \<and> e = no_error \<and> map_of ?A ct = Some p \<and> children_fetched (conns S p) = cf \<and> tasks T = tasks S)"
    by blast+
qed

subsection \<open>Release\<close>

text \<open>What may be released under a task key: an allocated connection that is active in that task, or one
  the pool has meanwhile lost (its task was purged).\<close>

definition releasable :: "'w proxy \<Rightarrow> string \<Rightarrow> addr \<Rightarrow> bool" where
  "releasable S key p \<longleftrightarrow> p < conn_next S \<and>
     (p \<in> set (pool_conns S) \<longrightarrow>
        (\<exists>t. map_of (task_cache_map S) key = Some t \<and> p \<in> snd ` set (active_connection_map (tasks S t))))"

definition released :: "addr \<Rightarrow> int \<Rightarrow> bool \<Rightarrow> TaskCacheEntry \<Rightarrow> TaskCacheEntry" where
  "released p c reuse e =
     e\<lparr>active_connection_map := AList.delete c (active_connection_map e),
       inactive_connection_list := inactive_connection_list e @ (if reuse then [p] else [])\<rparr>"

lemma Release_shape:
  assumes "T = ReleaseSmbConnection E arg p reuse S"
  shows "task_cache_map T = task_cache_map S" "task_next T = task_next S" "conn_next T = conn_next S"
    "tasks T = (case map_of (task_cache_map S) (task_key arg) of None \<Rightarrow> tasks S
       | Some t \<Rightarrow> (tasks S)(t := released p (creation_time_usecs (conns S p)) reuse (tasks S t)))"
    "\<And>q. q \<noteq> p \<Longrightarrow> conns T q = conns S q"
    "dir_handle (conns T p) = e_invalid_fnum E" "children_fetched (conns T p) = 0"
    "\<And>q. creation_time_usecs (conns T q) = creation_time_usecs (conns S q)"
    "fh_lru_list (conns T q) = fh_lru_list (conns S q)" "fh_lru_map (conns T q) = fh_lru_map (conns S q)"
  unfolding assms
  by (auto simp: ReleaseSmbConnection_def Let_def upd_conn_def upd_task_def released_def GetNowInUsecs_def
      split: option.splits prod.splits)

lemma Release_task_ok:
  assumes tok: "task_ok E S (tasks S t)"
  shows "task_ok E (ReleaseSmbConnection E arg p reuse S)
    (released p (creation_time_usecs (conns S p)) reuse (tasks S t))" (is "task_ok E ?T ?e")
proof -
  note F = Release_shape[where E = E and arg = arg and p = p and reuse = reuse and S = S, OF refl]
  have "dir_handle (conns ?T q) = e_invalid_fnum E" if "q \<in> set (inactive_connection_list ?e)" for q
    using that tok F(5)[of q] F(6) by (cases "q = p") (auto simp: released_def task_ok_def split: if_splits)
  then show ?thesis using tok F(8) by (auto simp: task_ok_def released_def)
qed

lemma Release_pool_ok:
  assumes ok: "pool_ok E S" and r: "releasable S (task_key arg) p"
  shows "pool_ok E (ReleaseSmbConnection E arg p reuse S)"
proof (cases "map_of (task_cache_map S) (task_key arg)")
  case None
  let ?T = "ReleaseSmbConnection E arg p reuse S"
  note F = Release_shape[where E = E and arg = arg and p = p and reuse = reuse and S = S, OF refl]
  have "q \<noteq> p" if "q \<in> set (pool_conns S)" for q
    using that r None by (auto simp: releasable_def)
  then show ?thesis using F(1-5) None by (intro pool_ok_grow[OF ok]) simp_all
next
  case (Some t)
  let ?T = "ReleaseSmbConnection E arg p reuse S"
  let ?c = "creation_time_usecs (conns S p)"
  let ?e = "released p ?c reuse (tasks S t)"
  let ?A = "active_connection_map (tasks S t)"
  note F = Release_shape[where E = E and arg = arg and p = p and reuse = reuse and S = S, OF refl]
  note t = live_task[OF Some]
  note tok = pool_okD(6)[OF ok t] and d = task_distinct[OF ok t] and tp = task_conns_pool[OF t]
  have act: "p \<in> snd ` set ?A" if "p \<in> set (pool_conns S)"
    using r that Some by (auto simp: releasable_def)
  have gone: "p \<notin> snd ` set (AList.delete ?c ?A)"
    using tok by (auto simp: task_ok_def)
  have ni: "p \<notin> set (inactive_connection_list (tasks S t))"
    using act tp[of p] d by (auto simp: task_conns_def)
  have "distinct (task_conns ?e)"
    using d gone ni by (auto simp: task_conns_def released_def distinct_map_delete_vals)
  moreover have "q \<in> set (task_conns (tasks S t)) \<or> q \<notin> set (pool_conns S) \<and> q < conn_next ?T"
    if "q \<in> set (task_conns ?e)" for q
  proof (cases "q = p")
    case True
    then show ?thesis using act r F(3) by (auto simp: task_conns_def releasable_def)
  next
    case False
    with that show ?thesis by (auto simp: task_conns_def released_def split: if_splits)
  qed
  moreover have "task_ok E ?T ?e" by (rule Release_task_ok[OF tok])
  moreover have "creation_time_usecs (conns ?T q) = creation_time_usecs (conns S q) \<and>
      dir_handle (conns ?T q) = dir_handle (conns S q)"
    if "q \<in> set (pool_conns S)" "q \<notin> set (task_conns (tasks S t))" for q
    using that F(5)[of q] act by (cases "q = p") (auto simp: task_conns_def)
  moreover have "tasks ?T = (tasks S)(t := ?e)" using F(4) Some by simp
  ultimately show ?thesis using F(1-3) by (intro pool_ok_one_task[OF ok t]) simp_all
qed

subsection \<open>Purging\<close>

lemma Purge_shape:
  assumes "PurgeTaskAndAllConnections E t force S = (e, T)"
  shows "quiet S (T\<lparr>tasks := tasks S\<rparr>)"
    "tasks T = (if \<not> force \<and> active_connection_map (tasks S t) \<noteq> [] then tasks S
       else (tasks S)(t := (tasks S t)\<lparr>active_connection_map := [], inactive_connection_list := []\<rparr>))"
    "Ok e \<longleftrightarrow> force \<or> active_connection_map (tasks S t) = []"
proof -
  let ?S1 = "shutdown_all E (map snd (active_connection_map (tasks S t))) S"
  let ?S2 = "upd_task t (\<lambda>e. e\<lparr>active_connection_map := []\<rparr>) ?S1"
  let ?S3 = "shutdown_all E (inactive_connection_list (tasks ?S2 t)) ?S2"
  note q1 = quietD[OF quiet_shutdown_all[of S E "map snd (active_connection_map (tasks S t))"]]
  note q3 = quietD[OF quiet_shutdown_all[of ?S2 E "inactive_connection_list (tasks ?S2 t)"]]
  have refuse: "quiet S (S\<lparr>tasks := tasks S\<rparr>)" by (simp add: quiet_refl)
  show "quiet S (T\<lparr>tasks := tasks S\<rparr>)"
  proof (cases "\<not> force \<and> active_connection_map (tasks S t) \<noteq> []")
    case True
    with assms refuse show ?thesis by (auto simp: PurgeTaskAndAllConnections_def)
  next
    case False
    with assms have T: "T = upd_task t (\<lambda>e. e\<lparr>inactive_connection_list := []\<rparr>) ?S3"
      by (auto simp: PurgeTaskAndAllConnections_def Let_def)
    show ?thesis unfolding T quiet_def same_pool_def same_ids_def
      using q1 q3 by (simp add: upd_task_def)
  qed
  show "tasks T = (if \<not> force \<and> active_connection_map (tasks S t) \<noteq> [] then tasks S
       else (tasks S)(t := (tasks S t)\<lparr>active_connection_map := [], inactive_connection_list := []\<rparr>))"
    using assms q1(2) q3(2) by (auto simp: PurgeTaskAndAllConnections_def Let_def upd_task_def)
  show "Ok e \<longleftrightarrow> force \<or> active_connection_map (tasks S t) = []"
    using assms by (cases force) (auto simp: PurgeTaskAndAllConnections_def Let_def split: if_splits)
qed

lemma distinct_concat_shrink:
  assumes "distinct (concat (map f xs))"
    and "\<And>x. x \<in> set xs \<Longrightarrow> P x \<Longrightarrow> distinct (g x) \<and> set (g x) \<subseteq> set (f x)"
  shows "distinct (concat (map g (filter P xs))) \<and> set (concat (map g (filter P xs))) \<subseteq> set (concat (map f xs))"
  using assms
proof (induction xs)
  case (Cons x xs)
  then have IH: "distinct (concat (map g (filter P xs)))" "set (concat (map g (filter P xs))) \<subseteq> set (concat (map f xs))"
    by auto
  show ?case
  proof (cases "P x")
    case True
    with Cons.prems(2)[of x] have "distinct (g x)" "set (g x) \<subseteq> set (f x)" by auto
    with IH Cons.prems(1) True show ?thesis by auto
  next
    case False
    with IH show ?thesis by auto
  qed
qed simp

text \<open>Dropping tasks and connections keeps the invariant.\<close>

lemma pool_ok_shrink:
  assumes ok: "pool_ok E S"
    and T: "task_cache_map T = filter P (task_cache_map S)" "task_next T = task_next S" "conn_next T = conn_next S"
    and keep: "\<And>k t. (k, t) \<in> set (task_cache_map S) \<Longrightarrow> P (k, t) \<Longrightarrow>
       \<exists>Q R. active_connection_map (tasks T t) = filter Q (active_connection_map (tasks S t)) \<and>
             inactive_connection_list (tasks T t) = filter R (inactive_connection_list (tasks S t))"
    and ids: "\<And>q. creation_time_usecs (conns T q) = creation_time_usecs (conns S q) \<and>
                 dir_handle (conns T q) = dir_handle (conns S q)"
  shows "pool_ok E T"
proof -
  note D = pool_okD[OF ok]
  have sub: "distinct (task_conns (tasks T (snd kt))) \<and>
      set (task_conns (tasks T (snd kt))) \<subseteq> set (task_conns (tasks S (snd kt)))"
    if "kt \<in> set (task_cache_map S)" "P kt" for kt
  proof -
    obtain k t where kt: "kt = (k, t)" by (rule prod.exhaust)
    with keep that obtain Q R where "active_connection_map (tasks T t) = filter Q (active_connection_map (tasks S t))"
        "inactive_connection_list (tasks T t) = filter R (inactive_connection_list (tasks S t))" by metis
    with task_distinct[OF ok, of k t] that kt show ?thesis
      by (auto simp: task_conns_def distinct_map_filter)
  qed
  have "distinct (pool_conns T)" "set (pool_conns T) \<subseteq> set (pool_conns S)"
    using distinct_concat_shrink[of "\<lambda>kt. task_conns (tasks S (snd kt))" "task_cache_map S" P
        "\<lambda>kt. task_conns (tasks T (snd kt))"] D(4) sub by (auto simp: pool_conns_def T(1))
  moreover have "task_ok E T (tasks T t)" if t: "(k, t) \<in> set (task_cache_map S)" "P (k, t)" for k t
  proof -
    obtain Q R where "active_connection_map (tasks T t) = filter Q (active_connection_map (tasks S t))"
        "inactive_connection_list (tasks T t) = filter R (inactive_connection_list (tasks S t))"
      using keep[OF t] by blast
    with D(6)[OF t(1)] ids show ?thesis by (auto simp: task_ok_def distinct_map_filter)
  qed
  ultimately show ?thesis
    using D(1-3,5) by (auto simp: pool_ok_def T distinct_map_filter)
qed

lemma delete_filter: "AList.delete k m = filter (\<lambda>p. fst p \<noteq> k) m"
  by (induction m) auto

lemma task_key_unique:
  "distinct (map snd m) \<Longrightarrow> (k, t) \<in> set m \<Longrightarrow> (k', t') \<in> set m \<Longrightarrow> t' = t \<Longrightarrow> k' = k"
  by (induction m) (auto simp: rev_image_eqI)

lemma PurgeTask_pool_ok:
  assumes ok: "pool_ok E S"
  shows "pool_ok E (snd (SmbProxyPurgeTask E key S))"
proof (cases "key = [] \<or> map_of (task_cache_map S) key = None")
  case True
  with ok show ?thesis by (auto simp: SmbProxyPurgeTask_def)
next
  case False
  then obtain t where t: "key \<noteq> []" "map_of (task_cache_map S) key = Some t" by auto
  let ?S1 = "S\<lparr>task_cache_map := AList.delete key (task_cache_map S)\<rparr>"
  obtain e T where p: "PurgeTaskAndAllConnections E t False ?S1 = (e, T)" by (rule prod.exhaust)
  note F = Purge_shape[OF p] and q = quietD[OF Purge_shape(1)[OF p]]
  have "pool_ok E T"
  proof (rule pool_ok_shrink[OF ok, where P = "\<lambda>kt. fst kt \<noteq> key"])
    show "task_cache_map T = filter (\<lambda>kt. fst kt \<noteq> key) (task_cache_map S)"
      using q(1) by (simp add: delete_filter)
    fix k u
    assume u: "(k, u) \<in> set (task_cache_map S)" "fst (k, u) \<noteq> key"
    have "u \<noteq> t"
      using task_key_unique[OF pool_okD(2)[OF ok] live_task[OF t(2)] u(1)] u(2) by auto
    then have "tasks T u = tasks S u" using F(2) by simp
    then show "\<exists>Q R. active_connection_map (tasks T u) = filter Q (active_connection_map (tasks S u)) \<and>
             inactive_connection_list (tasks T u) = filter R (inactive_connection_list (tasks S u))"
      by (intro exI[of _ "\<lambda>_. True"]) simp
  qed (use q in simp_all)
  with t p show ?thesis by (simp add: SmbProxyPurgeTask_def Let_def)
qed

subsection \<open>The alarm handler\<close>

definition idle_conn :: "'w smb_env \<Rightarrow> 'w proxy \<Rightarrow> int \<Rightarrow> addr \<Rightarrow> bool" where
  "idle_conn E S now p \<longleftrightarrow>
     now - conn_last_access_time_usecs (conns S p) >
       smb_proxy_connection_cache_inactive_secs (e_flags E) * kNumUsecsInSec"

definition idle_task :: "'w smb_env \<Rightarrow> 'w proxy \<Rightarrow> int \<Rightarrow> addr \<Rightarrow> bool" where
  "idle_task E S now t \<longleftrightarrow>
     now - task_last_access_time_usecs (tasks S t) >
       smb_proxy_task_cache_inactive_secs (e_flags E) * kNumUsecsInSec"

lemma purge_idle_facts:
  "purge_idle E now ps S = (rest, T) \<Longrightarrow> quiet S T \<and> rest = filter (\<lambda>p. \<not> idle_conn E S now p) ps"
proof (induction ps arbitrary: S rest)
  case (Cons p ps)
  have eq: "idle_conn E (ShutdownSmbConnection E p S) now = idle_conn E S now"
    by (rule ext) (simp add: idle_conn_def quietD[OF quiet_shutdown])
  show ?case
  proof (cases "idle_conn E S now p")
    case True
    with Cons.prems have "purge_idle E now ps (ShutdownSmbConnection E p S) = (rest, T)"
      by (simp add: idle_conn_def)
    from Cons.IH[OF this] True eq show ?thesis by (auto intro: quiet_trans[OF quiet_shutdown])
  next
    case False
    with Cons.prems obtain r where "purge_idle E now ps S = (r, T)" "rest = p # r"
      by (auto simp: idle_conn_def split: prod.splits)
    with Cons.IH[of S r] False show ?thesis by simp
  qed
qed (simp add: quiet_refl)

lemma MaybePurge_facts:
  assumes "T = MaybePurgeTaskIdleConnections E t S"
  shows "quiet S (T\<lparr>tasks := tasks S\<rparr>)"
    "\<exists>w. tasks T = (tasks S)(t := (tasks S t)\<lparr>inactive_connection_list :=
       filter (\<lambda>p. \<not> idle_conn E S (fst (e_now E w)) p) (inactive_connection_list (tasks S t))\<rparr>)"
proof -
  obtain now S1 where now: "GetNowInUsecs E S = (now, S1)" by (rule prod.exhaust)
  obtain rest S2 where p: "purge_idle E now (inactive_connection_list (tasks S1 t)) S1 = (rest, S2)"
    by (rule prod.exhaust)
  note N = now_frame[OF now] and P = purge_idle_facts[OF p]
  note q = quietD[OF N(2)] and q2 = quietD[OF conjunct1[OF P]]
  have T: "T = upd_task t (\<lambda>e. e\<lparr>inactive_connection_list := rest\<rparr>) S2"
    using assms now p by (simp add: MaybePurgeTaskIdleConnections_def)
  have "quiet S S2" using N(2) P quiet_trans by blast
  then show "quiet S (T\<lparr>tasks := tasks S\<rparr>)"
    unfolding T quiet_def same_pool_def same_ids_def by (simp add: upd_task_def)
  have "idle_conn E S1 now = idle_conn E S now" by (rule ext) (simp add: idle_conn_def N(1))
  then have "tasks T = (tasks S)(t := (tasks S t)\<lparr>inactive_connection_list :=
       filter (\<lambda>p. \<not> idle_conn E S now p) (inactive_connection_list (tasks S t))\<rparr>)"
    using P q(2) q2(2) by (simp add: T upd_task_def)
  moreover have "now = fst (e_now E (world S))"
    using now by (auto simp: GetNowInUsecs_def split: prod.splits)
  ultimately show "\<exists>w. tasks T = (tasks S)(t := (tasks S t)\<lparr>inactive_connection_list :=
       filter (\<lambda>p. \<not> idle_conn E S (fst (e_now E w)) p) (inactive_connection_list (tasks S t))\<rparr>)"
    by auto
qed

text \<open>What the alarm does to one task.\<close>

definition alarm_effect :: "'w smb_env \<Rightarrow> 'w proxy \<Rightarrow> int \<Rightarrow> 'w proxy \<Rightarrow> addr \<Rightarrow> bool" where
  "alarm_effect E S now T t \<longleftrightarrow>
     (if idle_task E S now t then task_conns (tasks T t) = []
      else \<exists>w. tasks T t = (tasks S t)\<lparr>inactive_connection_list :=
             filter (\<lambda>p. \<not> idle_conn E S (fst (e_now E w)) p) (inactive_connection_list (tasks S t))\<rparr>)"

lemma alarm_tasks_facts:
  "\<lbrakk>alarm_tasks E now ts S = (rest, T); distinct (map snd ts)\<rbrakk> \<Longrightarrow>
   quiet S (T\<lparr>tasks := tasks S\<rparr>) \<and> rest = filter (\<lambda>kt. \<not> idle_task E S now (snd kt)) ts \<and>
   (\<forall>t. t \<notin> snd ` set ts \<longrightarrow> tasks T t = tasks S t) \<and> (\<forall>t\<in>snd ` set ts. alarm_effect E S now T t)"
proof (induction ts arbitrary: S rest)
  case (Cons kt ts)
  obtain k t where kt: "kt = (k, t)" by (rule prod.exhaust)
  have nt: "t \<notin> snd ` set ts" using Cons.prems(2) kt by simp
  define S1 where "S1 = (if idle_task E S now t then snd (PurgeTaskAndAllConnections E t True S)
    else MaybePurgeTaskIdleConnections E t S)"
  obtain r where r: "alarm_tasks E now ts S1 = (r, T)" "rest = (if idle_task E S now t then r else (k, t) # r)"
    using Cons.prems(1) kt by (cases "idle_task E S now t") (auto simp: S1_def idle_task_def split: prod.splits)
  have IH: "quiet S1 (T\<lparr>tasks := tasks S1\<rparr>)" "r = filter (\<lambda>kt. \<not> idle_task E S1 now (snd kt)) ts"
    "\<And>u. u \<notin> snd ` set ts \<Longrightarrow> tasks T u = tasks S1 u" "\<And>u. u \<in> snd ` set ts \<Longrightarrow> alarm_effect E S1 now T u"
    using Cons.IH[OF r(1)] Cons.prems(2) by auto
  have q1: "quiet S (S1\<lparr>tasks := tasks S\<rparr>)" and other: "\<And>u. u \<noteq> t \<Longrightarrow> tasks S1 u = tasks S u"
    and this_task: "alarm_effect E S now S1 t"
  proof -
    obtain e P where p: "PurgeTaskAndAllConnections E t True S = (e, P)" by (rule prod.exhaust)
    note F = Purge_shape[OF p] and M = MaybePurge_facts[where E = E and t = t and S = S, OF refl]
    show "quiet S (S1\<lparr>tasks := tasks S\<rparr>)" "\<And>u. u \<noteq> t \<Longrightarrow> tasks S1 u = tasks S u" "alarm_effect E S now S1 t"
      using p F M by (auto simp: S1_def alarm_effect_def task_conns_def)
  qed
  have ids: "conn_last_access_time_usecs (conns S1 p) = conn_last_access_time_usecs (conns S p)" for p
    using quietD(8)[OF q1] by simp
  have ic: "idle_conn E S1 = idle_conn E S" by (intro ext) (simp add: idle_conn_def ids)
  have it: "idle_task E S1 now u = idle_task E S now u" if "u \<noteq> t" for u
    using other[OF that] by (simp add: idle_task_def)
  have "quiet S (T\<lparr>tasks := tasks S\<rparr>)"
    using q1 IH(1) by (simp add: quiet_def same_pool_def same_ids_def)
  moreover have "filter (\<lambda>kt. \<not> idle_task E S1 now (snd kt)) ts = filter (\<lambda>kt. \<not> idle_task E S now (snd kt)) ts"
    using nt by (intro filter_cong refl) (metis image_eqI it)
  then have "rest = filter (\<lambda>kt. \<not> idle_task E S now (snd kt)) (kt # ts)"
    using r(2) IH(2) kt by simp
  moreover have "alarm_effect E S now T u" if "u \<in> snd ` set (kt # ts)" for u
  proof (cases "u = t")
    case True
    with this_task IH(3)[OF nt] show ?thesis by (simp add: alarm_effect_def)
  next
    case False
    with that kt have "alarm_effect E S1 now T u" by (intro IH(4)) auto
    then show ?thesis unfolding alarm_effect_def ic it[OF False] other[OF False] .
  qed
  ultimately show ?case using IH(3) other kt by auto
qed (simp add: quiet_refl)

lemma AlarmPurge_facts:
  assumes ok: "pool_ok E S"
  obtains now where "now = fst (e_now E (world S))" "pool_ok E (AlarmPurge E S)"
    "task_cache_map (AlarmPurge E S) = filter (\<lambda>kt. \<not> idle_task E S now (snd kt)) (task_cache_map S)"
    "\<And>k t. (k, t) \<in> set (task_cache_map S) \<Longrightarrow> alarm_effect E S now (AlarmPurge E S) t"
    "conn_next (AlarmPurge E S) = conn_next S"
    "\<And>q. creation_time_usecs (conns (AlarmPurge E S) q) = creation_time_usecs (conns S q)"
    "file_handles_map (AlarmPurge E S) =
       filter (\<lambda>(k, a). fhs_last_access_time_usecs (fhes S a) \<ge> now - kNumUsecsInHour) (file_handles_map S)"
proof -
  obtain now S1 where now: "GetNowInUsecs E S = (now, S1)" by (rule prod.exhaust)
  note N = now_frame[OF now] and q = quietD[OF now_frame(2)[OF now]]
  obtain rest S2 where a: "alarm_tasks E now (task_cache_map S1) S1 = (rest, S2)" by (rule prod.exhaust)
  have T: "AlarmPurge E S = alarm_fhes now (S2\<lparr>task_cache_map := rest\<rparr>)"
    using now a by (simp add: AlarmPurge_def)
  have d: "distinct (map snd (task_cache_map S1))" using pool_okD(2)[OF ok] q(1) by simp
  note A = alarm_tasks_facts[OF a d]
  note q2 = quietD[OF conjunct1[OF A]]
  have it: "idle_task E S1 now = idle_task E S now" by (rule ext) (simp add: idle_task_def q)
  have ic: "idle_conn E S1 = idle_conn E S" by (intro ext) (simp add: idle_conn_def N(1))
  have tcm: "task_cache_map (AlarmPurge E S) = filter (\<lambda>kt. \<not> idle_task E S now (snd kt)) (task_cache_map S)"
    using A q(1) by (simp add: T alarm_fhes_def it)
  have eff: "alarm_effect E S now (AlarmPurge E S) t" if "(k, t) \<in> set (task_cache_map S)" for k t
  proof -
    have "alarm_effect E S1 now S2 t" using A that q(1) by force
    then show ?thesis unfolding alarm_effect_def it ic q(2) T alarm_fhes_def by simp
  qed
  have fr: "task_next (AlarmPurge E S) = task_next S" "conn_next (AlarmPurge E S) = conn_next S"
    "creation_time_usecs (conns (AlarmPurge E S) p) = creation_time_usecs (conns S p)"
    "dir_handle (conns (AlarmPurge E S) p) = dir_handle (conns S p)" for p
    using q q2 by (simp_all add: T alarm_fhes_def)
  have "pool_ok E (AlarmPurge E S)"
  proof (rule pool_ok_shrink[OF ok tcm fr(1,2)])
    fix k t
    assume t: "(k, t) \<in> set (task_cache_map S)" "\<not> idle_task E S now (snd (k, t))"
    from eff[OF t(1)] t(2) obtain w where
      "tasks (AlarmPurge E S) t = (tasks S t)\<lparr>inactive_connection_list :=
             filter (\<lambda>p. \<not> idle_conn E S (fst (e_now E w)) p) (inactive_connection_list (tasks S t))\<rparr>"
      by (auto simp: alarm_effect_def)
    then show "\<exists>Q R. active_connection_map (tasks (AlarmPurge E S) t) = filter Q (active_connection_map (tasks S t)) \<and>
        inactive_connection_list (tasks (AlarmPurge E S) t) = filter R (inactive_connection_list (tasks S t))"
      by (intro exI[of _ "\<lambda>_. True"] exI[of _ "\<lambda>p. \<not> idle_conn E S (fst (e_now E w)) p"]) simp
  qed (simp add: fr)
  moreover have "now = fst (e_now E (world S))"
    using now by (auto simp: GetNowInUsecs_def split: prod.splits)
  moreover have "file_handles_map (AlarmPurge E S) =
       filter (\<lambda>(k, a). fhs_last_access_time_usecs (fhes S a) \<ge> now - kNumUsecsInHour) (file_handles_map S)"
    using q q2 by (simp add: T alarm_fhes_def)
  ultimately show ?thesis using that tcm eff fr by blast
qed


definition sample_arg :: SmbProxyBaseArg where
  "sample_arg =
     \<lparr>task_key = ''job'', server = ''10.0.0.1'', share = ''/share'', username = ''u'', password = ''p'',
      domain_name = ''d'', root_dir = [], continue_on_error = False, skip_metadata_vec = [],
      populate_root_dir = False\<rparr>"

text \<open>One task with one active connection.\<close>

definition sample_proxy :: "sample proxy" where
  "sample_proxy = snd (GetOrCreate sample_env sample_arg (proxy_init sample_world))"

lemma GetOrCreate_pool_ok:
  assumes ok: "pool_ok E S" and f: "GetOrCreateSmbConnection E arg h ct cf S = ((po, e), T)"
  shows "pool_ok E T"
proof -
  obtain t S1 where t: "find_task E arg S = (t, S1)" by (rule prod.exhaust)
  note F = find_task_facts[OF ok t]
  have c: "checkout E arg h ct cf t S1 = ((po, e), T)" using f t by (simp add: GetOrCreateSmbConnection_def)
  show ?thesis
  proof (cases "ct = -1")
    case True
    with checkout_facts[OF F(1) live_task[OF F(2)]] c show ?thesis by blast
  next
    case False
    from checkout_cookie_facts(1)[OF F(1) live_task[OF F(2)] this c] show ?thesis .
  qed
qed

lemma sample_proxy_ok: "pool_ok sample_env sample_proxy"
proof -
  obtain po e T where g: "GetOrCreate sample_env sample_arg (proxy_init sample_world) = ((po, e), T)"
    by (rule pair_fstE)
  from GetOrCreate_pool_ok[OF pool_ok_init g] g show ?thesis by (simp add: sample_proxy_def)
qed


end
