(* ===== verification/File_Handles.thy ===== *)
theory File_Handles
  imports Conn_Pool
begin

text \<open>
  The file handles a connection keeps open: \<open>UpdateFileHandle\<close> and \<open>PurgeFileHandle\<close> of
  \<open>smb_proxy.cc\<close>. Each connection has a list of handles, least recently used first, and a map of
  iterators into it. The list of a connection implements the bounded cache of \<open>Node_List\<close>
  (interpretation \<open>fh\<close>), with the flag \<open>smb_proxy_max_fh_cache_size\<close> as its capacity.
\<close>

subsection \<open>Effect on the connection object\<close>

definition push_handle :: "string \<Rightarrow> uint16 \<Rightarrow> SmbConnection \<Rightarrow> SmbConnection" where
  "push_handle path fnum c =
     (let l = (case map_of (fh_lru_map c) path of
                 Some it \<Rightarrow> nl_erase it (fh_lru_list c) | None \<Rightarrow> fh_lru_list c);
          it = fh_next_node c
      in c\<lparr>fh_lru_list := l @ [(it, \<lparr>fh_path = path, fh_fnum = fnum\<rparr>)],
           fh_lru_map := AList.update path it (fh_lru_map c), fh_next_node := Suc it\<rparr>)"

definition pop_handle :: "SmbConnection \<Rightarrow> SmbConnection" where
  "pop_handle c =
     c\<lparr>fh_lru_map := AList.delete (fh_path (snd (hd (fh_lru_list c)))) (fh_lru_map c),
       fh_lru_list := tl (fh_lru_list c)\<rparr>"

definition forget_handle :: "string \<Rightarrow> SmbConnection \<Rightarrow> SmbConnection" where
  "forget_handle path c =
     (case map_of (fh_lru_map c) path of
        None \<Rightarrow> c
      | Some it \<Rightarrow> c\<lparr>fh_lru_list := nl_erase it (fh_lru_list c),
                     fh_lru_map := AList.delete path (fh_lru_map c)\<rparr>)"

subsection \<open>The operations\<close>

text \<open>The eviction loop; each round drops one entry, so the length of the list bounds the rounds. A
  failed close is only logged; the entry must be in the map (\<^verbatim>\<open>CHECK\<close>).\<close>

fun evict_handles :: "'w smb_env \<Rightarrow> addr \<Rightarrow> nat \<Rightarrow> 'w proxy \<Rightarrow> 'w proxy option" where
  "evict_handles E p 0 S = Some S"
| "evict_handles E p (Suc n) S =
     (if length (fh_lru_list (conns S p)) > unat (smb_proxy_max_fh_cache_size (e_flags E))
      then let h = snd (hd (fh_lru_list (conns S p)));
               S = snd (on_conn p (e_close_fnum E (fh_fnum h) p) S)
           in do { CHECK (map_of (fh_lru_map (conns S p)) (fh_path h) \<noteq> None);
                   evict_handles E p n (upd_conn p pop_handle S) }
      else Some S)"

definition UpdateFileHandle :: "'w smb_env \<Rightarrow> string \<Rightarrow> uint16 \<Rightarrow> addr \<Rightarrow> 'w proxy \<Rightarrow> 'w proxy option" where
  "UpdateFileHandle E path fnum p S =
     (let S = upd_conn p (push_handle path fnum) S
      in evict_handles E p (length (fh_lru_list (conns S p))) S)"

definition purge_conn_file_handle :: "'w smb_env \<Rightarrow> string \<Rightarrow> addr \<Rightarrow> 'w proxy \<Rightarrow> 'w proxy" where
  "purge_conn_file_handle E path p S =
     (case map_of (fh_lru_map (conns S p)) path of
        None \<Rightarrow> S
      | Some it \<Rightarrow>
          upd_conn p (forget_handle path)
            (snd (on_conn p (e_close_fnum E (fh_fnum (nl_get it (fh_lru_list (conns S p)))) p) S)))"

definition PurgeFileHandle :: "'w smb_env \<Rightarrow> string \<Rightarrow> string \<Rightarrow> 'w proxy \<Rightarrow> 'w proxy" where
  "PurgeFileHandle E key path S =
     (case map_of (task_cache_map S) key of
        None \<Rightarrow> S
      | Some t \<Rightarrow>
          let S = fold (purge_conn_file_handle E path) (map snd (active_connection_map (tasks S t))) S
          in fold (purge_conn_file_handle E path) (inactive_connection_list (tasks S t)) S)"

text \<open>The handle cached for a path, if the caller wants caching at all.\<close>

definition cached_fnum :: "'w smb_env \<Rightarrow> string \<Rightarrow> bool \<Rightarrow> SmbConnection \<Rightarrow> uint16 option" where
  "cached_fnum E path cache_handle c =
     (if cache_handle
      then Some (case map_of (fh_lru_map c) path of
                   Some it \<Rightarrow> fh_fnum (nl_get it (fh_lru_list c)) | None \<Rightarrow> e_invalid_fnum E)
      else None)"

subsection \<open>Agreement of list and map\<close>

definition fh_agree :: "SmbConnection \<Rightarrow> bool" where
  "fh_agree c \<longleftrightarrow> index_ok fh_path (fh_lru_map c) (fh_lru_list c) (fh_next_node c)"

abbreviation fh_max :: "'w smb_env \<Rightarrow> nat" where
  "fh_max E \<equiv> unat (smb_proxy_max_fh_cache_size (e_flags E))"

definition fh_inv :: "'w smb_env \<Rightarrow> SmbConnection \<Rightarrow> bool" where
  "fh_inv E c \<longleftrightarrow> fh_agree c \<and> length (fh_lru_list c) \<le> fh_max E"

definition fh_entry :: "FileHandle \<Rightarrow> string \<times> uint16" where
  "fh_entry h = (fh_path h, fh_fnum h)"

definition fh_abs :: "SmbConnection \<Rightarrow> (string \<times> uint16) list" where
  "fh_abs c = rev (map (fh_entry \<circ> snd) (fh_lru_list c))"

definition fh_find :: "string \<Rightarrow> SmbConnection \<Rightarrow> uint16 option" where
  "fh_find path c =
     (case map_of (fh_lru_map c) path of
        None \<Rightarrow> None | Some it \<Rightarrow> Some (fh_fnum (nl_get it (fh_lru_list c))))"

text \<open>What \<open>UpdateFileHandle\<close> does to the object: push, then pop down to the capacity.\<close>

definition remember_handle :: "'w smb_env \<Rightarrow> string \<Rightarrow> uint16 \<Rightarrow> SmbConnection \<Rightarrow> SmbConnection" where
  "remember_handle E path fnum c =
     (let c = push_handle path fnum c
      in (pop_handle ^^ (length (fh_lru_list c) - fh_max E)) c)"

lemma fh_entry_fst: "fst \<circ> fh_entry = fh_path"
  by (auto simp: fh_entry_def)

lemma fh_abs_distinct: "fh_agree c \<Longrightarrow> distinct (map fst (fh_abs c))"
  using index_okD(2)[of fh_path "fh_lru_map c" "fh_lru_list c" "fh_next_node c"]
  by (simp add: fh_agree_def fh_abs_def rev_map[symmetric] comp_assoc[symmetric] fh_entry_fst)

lemma fh_find_abs:
  assumes "fh_agree c"
  shows "fh_find path c = map_of (fh_abs c) path"
proof (cases "map_of (fh_lru_map c) path")
  case None
  then have "path \<notin> (fh_path \<circ> snd) ` set (fh_lru_list c)"
    using index_ok_find_None[OF assms[unfolded fh_agree_def], of path] by simp
  then have "path \<notin> fst ` set (fh_abs c)"
    by (simp add: fh_abs_def image_image fh_entry_def comp_def)
  with None show ?thesis by (simp add: fh_find_def map_of_eq_None_iff[symmetric])
next
  case (Some it)
  obtain a where a: "(it, a) \<in> set (fh_lru_list c)" "fh_path a = path"
    using Some unfolding index_ok_find[OF assms[unfolded fh_agree_def]] by blast
  have "nl_get it (fh_lru_list c) = a" by (rule index_ok_get[OF assms[unfolded fh_agree_def] a(1)])
  moreover have "(path, fh_fnum a) \<in> set (fh_abs c)" using a by (force simp: fh_abs_def fh_entry_def)
  ultimately show ?thesis using Some fh_abs_distinct[OF assms] by (simp add: fh_find_def)
qed

lemma rev_filter_abs:
  "rev (map (fh_entry \<circ> snd) (filter (\<lambda>n. fh_path (snd n) \<noteq> path) l)) =
   filter (\<lambda>q. fst q \<noteq> path) (rev (map (fh_entry \<circ> snd) l))"
  by (simp add: rev_filter[symmetric] filter_map comp_def fh_entry_def rev_map[symmetric])

lemma push_facts:
  assumes "fh_agree c"
  shows "fh_agree (push_handle path fnum c)"
    "fh_abs (push_handle path fnum c) = (path, fnum) # filter (\<lambda>q. fst q \<noteq> path) (fh_abs c)"
proof -
  note ok = assms[unfolded fh_agree_def]
  let ?h = "\<lparr>fh_path = path, fh_fnum = fnum\<rparr>" and ?it = "fh_next_node c"
  let ?m = "AList.update path ?it (fh_lru_map c)"
  let ?l = "case map_of (fh_lru_map c) path of Some it \<Rightarrow> nl_erase it (fh_lru_list c) | None \<Rightarrow> fh_lru_list c"
  have m: "set ?m = insert (path, ?it) (set (AList.delete path (fh_lru_map c)))" "keys_distinct ?m"
    using index_okD(3)[OF ok] by (simp_all add: set_update distinct_update)
  have l: "?l = filter (\<lambda>n. fh_path (snd n) \<noteq> path) (fh_lru_list c)"
  proof (cases "map_of (fh_lru_map c) path")
    case None
    then have "\<forall>n\<in>set (fh_lru_list c). fh_path (snd n) \<noteq> path"
      using index_ok_find_None[OF ok, of path] by auto
    with None show ?thesis by (simp add: filter_id_conv)
  next
    case (Some it)
    with nl_erase_key[OF ok Some] show ?thesis by simp
  qed
  have del: "index_ok fh_path (AList.delete path (fh_lru_map c)) ?l ?it"
  proof (cases "map_of (fh_lru_map c) path")
    case None
    then have "AList.delete path (fh_lru_map c) = fh_lru_map c"
      by (simp add: delete_id map_of_eq_None_iff)
    with ok None show ?thesis by simp
  next
    case (Some it)
    with index_ok_erase[OF ok Some] show ?thesis by simp
  qed
  have "index_ok fh_path ?m (?l @ [(?it, ?h)]) (Suc ?it)"
    by (rule index_ok_push[OF del]) (use m in auto)
  then show "fh_agree (push_handle path fnum c)" by (simp add: push_handle_def fh_agree_def Let_def)
  show "fh_abs (push_handle path fnum c) = (path, fnum) # filter (\<lambda>q. fst q \<noteq> path) (fh_abs c)"
    using rev_filter_abs[of path "fh_lru_list c"] l by (simp add: push_handle_def fh_abs_def Let_def fh_entry_def)
qed

lemma pop_facts:
  assumes "fh_agree c" "fh_lru_list c \<noteq> []"
  shows "fh_agree (pop_handle c)" "fh_abs (pop_handle c) = butlast (fh_abs c)"
    "map_of (fh_lru_map c) (fh_path (snd (hd (fh_lru_list c)))) \<noteq> None"
proof -
  note ok = assms(1)[unfolded fh_agree_def]
  obtain i h l where l: "fh_lru_list c = (i, h) # l" using assms(2) by (cases "fh_lru_list c") auto
  have k: "map_of (fh_lru_map c) (fh_path h) = Some i" using l by (auto simp: index_ok_find[OF ok])
  then show "map_of (fh_lru_map c) (fh_path (snd (hd (fh_lru_list c)))) \<noteq> None" by (simp add: l)
  have "nl_erase i (fh_lru_list c) = l"
    using index_okD(1)[OF ok] by (auto simp: l nl_erase_def filter_id_conv rev_image_eqI)
  with index_ok_erase[OF ok k] show "fh_agree (pop_handle c)" by (simp add: fh_agree_def pop_handle_def l)
  show "fh_abs (pop_handle c) = butlast (fh_abs c)" by (simp add: fh_abs_def pop_handle_def l)
qed

text \<open>Popping \<open>n\<close> entries drops the \<open>n\<close> least recent ones.\<close>

lemma pop_n_facts:
  assumes "fh_agree c" "n \<le> length (fh_lru_list c)"
  shows "fh_agree ((pop_handle ^^ n) c)" "fh_lru_list ((pop_handle ^^ n) c) = drop n (fh_lru_list c)"
    "fh_abs ((pop_handle ^^ n) c) = take (length (fh_abs c) - n) (fh_abs c)"
proof -
  have l: "fh_lru_list ((pop_handle ^^ m) c) = drop m (fh_lru_list c)" for m
    by (induction m) (simp_all add: pop_handle_def drop_Suc tl_drop)
  have "fh_agree ((pop_handle ^^ n) c)" using assms(2)
  proof (induction n)
    case (Suc n)
    then show ?case using l[of n] by (simp add: pop_facts(1))
  qed (simp add: assms(1))
  then show "fh_agree ((pop_handle ^^ n) c)" .
  show "fh_lru_list ((pop_handle ^^ n) c) = drop n (fh_lru_list c)" by (rule l)
  show "fh_abs ((pop_handle ^^ n) c) = take (length (fh_abs c) - n) (fh_abs c)"
    by (simp add: fh_abs_def l drop_map[symmetric] rev_drop)
qed

lemma remember_facts:
  assumes "fh_agree c"
  shows "fh_inv E (remember_handle E path fnum c)"
    "fh_abs (remember_handle E path fnum c) = lru_insert (fh_max E) path fnum (fh_abs c)"
proof -
  let ?c = "push_handle path fnum c"
  note p = push_facts[OF assms, of path fnum]
  have len: "length (fh_abs ?c) = length (fh_lru_list ?c)" by (simp add: fh_abs_def)
  note n = pop_n_facts[OF p(1), of "length (fh_lru_list ?c) - fh_max E"]
  show "fh_inv E (remember_handle E path fnum c)"
    using n(1,2) by (simp add: fh_inv_def remember_handle_def Let_def)
  show "fh_abs (remember_handle E path fnum c) = lru_insert (fh_max E) path fnum (fh_abs c)"
    unfolding lru_insert_def p(2)[symmetric] using n(3) len
    by (cases "fh_max E \<le> length (fh_lru_list ?c)") (simp_all add: remember_handle_def Let_def)
qed

lemma forget_facts:
  assumes "fh_agree c"
  shows "fh_agree (forget_handle path c)" "fh_abs (forget_handle path c) = lru_remove path (fh_abs c)"
    "length (fh_lru_list (forget_handle path c)) \<le> length (fh_lru_list c)"
proof -
  note ok = assms[unfolded fh_agree_def]
  have "fh_agree (forget_handle path c) \<and> fh_abs (forget_handle path c) = lru_remove path (fh_abs c)"
  proof (cases "map_of (fh_lru_map c) path")
    case None
    then have "path \<notin> (fh_path \<circ> snd) ` set (fh_lru_list c)" by (simp add: index_ok_find_None[OF ok])
    then have "\<forall>q\<in>set (fh_abs c). fst q \<noteq> path" by (auto simp: fh_abs_def fh_entry_def)
    with None assms show ?thesis by (simp add: forget_handle_def lru_remove_def filter_id_conv)
  next
    case (Some it)
    with index_ok_erase[OF ok Some] nl_erase_key[OF ok Some] rev_filter_abs[of path "fh_lru_list c"]
    show ?thesis by (simp add: forget_handle_def fh_agree_def fh_abs_def lru_remove_def)
  qed
  then show "fh_agree (forget_handle path c)" "fh_abs (forget_handle path c) = lru_remove path (fh_abs c)"
    by simp_all
  show "length (fh_lru_list (forget_handle path c)) \<le> length (fh_lru_list c)"
    by (simp add: forget_handle_def nl_erase_def split: option.split)
qed

interpretation fh: bounded_cache "fh_inv E" fh_abs "\<lambda>_. fh_max E" "remember_handle E" forget_handle fh_find
  for E :: "'w smb_env"
proof unfold_locales
  fix c path fnum
  assume "fh_inv E c"
  then have ok: "fh_agree c" and len: "length (fh_lru_list c) \<le> fh_max E" by (simp_all add: fh_inv_def)
  show "distinct (map fst (fh_abs c))" by (rule fh_abs_distinct[OF ok])
  show "length (fh_abs c) \<le> fh_max E" using len by (simp add: fh_abs_def)
  show "fh_inv E (remember_handle E path fnum c)" by (rule remember_facts[OF ok])
  show "fh_abs (remember_handle E path fnum c) = lru_insert (fh_max E) path fnum (fh_abs c)"
    by (rule remember_facts[OF ok])
  show "fh_inv E (forget_handle path c)" using forget_facts[OF ok, of path] len by (simp add: fh_inv_def)
  show "fh_abs (forget_handle path c) = lru_remove path (fh_abs c)" by (rule forget_facts[OF ok])
  show "fh_find path c = map_of (fh_abs c) path" by (rule fh_find_abs[OF ok])
qed simp_all

subsection \<open>The operations on the proxy state\<close>

text \<open>Calls on a session change the context of the connection at most.\<close>

lemma on_conn_context:
  assumes "on_conn p f S = (r, T)"
  shows "\<exists>x. conns T p = (conns S p)\<lparr>conn_context := x\<rparr>"
  using assms by (auto simp: on_conn_def put_sess_def upd_conn_def split: prod.splits)

lemma pop_n_context: "(pop_handle ^^ n) (c\<lparr>conn_context := x\<rparr>) = ((pop_handle ^^ n) c)\<lparr>conn_context := x\<rparr>"
  by (induction n) (simp_all add: pop_handle_def)

text \<open>\<open>T\<close> differs from \<open>S\<close> in the handles and the context of one connection only.\<close>

definition handles_only :: "addr \<Rightarrow> 'w proxy \<Rightarrow> 'w proxy \<Rightarrow> bool" where
  "handles_only p S T \<longleftrightarrow> quiet S T \<and> (\<forall>q. q \<noteq> p \<longrightarrow> conns T q = conns S q)"

lemma handles_only_trans: "handles_only p S T \<Longrightarrow> handles_only p T U \<Longrightarrow> handles_only p S U"
  unfolding handles_only_def using quiet_trans by metis

lemma handles_only_on_conn: "on_conn p f S = (r, T) \<Longrightarrow> handles_only p S T"
  by (simp add: handles_only_def quiet_on_conn on_conn_other)

lemma quiet_upd_conn:
  assumes "creation_time_usecs (f (conns S p)) = creation_time_usecs (conns S p)"
    "conn_last_access_time_usecs (f (conns S p)) = conn_last_access_time_usecs (conns S p)"
    "dir_handle (f (conns S p)) = dir_handle (conns S p)"
    "children_fetched (f (conns S p)) = children_fetched (conns S p)"
  shows "handles_only p S (upd_conn p f S)"
  using assms by (auto simp: handles_only_def quiet_def same_pool_def same_ids_def upd_conn_def)

lemma handles_only_pop: "handles_only p S (upd_conn p pop_handle S)"
  by (rule quiet_upd_conn) (simp_all add: pop_handle_def)

lemma handles_only_push: "handles_only p S (upd_conn p (push_handle path fnum) S)"
  by (rule quiet_upd_conn) (simp_all add: push_handle_def Let_def)

lemma handles_only_forget: "handles_only p S (upd_conn p (forget_handle path) S)"
  by (rule quiet_upd_conn) (simp_all add: forget_handle_def split: option.split)

lemma fh_agree_context [simp]: "fh_agree (c\<lparr>conn_context := x\<rparr>) = fh_agree c"
  by (simp add: fh_agree_def)

lemma fh_abs_context [simp]: "fh_abs (c\<lparr>conn_context := x\<rparr>) = fh_abs c"
  by (simp add: fh_abs_def)

lemma fh_find_context [simp]: "fh_find path (c\<lparr>conn_context := x\<rparr>) = fh_find path c"
  by (simp add: fh_find_def split: option.split)

lemma fh_inv_context [simp]: "fh_inv E (c\<lparr>conn_context := x\<rparr>) = fh_inv E c"
  by (simp add: fh_inv_def)

lemma conns_upd_conn [simp]: "conns (upd_conn p f S) p = f (conns S p)"
  by (simp add: upd_conn_def)

lemma fh_evict_facts:
  assumes "fh_agree (conns S p)" "length (fh_lru_list (conns S p)) \<le> n"
  shows "\<exists>T x. evict_handles E p n S = Some T \<and> handles_only p S T \<and> conns T p =
     ((pop_handle ^^ (length (fh_lru_list (conns S p)) - fh_max E)) (conns S p))\<lparr>conn_context := x\<rparr>"
  using assms
proof (induction n arbitrary: S)
  case 0
  then show ?case
    by (auto simp: handles_only_def quiet_refl intro!: exI[of _ "conn_context (conns S p)"])
next
  case (Suc n)
  let ?c = "conns S p"
  show ?case
  proof (cases "length (fh_lru_list ?c) > fh_max E")
    case False
    then show ?thesis
      by (auto simp: handles_only_def quiet_refl intro!: exI[of _ "conn_context ?c"])
  next
    case True
    let ?h = "snd (hd (fh_lru_list ?c))"
    obtain r S1 where S1: "on_conn p (e_close_fnum E (fh_fnum ?h) p) S = (r, S1)" by (rule prod.exhaust)
    obtain x where x: "conns S1 p = ?c\<lparr>conn_context := x\<rparr>" using on_conn_context[OF S1] by blast
    let ?S2 = "upd_conn p pop_handle S1"
    have ne: "fh_lru_list ?c \<noteq> []" using True by auto
    note pop = pop_facts[OF Suc.prems(1) ne]
    have c2: "conns ?S2 p = (pop_handle ?c)\<lparr>conn_context := x\<rparr>" using pop_n_context[of 1 x ?c] x by simp
    have l2: "length (fh_lru_list (conns ?S2 p)) = length (fh_lru_list ?c) - 1"
      unfolding c2 by (simp add: pop_handle_def)
    have ag: "fh_agree (conns ?S2 p)" unfolding c2 using pop(1) by simp
    have len: "length (fh_lru_list ?c) - 1 \<le> n" using Suc.prems(2) by simp
    obtain T y where T: "evict_handles E p n ?S2 = Some T" "handles_only p ?S2 T"
      "conns T p = ((pop_handle ^^ (length (fh_lru_list ?c) - 1 - fh_max E)) (conns ?S2 p))\<lparr>conn_context := y\<rparr>"
      using Suc.IH[OF ag, unfolded l2, OF len] by blast
    have k: "length (fh_lru_list ?c) - fh_max E = Suc (length (fh_lru_list ?c) - 1 - fh_max E)"
      using True by simp
    have "conns T p = ((pop_handle ^^ (length (fh_lru_list ?c) - fh_max E)) ?c)\<lparr>conn_context := y\<rparr>"
      unfolding k T(3) c2 pop_n_context by (simp add: funpow_swap1)
    moreover have "handles_only p S T"
      by (rule handles_only_trans[OF handles_only_on_conn[OF S1] handles_only_trans[OF handles_only_pop T(2)]])
    moreover have "evict_handles E p (Suc n) S = Some T" using True pop(3) T(1) by (simp add: S1 x)
    ultimately show ?thesis by blast
  qed
qed

lemma UpdateFileHandle_facts:
  assumes "fh_agree (conns S p)"
  shows "\<exists>T x. UpdateFileHandle E path fnum p S = Some T \<and> handles_only p S T \<and>
     conns T p = (remember_handle E path fnum (conns S p))\<lparr>conn_context := x\<rparr>"
proof -
  let ?S = "upd_conn p (push_handle path fnum) S"
  have "fh_agree (conns ?S p)" using push_facts(1)[OF assms] by simp
  from fh_evict_facts[OF this order.refl, of E] obtain T x where
    "UpdateFileHandle E path fnum p S = Some T" "handles_only p ?S T"
    "conns T p = (remember_handle E path fnum (conns S p))\<lparr>conn_context := x\<rparr>"
    by (auto simp: UpdateFileHandle_def remember_handle_def Let_def)
  then show ?thesis using handles_only_trans[OF handles_only_push] by blast
qed

lemma purge_conn_facts:
  "handles_only p S (purge_conn_file_handle E path p S)"
  "\<exists>x. conns (purge_conn_file_handle E path p S) p = (forget_handle path (conns S p))\<lparr>conn_context := x\<rparr>"
proof -
  have "handles_only p S (purge_conn_file_handle E path p S) \<and>
    (\<exists>x. conns (purge_conn_file_handle E path p S) p = (forget_handle path (conns S p))\<lparr>conn_context := x\<rparr>)"
  proof (cases "map_of (fh_lru_map (conns S p)) path")
    case None
    then show ?thesis
      by (auto simp: purge_conn_file_handle_def handles_only_def quiet_refl forget_handle_def
          intro!: exI[of _ "conn_context (conns S p)"])
  next
    case (Some it)
    obtain r S1 where S1:
      "on_conn p (e_close_fnum E (fh_fnum (nl_get it (fh_lru_list (conns S p)))) p) S = (r, S1)"
      by (rule prod.exhaust)
    obtain x where x: "conns S1 p = (conns S p)\<lparr>conn_context := x\<rparr>" using on_conn_context[OF S1] by blast
    have "purge_conn_file_handle E path p S = upd_conn p (forget_handle path) S1"
      using Some by (simp add: purge_conn_file_handle_def S1)
    moreover have "conns (upd_conn p (forget_handle path) S1) p =
        (forget_handle path (conns S p))\<lparr>conn_context := x\<rparr>"
      using Some by (simp add: x forget_handle_def)
    ultimately show ?thesis using handles_only_trans[OF handles_only_on_conn[OF S1] handles_only_forget] by metis
  qed
  then show "handles_only p S (purge_conn_file_handle E path p S)"
    "\<exists>x. conns (purge_conn_file_handle E path p S) p = (forget_handle path (conns S p))\<lparr>conn_context := x\<rparr>"
    by simp_all
qed

lemma fold_purge_facts:
  assumes "distinct ps"
  shows "quiet S (fold (purge_conn_file_handle E path) ps S) \<and>
    (\<forall>q. q \<notin> set ps \<longrightarrow> conns (fold (purge_conn_file_handle E path) ps S) q = conns S q) \<and>
    (\<forall>q\<in>set ps. \<exists>x. conns (fold (purge_conn_file_handle E path) ps S) q =
       (forget_handle path (conns S q))\<lparr>conn_context := x\<rparr>)"
  using assms
proof (induction ps arbitrary: S)
  case (Cons p ps)
  let ?S1 = "purge_conn_file_handle E path p S"
  note p = purge_conn_facts[where p = p and S = S and E = E and path = path]
  have o: "conns ?S1 q = conns S q" if "q \<noteq> p" for q using p(1) that by (simp add: handles_only_def)
  have IH: "quiet ?S1 (fold (purge_conn_file_handle E path) ps ?S1)"
    "\<And>q. q \<notin> set ps \<Longrightarrow> conns (fold (purge_conn_file_handle E path) ps ?S1) q = conns ?S1 q"
    "\<And>q. q \<in> set ps \<Longrightarrow> \<exists>x. conns (fold (purge_conn_file_handle E path) ps ?S1) q =
       (forget_handle path (conns ?S1 q))\<lparr>conn_context := x\<rparr>"
    using Cons.IH[of ?S1] Cons.prems by auto
  show ?case
  proof (intro conjI allI impI ballI)
    show "quiet S (fold (purge_conn_file_handle E path) (p # ps) S)"
      using quiet_trans[OF _ IH(1)] p(1) by (simp add: handles_only_def)
    fix q
    show "conns (fold (purge_conn_file_handle E path) (p # ps) S) q = conns S q" if "q \<notin> set (p # ps)"
      using IH(2)[of q] o[of q] that by simp
    show "\<exists>x. conns (fold (purge_conn_file_handle E path) (p # ps) S) q =
       (forget_handle path (conns S q))\<lparr>conn_context := x\<rparr>" if q: "q \<in> set (p # ps)"
    proof (cases "q = p")
      case True
      then show ?thesis using IH(2)[of q] p(2) Cons.prems by simp
    next
      case False
      then show ?thesis using IH(3)[of q] o[of q] q by simp
    qed
  qed
qed (simp add: quiet_refl)

lemma PurgeFileHandle_facts:
  assumes ok: "pool_ok E S" and t: "map_of (task_cache_map S) key = Some t"
  shows "quiet S (PurgeFileHandle E key path S) \<and>
    (\<forall>q. q \<notin> set (task_conns (tasks S t)) \<longrightarrow> conns (PurgeFileHandle E key path S) q = conns S q) \<and>
    (\<forall>q\<in>set (task_conns (tasks S t)). \<exists>x. conns (PurgeFileHandle E key path S) q =
       (forget_handle path (conns S q))\<lparr>conn_context := x\<rparr>)"
proof -
  have d: "distinct (task_conns (tasks S t))" by (rule task_distinct[OF ok live_task[OF t]])
  let ?A = "map snd (active_connection_map (tasks S t))"
  have q: "tasks (fold (purge_conn_file_handle E path) ?A S) = tasks S"
    using fold_purge_facts[of ?A S E path] d by (simp add: task_conns_def quietD)
  have "PurgeFileHandle E key path S = fold (purge_conn_file_handle E path) (task_conns (tasks S t)) S"
    using q by (simp add: PurgeFileHandle_def t task_conns_def Let_def)
  with fold_purge_facts[OF d, of S E path] show ?thesis by simp
qed

subsection \<open>Properties\<close>

text \<open>C22. Remembering a handle never fails its internal check: when list and map of the connection's
  handle cache agree, \<open>UpdateFileHandle\<close> returns, the cache afterwards holds the handle as its most
  recent entry and at most \<open>smb_proxy_max_fh_cache_size\<close> entries, the least recently used ones having
  been dropped, list and map still agree, and nothing else of the proxy changes.\<close>

theorem UpdateFileHandle_lru:
  assumes "fh_agree (conns S p)"
  shows "\<exists>T. UpdateFileHandle E path fnum p S = Some T \<and> fh_inv E (conns T p) \<and>
    fh_abs (conns T p) =
      take (fh_max E) ((path, fnum) # filter (\<lambda>q. fst q \<noteq> path) (fh_abs (conns S p))) \<and>
    (0 < fh_max E \<longrightarrow> cached_fnum E path True (conns T p) = Some fnum) \<and> handles_only p S T"
proof -
  obtain T x where T: "UpdateFileHandle E path fnum p S = Some T" "handles_only p S T"
    "conns T p = (remember_handle E path fnum (conns S p))\<lparr>conn_context := x\<rparr>"
    using UpdateFileHandle_facts[OF assms] by blast
  note r = remember_facts[OF assms, of E path fnum]
  have "cached_fnum E path True (conns T p) = Some fnum" if "0 < fh_max E"
  proof -
    have "fh_find path (conns T p) = Some fnum"
      using fh.find_abs[OF r(1)] r(2) lru_insert_facts(3)[OF fh_abs_distinct[OF assms] that]
      by (simp add: T(3))
    then show ?thesis by (auto simp: fh_find_def cached_fnum_def split: option.splits)
  qed
  with T r show ?thesis by (simp add: lru_insert_def)
qed

theorem UpdateFileHandle_lru_witness:
  "fh_agree (new_SmbConnection sample_env) \<and>
   (\<exists>T. UpdateFileHandle sample_env ''f'' 7 0
      ((proxy_init sample_world)\<lparr>conns := \<lambda>_. new_SmbConnection sample_env\<rparr>) = Some T \<and>
      fh_abs (conns T 0) = [(''f'', 7)])"
proof -
  let ?S = "(proxy_init sample_world)\<lparr>conns := \<lambda>_. new_SmbConnection sample_env\<rparr>"
  have a: "fh_agree (new_SmbConnection sample_env)" by (simp add: fh_agree_def new_SmbConnection_def index_ok_empty)
  then have "fh_agree (conns ?S 0)" by simp
  from UpdateFileHandle_lru[OF this, of sample_env "''f''" 7] a show ?thesis
    by (auto simp: fh_abs_def new_SmbConnection_def sample_env_def default_flags_def take_Cons')
qed

text \<open>C23. \<open>PurgeFileHandle\<close> closes and forgets the cached handles of one file on every connection of the
  task, active or inactive: none of them finds a handle for the path any more, all other handles and
  all other connections stay as they are, and the caches stay consistent.\<close>

theorem PurgeFileHandle_forgets:
  assumes "pool_ok E S" "map_of (task_cache_map S) key = Some t"
    "\<And>q. q \<in> set (task_conns (tasks S t)) \<Longrightarrow> fh_inv E (conns S q)"
  shows "quiet S (PurgeFileHandle E key path S) \<and>
    (\<forall>q\<in>set (task_conns (tasks S t)).
       fh_inv E (conns (PurgeFileHandle E key path S) q) \<and>
       fh_find path (conns (PurgeFileHandle E key path S) q) = None \<and>
       (\<forall>f. f \<noteq> path \<longrightarrow> fh_find f (conns (PurgeFileHandle E key path S) q) = fh_find f (conns S q))) \<and>
    (\<forall>q. q \<notin> set (task_conns (tasks S t)) \<longrightarrow> conns (PurgeFileHandle E key path S) q = conns S q)"
proof -
  let ?T = "PurgeFileHandle E key path S"
  note f = PurgeFileHandle_facts[OF assms(1,2), of path]
  have "fh_inv E (conns ?T q) \<and> fh_find path (conns ?T q) = None \<and>
      (\<forall>f. f \<noteq> path \<longrightarrow> fh_find f (conns ?T q) = fh_find f (conns S q))"
    if q: "q \<in> set (task_conns (tasks S t))" for q
  proof -
    obtain x where x: "conns ?T q = (forget_handle path (conns S q))\<lparr>conn_context := x\<rparr>"
      using f q by blast
    note i = assms(3)[OF q]
    show ?thesis using fh.rem_inv[OF i] fh.find_rem_same[OF i] fh.find_rem_other[OF i] by (simp add: x)
  qed
  with f show ?thesis by simp
qed

text \<open>The sample connection with a remembered handle.\<close>

definition sample_opened :: "sample proxy" where
  "sample_opened = upd_conn 0 (push_handle ''f'' 7) sample_proxy"

lemma sample_opened_facts:
  "map_of (task_cache_map sample_opened) ''job'' = Some 0" "task_conns (tasks sample_opened 0) = [0]"
  "fh_find ''f'' (conns sample_opened 0) = Some 7" "fh_lru_list (conns sample_proxy 0) = []"
  "fh_lru_map (conns sample_proxy 0) = []"
  by code_simp+

lemma sample_opened_ok: "pool_ok sample_env sample_opened" "fh_inv sample_env (conns sample_opened 0)"
proof -
  have "handles_only 0 sample_proxy sample_opened" unfolding sample_opened_def by (rule handles_only_push)
  then have "quiet sample_proxy sample_opened" by (simp add: handles_only_def)
  from pool_ok_quiet[OF this] sample_proxy_ok show "pool_ok sample_env sample_opened" by simp
  have "fh_agree (conns sample_proxy 0)" by (simp add: fh_agree_def sample_opened_facts index_ok_empty)
  then have "fh_agree (conns sample_opened 0)" by (simp add: sample_opened_def push_facts)
  moreover have "length (fh_lru_list (conns sample_opened 0)) \<le> fh_max sample_env"
    by (simp add: sample_opened_def push_handle_def Let_def sample_opened_facts sample_env_def default_flags_def)
  ultimately show "fh_inv sample_env (conns sample_opened 0)" by (simp add: fh_inv_def)
qed

theorem PurgeFileHandle_forgets_witness:
  "fh_find ''f'' (conns sample_opened 0) = Some 7 \<and>
   fh_find ''f'' (conns (PurgeFileHandle sample_env ''job'' ''f'' sample_opened) 0) = None"
proof -
  have "fh_inv sample_env (conns sample_opened q)" if "q \<in> set (task_conns (tasks sample_opened 0))" for q
    using that sample_opened_ok(2) by (simp add: sample_opened_facts)
  from PurgeFileHandle_forgets[OF sample_opened_ok(1) sample_opened_facts(1) this, of "''f''"]
  show ?thesis by (simp add: sample_opened_facts)
qed

end
