(* ===== verification/File_Read.thy ===== *)
theory File_Read
  imports File_Handles
begin

text \<open>
  Reading a range of a file: \<open>ReadBytesFromOffset\<close> with its retries, and the loop of
  \<open>SmbProxyFetchFileData\<close> that cuts a request into reads of the connection's maximal size. A read whose
  data is shorter than its reported size, a \<^verbatim>\<open>std::string::replace\<close> past the end of the buffer, a
  failed \<^verbatim>\<open>CHECK\<close> and a loop that never ends are \<open>None\<close>.
\<close>

subsection \<open>The operations\<close>

text \<open>How one attempt leaves the retry loop.\<close>

datatype verdict = LeaveNow | Succeeded | TryAgain

definition timeout_msecs :: "'w smb_env \<Rightarrow> int" where
  "timeout_msecs E = smb_proxy_file_read_write_timeout_secs (e_flags E) * kNumMsecsInSec"

text \<open>\<^verbatim>\<open>buf->replace(pos, n, data, n)\<close>.\<close>

definition buf_replace :: "nat \<Rightarrow> nat \<Rightarrow> string \<Rightarrow> string \<Rightarrow> string option" where
  "buf_replace pos n x buf =
     (if pos \<le> length buf \<and> n \<le> length x then Some (take pos buf @ take n x @ drop (pos + n) buf)
      else None)"

definition msg_fetch_mem :: "string \<Rightarrow> string" where
  "msg_fetch_mem m = ''Failed to create memory context when fetching file data, error msg: '' @ m"

definition msg_fetch :: "string \<Rightarrow> string \<Rightarrow> string" where
  "msg_fetch path m = ''Failed to fetch data for file '' @ path @ '', error msg: '' @ m"

definition msg_read_size :: "string \<Rightarrow> uint32 \<Rightarrow> uint32 \<Rightarrow> string" where
  "msg_read_size path sz n =
     ''Read size differs for file '' @ path @ '', requested size ['' @ to_string (uint sz) @
     ''], actual read size ['' @ to_string (uint n) @ '']''"

text \<open>One round of the loop: the read size, the error, the handle variable and the buffer.\<close>

definition read_once ::
  "'w smb_env \<Rightarrow> string \<Rightarrow> string \<Rightarrow> addr \<Rightarrow> uint64 \<Rightarrow> uint32 \<Rightarrow> nat \<Rightarrow> uint16 option \<Rightarrow> string \<Rightarrow>
   'w proxy \<Rightarrow> ((verdict \<times> uint32 \<times> Error \<times> uint16 option \<times> string) \<times> 'w proxy) option" where
  "read_once E path smb_path p off sz pos fnum buf S =
     (case e_talloc E (kNumBytesInMB + ucast sz) (world S) of
        (None, w) \<Rightarrow>
          Some ((LeaveNow, 0, mk_error kInvalid (msg_fetch_mem (error_msg (conn_context (conns S p)))),
                 fnum, buf), S\<lparr>world := w\<rparr>)
      | (Some m, w) \<Rightarrow>
          (case on_conn p (e_fetch_file_data E smb_path off sz fnum (timeout_msecs E) p) (S\<lparr>world := w\<rparr>) of
             ((x, n, f), S) \<Rightarrow>
               let fnum = map_option (\<lambda>_. f) fnum; ctx = conn_context (conns S p) in
               case x of
                 None \<Rightarrow>
                   let error = FromSmbErrorMessage (nt_status ctx) (msg_fetch path (error_msg ctx));
                       S = S\<lparr>world := e_free E m (world S)\<rparr>
                   in if IsConnectionUnusable (nt_status ctx) \<or> type_of error = kNonExistent \<or>
                         type_of error = kPermissionDenied
                      then Some ((LeaveNow, 0, error, fnum, buf), S)
                      else Some ((TryAgain, n, error, fnum, buf), S)
               | Some x \<Rightarrow>
                   do { buf \<leftarrow> buf_replace pos (unat n) x buf;
                        let S = S\<lparr>world := e_free E m (world S)\<rparr>;
                        if sz = n then Some ((Succeeded, n, no_error, fnum, buf), S)
                        else Some ((TryAgain, n, mk_error kInvalid (msg_read_size path sz n), fnum, buf), S) }))"

fun read_loop ::
  "'w smb_env \<Rightarrow> string \<Rightarrow> string \<Rightarrow> addr \<Rightarrow> uint64 \<Rightarrow> uint32 \<Rightarrow> nat \<Rightarrow> nat \<Rightarrow> uint16 option \<Rightarrow> string \<Rightarrow>
   'w proxy \<Rightarrow> ((verdict \<times> uint32 \<times> Error \<times> uint16 option \<times> string) \<times> 'w proxy) option" where
  "read_loop E path smb_path p off sz pos 0 fnum buf S = read_once E path smb_path p off sz pos fnum buf S"
| "read_loop E path smb_path p off sz pos (Suc retries) fnum buf S =
     do { ((v, n, error, fnum, buf), S) \<leftarrow> read_once E path smb_path p off sz pos fnum buf S;
          if v = TryAgain then read_loop E path smb_path p off sz pos retries fnum buf S
          else Some ((v, n, error, fnum, buf), S) }"

text \<open>The last step of both transfer functions: the handle in use is remembered.\<close>

definition keep_handle ::
  "'w smb_env \<Rightarrow> string \<Rightarrow> verdict \<Rightarrow> uint16 option \<Rightarrow> addr \<Rightarrow> 'w proxy \<Rightarrow> 'w proxy option" where
  "keep_handle E path v fnum p S =
     (case fnum of
        None \<Rightarrow> Some S
      | Some f \<Rightarrow> if v = LeaveNow \<or> f = e_invalid_fnum E then Some S else UpdateFileHandle E path f p S)"

definition ReadBytesFromOffset ::
  "'w smb_env \<Rightarrow> string \<Rightarrow> addr \<Rightarrow> uint64 \<Rightarrow> uint32 \<Rightarrow> string \<Rightarrow> uint32 \<Rightarrow> bool \<Rightarrow> 'w proxy \<Rightarrow>
   ((uint32 \<times> Error \<times> string) \<times> 'w proxy) option" where
  "ReadBytesFromOffset E path p off sz buf buf_offset cache_handle S =
     do { ((v, n, error, fnum, buf), S) \<leftarrow>
            read_loop E path (SmbPath E p (sess_of p S) path) p off sz (unat buf_offset)
              (nat (smb_proxy_file_max_read_retries (e_flags E)))
              (cached_fnum E path cache_handle (conns S p)) buf S;
          S \<leftarrow> keep_handle E path v fnum p S;
          Some ((n, error, buf), S) }"

text \<open>The loop of \<open>SmbProxyFetchFileData\<close>: the error, the bytes counted as read, and the buffer.\<close>

partial_function (option) read_all ::
  "'w smb_env \<Rightarrow> string \<Rightarrow> addr \<Rightarrow> int \<Rightarrow> bool \<Rightarrow> uint32 \<Rightarrow> uint32 \<Rightarrow> uint32 \<Rightarrow> uint32 \<Rightarrow> string \<Rightarrow>
   'w proxy \<Rightarrow> ((Error \<times> uint32 \<times> string) \<times> 'w proxy) option" where
  "read_all E path p off cache_handle requested max_read bytes_to_read bytes_read buf S =
     (if bytes_to_read = 0
      then do { CHECK (bytes_read = requested); Some ((no_error, bytes_read, buf), S) }
      else do { ((n, error, buf), S) \<leftarrow>
                  ReadBytesFromOffset E path p (word_of_int (off + uint bytes_read))
                    (min bytes_to_read max_read) buf bytes_read cache_handle S;
                CHECK (bytes_to_read - n \<le> requested);
                CHECK (bytes_read + n \<le> requested);
                if Ok error
                then read_all E path p off cache_handle requested max_read (bytes_to_read - n)
                       (bytes_read + n) buf S
                else Some ((error, bytes_read + n, buf), S) })"

declare read_all.simps [code]

subsection \<open>What the server promises\<close>

text \<open>\<open>file\<close> reads the contents of the files off the world. Reading returns bytes of the file from the
  offset on, never more than asked for, and changes no file; neither do the other calls a read makes.\<close>

definition read_contract :: "'w smb_env \<Rightarrow> addr \<Rightarrow> ('w \<Rightarrow> string \<Rightarrow> string) \<Rightarrow> bool" where
  "read_contract E p file \<longleftrightarrow>
     (\<forall>path off sz fn t s. let ((x, n, f), s') = e_fetch_file_data E path off sz fn t p s in
        file (snd s') = file (snd s) \<and> n \<le> sz \<and>
        (\<forall>d. x = Some d \<longrightarrow> unat n \<le> length d \<and> prefix (take (unat n) d) (drop (unat off) (file (snd s) path)))) \<and>
     (\<forall>f s. file (snd (snd (e_close_fnum E f p s))) = file (snd s)) \<and>
     (\<forall>sz w. file (snd (e_talloc E sz w)) = file w) \<and> (\<forall>m w. file (e_free E m w) = file w)"

text \<open>A connection does not turn into a DFS connection, or stop being one.\<close>

definition fixed_path :: "'w smb_env \<Rightarrow> addr \<Rightarrow> string \<Rightarrow> string \<Rightarrow> bool" where
  "fixed_path E p path smb_path \<longleftrightarrow> (\<forall>s. SmbPath E p s path = smb_path)"

lemma read_contractD:
  assumes "read_contract E p file"
  shows "e_fetch_file_data E path off sz fn t p s = ((x, n, f), s') \<Longrightarrow> file (snd s') = file (snd s)"
    "e_fetch_file_data E path off sz fn t p s = ((x, n, f), s') \<Longrightarrow> n \<le> sz"
    "e_fetch_file_data E path off sz fn t p s = ((Some d, n, f), s') \<Longrightarrow>
       unat n \<le> length d \<and> prefix (take (unat n) d) (drop (unat off) (file (snd s) path))"
    "file (snd (snd (e_close_fnum E f p s))) = file (snd s)"
    "file (snd (e_talloc E szz w)) = file w" "file (e_free E m w) = file w"
proof -
  note c = assms[unfolded read_contract_def]
  note c1 = c[THEN conjunct1, rule_format, of path off sz fn t s]
  show "e_fetch_file_data E path off sz fn t p s = ((x, n, f), s') \<Longrightarrow> file (snd s') = file (snd s)"
    "e_fetch_file_data E path off sz fn t p s = ((x, n, f), s') \<Longrightarrow> n \<le> sz"
    "e_fetch_file_data E path off sz fn t p s = ((Some d, n, f), s') \<Longrightarrow>
       unat n \<le> length d \<and> prefix (take (unat n) d) (drop (unat off) (file (snd s) path))"
    using c1 by simp_all
  show "file (snd (snd (e_close_fnum E f p s))) = file (snd s)"
    "file (snd (e_talloc E szz w)) = file w" "file (e_free E m w) = file w"
    using c by blast+
qed

lemma buf_replace_take:
  assumes b: "b = take l F" "l \<le> length F" and pos: "pos \<le> l" and y: "y = take m (drop pos F)" "pos + m \<le> length F"
  shows "take pos b @ y @ drop (pos + length y) b = take (max l (pos + m)) F"
proof -
  have ly: "length y = m" using y by simp
  have p: "take pos b @ y = take (pos + m) F" using b pos by (simp add: y take_add min_def)
  show ?thesis
  proof (cases "pos + m \<le> l")
    case True
    then have "take l F = take (pos + m) F @ drop (pos + m) (take l F)"
      by (metis append_take_drop_id min.absorb1 take_take)
    with True p ly show ?thesis by (simp add: b(1) max_def flip: append_assoc)
  next
    case False
    then have "drop (pos + m) b = []" using b by simp
    with False p ly show ?thesis by (simp add: max_def flip: append_assoc)
  qed
qed

text \<open>The state a transfer leaves behind: only the handles and the context of its connection change,
  and the handle cache stays consistent.\<close>

definition transfers :: "addr \<Rightarrow> 'w proxy \<Rightarrow> 'w proxy \<Rightarrow> bool" where
  "transfers p S T \<longleftrightarrow> handles_only p S T \<and> (fh_agree (conns S p) \<longrightarrow> fh_agree (conns T p))"

lemma transfers_refl: "transfers p S S"
  by (simp add: transfers_def handles_only_def quiet_refl)

lemma transfers_trans: "transfers p S T \<Longrightarrow> transfers p T U \<Longrightarrow> transfers p S U"
  unfolding transfers_def using handles_only_trans by blast

lemma transfers_world: "transfers p S (S\<lparr>world := w\<rparr>)"
  by (simp add: transfers_def handles_only_def quiet_def same_pool_def same_ids_def)

lemma transfers_on_conn: "on_conn p f S = (r, T) \<Longrightarrow> transfers p S T"
  using handles_only_on_conn on_conn_context by (fastforce simp: transfers_def)

lemma on_conn_world: "on_conn p f S = (r, T) \<Longrightarrow> f (sess_of p S) = (r, sess_of p T)"
  by (auto simp: on_conn_def sess_of_def put_sess_def upd_conn_def split: prod.splits)

text \<open>What an attempt, the retry loop and the whole read guarantee: progress of the buffer along the
  file, the size of a success.\<close>

definition read_post ::
  "addr \<Rightarrow> ('w \<Rightarrow> string \<Rightarrow> string) \<Rightarrow> string \<Rightarrow> uint32 \<Rightarrow> nat \<Rightarrow> string \<Rightarrow> 'w proxy \<Rightarrow>
   uint32 \<Rightarrow> Error \<Rightarrow> string \<Rightarrow> 'w proxy \<Rightarrow> bool" where
  "read_post p file F sz pos buf S n e b T \<longleftrightarrow>
     transfers p S T \<and> file (world T) = file (world S) \<and> n \<le> sz \<and> prefix b F \<and>
     length buf \<le> length b \<and> length b \<le> max (length buf) (pos + unat sz) \<and>
     (Ok e \<longrightarrow> n = sz \<and> pos + unat sz \<le> length b)"

lemma read_post_trans:
  assumes "read_post p file F sz pos buf S n e b T" "read_post p file F sz pos b T n' e' b' U"
  shows "read_post p file F sz pos buf S n' e' b' U"
  using assms transfers_trans unfolding read_post_def by fastforce

text \<open>The bytes fetched at a position extend what the buffer holds of the file.\<close>

lemma fetched_buffer:
  assumes buf: "prefix buf F" "pos \<le> length buf"
    and d: "n \<le> length d" "prefix (take n d) (drop pos F)"
  shows "buf_replace pos n d buf = Some (take (max (length buf) (pos + n)) F)" "pos + n \<le> length F"
    "length buf \<le> length F"
proof -
  show b: "length buf \<le> length F" using prefix_length_le[OF buf(1)] .
  show n: "pos + n \<le> length F" using d prefix_length_le[OF d(2)] buf(2) b by simp
  have "take n d = take n (drop pos F)" "buf = take (length buf) F"
    using d buf(1) by (auto simp: prefix_def)
  then have "take pos buf @ take n d @ drop (pos + length (take n d)) buf = take (max (length buf) (pos + n)) F"
    using b buf(2) n by (intro buf_replace_take) simp_all
  then show "buf_replace pos n d buf = Some (take (max (length buf) (pos + n)) F)"
    using d(1) buf(2) by (simp add: buf_replace_def)
qed

lemma read_once_post:
  assumes c: "read_contract E p file" and F: "drop (unat off) (file (world S) sp) = drop pos F"
    and buf: "prefix buf F" "pos \<le> length buf"
  shows "\<exists>v n e f b T. read_once E path sp p off sz pos fnum buf S = Some ((v, n, e, f, b), T) \<and>
    read_post p file F sz pos buf S n e b T \<and> (v = Succeeded \<longleftrightarrow> Ok e)"
proof -
  obtain m w where m: "e_talloc E (kNumBytesInMB + ucast sz) (world S) = (m, w)" by (rule prod.exhaust)
  have w: "file w = file (world S)"
    using read_contractD(5)[OF c, of "kNumBytesInMB + ucast sz" "world S"] m by simp
  show ?thesis
  proof (cases m)
    case None
    then show ?thesis
      unfolding read_once_def m using w buf
      by (simp add: read_post_def transfers_world)
  next
    case (Some m')
    obtain x n f S2 where S2: "on_conn p (e_fetch_file_data E sp off sz fnum (timeout_msecs E) p) (S\<lparr>world := w\<rparr>) = ((x, n, f), S2)"
      by (metis surj_pair)
    note call = on_conn_world[OF S2]
    have w2: "file (world S2) = file (world S)" "n \<le> sz"
      using read_contractD(1,2)[OF c call] w by (simp_all add: sess_of_def)
    have tr: "transfers p S (S2\<lparr>world := e_free E m' (world S2)\<rparr>)"
      by (rule transfers_trans[OF transfers_world transfers_trans[OF transfers_on_conn[OF S2] transfers_world]])
    show ?thesis
    proof (cases x)
      case None
      then show ?thesis
        unfolding read_once_def m Some S2 prod.case option.case using tr w2 buf read_contractD(6)[OF c]
        by (simp add: read_post_def Let_def)
    next
      case x: (Some d)
      have d: "unat n \<le> length d" "prefix (take (unat n) d) (drop pos F)"
        using read_contractD(3)[OF c call[unfolded x]] w F by (simp_all add: sess_of_def)
      note b = fetched_buffer[OF buf d]
      let ?b = "take (max (length buf) (pos + unat n)) F"
      have le: "unat n \<le> unat sz" using w2(2) by (simp add: word_le_nat_alt)
      have "read_post p file F sz pos buf S n e ?b (S2\<lparr>world := e_free E m' (world S2)\<rparr>)"
        if "Ok e \<longrightarrow> n = sz" for e
        unfolding read_post_def using tr w2 b(2,3) le that read_contractD(6)[OF c]
        by (auto simp: take_is_prefix)
      then show ?thesis
        unfolding read_once_def m Some S2 x prod.case option.case using b(1)
        by (cases "sz = n") (simp_all add: Let_def)
    qed
  qed
qed

lemma read_loop_post:
  assumes c: "read_contract E p file"
  shows "drop (unat off) (file (world S) sp) = drop pos F \<Longrightarrow> prefix buf F \<Longrightarrow> pos \<le> length buf \<Longrightarrow>
    \<exists>v n e f b T. read_loop E path sp p off sz pos k fnum buf S = Some ((v, n, e, f, b), T) \<and>
      read_post p file F sz pos buf S n e b T \<and> (v = Succeeded \<longleftrightarrow> Ok e)"
proof (induction k arbitrary: fnum buf S)
  case 0
  then show ?case using read_once_post[OF c] by simp
next
  case (Suc k)
  obtain v n e f b T where 1: "read_once E path sp p off sz pos fnum buf S = Some ((v, n, e, f, b), T)"
    "read_post p file F sz pos buf S n e b T" "v = Succeeded \<longleftrightarrow> Ok e"
    using read_once_post[OF c Suc.prems, of path sz fnum] by blast
  show ?case
  proof (cases "v = TryAgain")
    case True
    have "drop (unat off) (file (world T) sp) = drop pos F" "prefix b F" "pos \<le> length b"
      using 1(2) Suc.prems by (auto simp: read_post_def)
    from Suc.IH[OF this, of f] obtain v' n' e' f' b' U where
      "read_loop E path sp p off sz pos k f b T = Some ((v', n', e', f', b'), U)"
      "read_post p file F sz pos b T n' e' b' U" "v' = Succeeded \<longleftrightarrow> Ok e'" by blast
    with 1 True read_post_trans[OF 1(2)] show ?thesis by auto
  next
    case False
    with 1 show ?thesis by simp
  qed
qed

lemma evict_file:
  assumes c: "read_contract E p file"
  shows "evict_handles E p n S = Some T \<Longrightarrow> file (world T) = file (world S)"
proof (induction n arbitrary: S)
  case (Suc n)
  let ?h = "snd (hd (fh_lru_list (conns S p)))"
  obtain r S1 where S1: "on_conn p (e_close_fnum E (fh_fnum ?h) p) S = (r, S1)" by (rule prod.exhaust)
  have "file (world S1) = file (world S)"
    using read_contractD(4)[OF c, of "fh_fnum ?h" "sess_of p S"] on_conn_world[OF S1] by (simp add: sess_of_def)
  with Suc.prems Suc.IH[of "upd_conn p pop_handle S1"] show ?case
    by (auto simp: S1 upd_conn_def abort_simps split: if_splits)
qed simp

lemma keep_handle_post:
  assumes c: "read_contract E p file" and a: "fh_agree (conns S p)"
  shows "\<exists>T. keep_handle E path v fnum p S = Some T \<and> transfers p S T \<and> file (world T) = file (world S)"
proof (cases "\<exists>f. fnum = Some f \<and> v \<noteq> LeaveNow \<and> f \<noteq> e_invalid_fnum E")
  case True
  then obtain f where f: "fnum = Some f" "v \<noteq> LeaveNow" "f \<noteq> e_invalid_fnum E" by blast
  obtain T x where T: "UpdateFileHandle E path f p S = Some T" "handles_only p S T"
    "conns T p = (remember_handle E path f (conns S p))\<lparr>conn_context := x\<rparr>"
    using UpdateFileHandle_facts[OF a] by blast
  have "fh_agree (conns T p)" using remember_facts(1)[OF a, of E path f] by (simp add: T(3) fh_inv_def)
  moreover have "file (world T) = file (world S)"
    using evict_file[OF c T(1)[unfolded UpdateFileHandle_def Let_def]] by (simp add: upd_conn_def)
  ultimately show ?thesis using T f by (simp add: keep_handle_def transfers_def)
next
  case False
  then have "keep_handle E path v fnum p S = Some S" by (auto simp: keep_handle_def split: option.split)
  then show ?thesis using transfers_refl by blast
qed

lemma ReadBytes_post:
  assumes c: "read_contract E p file" and fp: "fixed_path E p path sp" and a: "fh_agree (conns S p)"
    and F: "drop (unat off) (file (world S) sp) = drop (unat pos) F" and b: "prefix buf F" "unat pos \<le> length buf"
  shows "\<exists>n e b T. ReadBytesFromOffset E path p off sz buf pos cache S = Some ((n, e, b), T) \<and>
    read_post p file F sz (unat pos) buf S n e b T"
proof -
  obtain v n e f b T where 1: "read_loop E path sp p off sz (unat pos)
      (nat (smb_proxy_file_max_read_retries (e_flags E))) (cached_fnum E path cache (conns S p)) buf S =
      Some ((v, n, e, f, b), T)" "read_post p file F sz (unat pos) buf S n e b T"
    using read_loop_post[OF c F b] by blast
  from 1(2) a have "fh_agree (conns T p)" by (simp add: read_post_def transfers_def)
  from keep_handle_post[OF c this, of path v f] obtain U where
    2: "keep_handle E path v f p T = Some U" "transfers p T U" "file (world U) = file (world T)" by blast
  have "read_post p file F sz (unat pos) buf S n e b U"
    using 1(2) 2 transfers_trans unfolding read_post_def by fastforce
  moreover have "ReadBytesFromOffset E path p off sz buf pos cache S = Some ((n, e, b), U)"
    using 1(1) 2(1) fp[unfolded fixed_path_def, rule_format, of "sess_of p S"]
    by (simp add: ReadBytesFromOffset_def)
  ultimately show ?thesis by blast
qed

text \<open>The counters of the transfer loops: \<open>btr\<close> bytes to go, \<open>br\<close> done, \<open>req\<close> in all, and \<open>n\<close> bytes
  moved by a step of size \<open>min btr mx\<close>.\<close>

lemma chunk_offset:
  "0 \<le> off \<Longrightarrow> off + uint (br::uint32) < 2 ^ 64 \<Longrightarrow>
   unat (word_of_int (off + uint br) :: uint64) = nat off + unat br"
  by (simp only: unat_eq_nat_uint uint_word_of_int_eq) (simp add: take_bit_eq_mod nat_add_distrib)

lemma chunk_step:
  fixes btr br req mx n :: uint32
  assumes n: "n \<le> min btr mx" and sum: "unat btr + unat br = unat req"
  shows "unat n \<le> unat btr" "unat (btr - n) = unat btr - unat n" "unat (br + n) = unat br + unat n"
    "btr - n \<le> req" "br + n \<le> req" "uint br \<le> uint req"
proof -
  have le: "n \<le> btr" using n by (rule order.trans[OF _ min.cobounded1])
  then show a: "unat n \<le> unat btr" by (simp add: word_le_nat_alt)
  show b: "unat (btr - n) = unat btr - unat n" using le by (rule unat_sub)
  have "unat req < 2 ^ 32" using unsigned_less[of req] by simp
  with a sum have "unat br + unat n < 2 ^ 32" by simp
  then show c: "unat (br + n) = unat br + unat n" using unat_add_lem[of br n] by simp
  show "btr - n \<le> req" "br + n \<le> req" using a b c sum by (simp_all add: word_le_nat_alt)
  have "br \<le> req" using sum by (simp add: word_le_nat_alt)
  then show "uint br \<le> uint req" using word_le_def[of br req] by (rule iffD1[rotated])
qed

lemma chunk_pos: "0 < mx \<Longrightarrow> btr \<noteq> 0 \<Longrightarrow> 0 < unat (min btr (mx::uint32))"
  by (simp add: min_def word_less_nat_alt unat_gt_0)

text \<open>The loop, from a state in which \<open>bytes_read\<close> bytes are in the buffer.\<close>

lemma read_all_post:
  assumes c: "read_contract E p file" and fp: "fixed_path E p path sp" and mx: "0 < mx"
    and o: "0 \<le> off" "off + uint req < 2 ^ 64"
  shows "\<lbrakk>fh_agree (conns S p); F = drop (nat off) (file (world S) sp); prefix buf F;
     length buf = unat br; unat btr + unat br = unat req\<rbrakk> \<Longrightarrow>
    \<exists>e n b T. read_all E path p off cache req mx btr br buf S = Some ((e, n, b), T) \<and>
      transfers p S T \<and> file (world T) = file (world S) \<and> prefix b F \<and>
      (Ok e \<longrightarrow> n = req \<and> length b = unat req)"
proof (induction "unat btr" arbitrary: btr br buf S rule: less_induct)
  case less
  show ?case
  proof (cases "btr = 0")
    case True
    then have "br = req" using less.prems(5) by (simp add: word_unat_eq_iff)
    with True less.prems show ?thesis by (subst read_all.simps) (simp add: transfers_refl)
  next
    case False
    let ?off = "word_of_int (off + uint br) :: uint64" and ?sz = "min btr mx"
    have br: "uint br \<le> uint req" by (rule chunk_step(6)[OF word_zero_le less.prems(5)])
    have "unat ?off = nat off + unat br" using o br by (intro chunk_offset) linarith+
    then have F: "drop (unat ?off) (file (world S) sp) = drop (unat br) F"
      by (simp add: less.prems(2) add.commute)
    obtain n e b T where 1: "ReadBytesFromOffset E path p ?off ?sz buf br cache S = Some ((n, e, b), T)"
      "read_post p file F ?sz (unat br) buf S n e b T"
      using ReadBytes_post[OF c fp less.prems(1) F less.prems(3) eq_imp_le[OF less.prems(4)[symmetric]]] by blast
    have n: "n \<le> ?sz" using 1(2) by (simp add: read_post_def)
    note ch = chunk_step[OF n less.prems(5)]
    have step: "read_all E path p off cache req mx btr br buf S =
        (if Ok e then read_all E path p off cache req mx (btr - n) (br + n) b T else Some ((e, br + n, b), T))"
      using False 1(1) ch(4,5) by (subst read_all.simps) simp
    have post: "transfers p S T" "file (world T) = file (world S)" "prefix b F" "Ok e \<Longrightarrow> n = ?sz"
      "Ok e \<Longrightarrow> length b = unat br + unat ?sz"
      using 1(2) less.prems(4) by (auto simp: read_post_def)
    show ?thesis
    proof (cases "Ok e")
      case False
      with step post show ?thesis by auto
    next
      case True
      have pos: "0 < unat n" using post(4)[OF True] chunk_pos[OF mx False] by simp
      have "fh_agree (conns T p)" using post(1) less.prems(1) by (simp add: transfers_def)
      moreover have "F = drop (nat off) (file (world T) sp)" using post(2) less.prems(2) by simp
      moreover have "length b = unat (br + n)" using post(4,5)[OF True] ch(3) by simp
      moreover have "unat (btr - n) + unat (br + n) = unat req" using ch less.prems(5) by simp
      moreover have "unat (btr - n) < unat btr" using ch(1,2) pos by simp
      ultimately obtain e' n' b' U where U: "read_all E path p off cache req mx (btr - n) (br + n) b T = Some ((e', n', b'), U)"
        "transfers p T U" "file (world U) = file (world T)" "prefix b' F" "Ok e' \<longrightarrow> n' = req \<and> length b' = unat req"
        using less.hyps[of "btr - n" T b "br + n"] post(3) by blast
      have "read_all E path p off cache req mx btr br buf S = Some ((e', n', b'), U)" using step True U(1) by simp
      moreover have "transfers p S U" by (rule transfers_trans[OF post(1) U(2)])
      moreover have "file (world U) = file (world S)" using U(3) post(2) by simp
      ultimately show ?thesis using U(4,5) by blast
    qed
  qed
qed

subsection \<open>Property\<close>


definition sample_file :: "sample \<Rightarrow> string \<Rightarrow> string" where
  "sample_file w path = (case map_of (d_files w) path of None \<Rightarrow> [] | Some d \<Rightarrow> d)"

lemma sample_read_contract: "read_contract sample_env p sample_file"
proof -
  have "n \<le> sz \<and> sample_file (snd s') = sample_file (snd s) \<and>
     (\<forall>d. x = Some d \<longrightarrow> unat n \<le> length d \<and> prefix (take (unat n) d) (drop (unat off) (sample_file (snd s) path)))"
    if "sample_fetch path off sz fn t p s = ((x, n, f), s')" for path off sz fn t s x n f s'
  proof (cases "map_of (d_files (snd s)) path")
    case None
    with that show ?thesis by (auto simp: sample_fetch_def sample_fail_def)
  next
    case (Some d)
    let ?y = "take (unat sz) (drop (unat off) d)"
    have u: "unat sz < 2 ^ 32" using unsigned_less[of sz] by simp
    have "length ?y \<le> unat sz" by simp
    then have "unat (word_of_nat (length ?y) :: uint32) = length ?y"
      using order.strict_trans1[OF _ u] by (simp add: unat_of_nat take_bit_nat_eq_self)
    moreover have "x = Some ?y" "n = word_of_nat (length ?y)" "s' = s"
      using that Some by (auto simp: sample_fetch_def Let_def)
    ultimately show ?thesis using Some \<open>length ?y \<le> unat sz\<close>
      by (simp add: sample_file_def word_le_nat_alt take_is_prefix)
  qed
  then show ?thesis
    unfolding read_contract_def by (force simp: sample_env_def sample_ok_def split: prod.splits)
qed

lemma sample_fixed_path: "fixed_path sample_env p (''/f'') [bslash, CHR ''f'']"
proof -
  have "GetSmbPath None ''/f'' = [bslash, CHR ''f'']" by code_simp
  then show ?thesis by (simp add: fixed_path_def SmbPath_def sample_env_def)
qed

lemma sample_proxy_handles: "fh_agree (conns sample_proxy 0)"
  by (simp add: fh_agree_def sample_opened_facts index_ok_empty)

lemma sample_content: "sample_file (world sample_proxy) [bslash, CHR ''f''] = ''hello world''"
  by code_simp


end
