(* ===== verification/File_Write.thy ===== *)
theory File_Write
  imports File_Read
begin

text \<open>
  Writing a range of a file: \<open>WriteBytesToOffset\<close> with its retries and \<open>WriteFileDataHelper\<close>, which
  drops the trailing zeros of a stubbed file and cuts the data into writes of the connection's maximal
  size. The data pointer is the list of the bytes from it to the end of the string, the terminating
  zero included; a write that would read past them is \<open>None\<close>.
\<close>

subsection \<open>The operations\<close>

definition msg_write :: "string \<Rightarrow> string \<Rightarrow> string" where
  "msg_write path m = ''Failed to write data to file '' @ path @ '', error msg: '' @ m"

text \<open>One round of the retry loop. The error variable keeps its value when the server accepts only a part
  of the data.\<close>

definition write_once ::
  "'w smb_env \<Rightarrow> string \<Rightarrow> string \<Rightarrow> addr \<Rightarrow> uint64 \<Rightarrow> uint32 \<Rightarrow> string \<Rightarrow> uint16 option \<Rightarrow> Error \<Rightarrow>
   'w proxy \<Rightarrow> ((verdict \<times> uint32 \<times> Error \<times> uint16 option) \<times> 'w proxy) option" where
  "write_once E path smb_path p off sz dptr fnum error S =
     (if length dptr < unat sz then None
      else case on_conn p (e_write_file_data E smb_path off sz (take (unat sz) dptr) fnum (timeout_msecs E) p) S of
             ((n, f), S) \<Rightarrow>
               let fnum = map_option (\<lambda>_. f) fnum; ctx = conn_context (conns S p) in
               if n = 0
               then let error = FromSmbErrorMessage (nt_status ctx) (msg_write path (error_msg ctx)) in
                    if IsConnectionUnusable (nt_status ctx) \<or> type_of error = kNonExistent \<or>
                       type_of error = kPermissionDenied
                    then Some ((LeaveNow, 0, error, fnum), S)
                    else Some ((TryAgain, n, error, fnum), S)
               else if sz = n then Some ((Succeeded, n, no_error, fnum), S)
               else Some ((TryAgain, n, error, fnum), S))"

fun write_loop ::
  "'w smb_env \<Rightarrow> string \<Rightarrow> string \<Rightarrow> addr \<Rightarrow> uint64 \<Rightarrow> uint32 \<Rightarrow> string \<Rightarrow> nat \<Rightarrow> uint16 option \<Rightarrow> Error \<Rightarrow>
   'w proxy \<Rightarrow> ((verdict \<times> uint32 \<times> Error \<times> uint16 option) \<times> 'w proxy) option" where
  "write_loop E path smb_path p off sz dptr 0 fnum error S =
     write_once E path smb_path p off sz dptr fnum error S"
| "write_loop E path smb_path p off sz dptr (Suc retries) fnum error S =
     do { ((v, n, error, fnum), S) \<leftarrow> write_once E path smb_path p off sz dptr fnum error S;
          if v = TryAgain then write_loop E path smb_path p off sz dptr retries fnum error S
          else Some ((v, n, error, fnum), S) }"

definition WriteBytesToOffset ::
  "'w smb_env \<Rightarrow> string \<Rightarrow> addr \<Rightarrow> uint64 \<Rightarrow> uint32 \<Rightarrow> string \<Rightarrow> bool \<Rightarrow> 'w proxy \<Rightarrow>
   ((uint32 \<times> Error) \<times> 'w proxy) option" where
  "WriteBytesToOffset E path p off sz dptr cache_handle S =
     do { ((v, n, error, fnum), S) \<leftarrow>
            write_loop E path (SmbPath E p (sess_of p S) path) p off sz dptr
              (nat (smb_proxy_file_max_write_retries (e_flags E)))
              (cached_fnum E path cache_handle (conns S p)) no_error S;
          S \<leftarrow> keep_handle E path v fnum p S;
          Some ((n, error), S) }"

text \<open>The loop \<^verbatim>\<open>while (--size > 0 && !data[size])\<close> with the increment after it; the argument is the value
  after the first decrement.\<close>

fun trim_zeros :: "string \<Rightarrow> nat \<Rightarrow> nat option" where
  "trim_zeros x 0 = Some 1"
| "trim_zeros x (Suc k) =
     (if length x < Suc k then None
      else if (x @ [CHR 0x00]) ! Suc k = CHR 0x00 then trim_zeros x k else Some (Suc (Suc k)))"

definition stub_size :: "string \<Rightarrow> int \<Rightarrow> int option" where
  "stub_size x sz = (if sz \<le> 0 then Some sz else map_option int (trim_zeros x (nat (sz - 1))))"

partial_function (option) write_all ::
  "'w smb_env \<Rightarrow> string \<Rightarrow> addr \<Rightarrow> string \<Rightarrow> int \<Rightarrow> bool \<Rightarrow> uint32 \<Rightarrow> uint32 \<Rightarrow> uint32 \<Rightarrow> uint32 \<Rightarrow>
   'w proxy \<Rightarrow> (Error \<times> 'w proxy) option" where
  "write_all E path p x off cache_handle requested max_write bytes_to_write bytes_written S =
     (if bytes_to_write = 0 then do { CHECK (bytes_written = requested); Some (no_error, S) }
      else do { ((n, error), S) \<leftarrow>
                  WriteBytesToOffset E path p (word_of_int (off + uint bytes_written))
                    (min bytes_to_write max_write) (drop (unat bytes_written) (x @ [CHR 0x00])) cache_handle S;
                CHECK (bytes_to_write - n \<le> requested);
                CHECK (bytes_written + n \<le> requested);
                if Ok error
                then write_all E path p x off cache_handle requested max_write (bytes_to_write - n)
                       (bytes_written + n) S
                else Some (error, S) })"

declare write_all.simps [code]

definition WriteFileDataHelper ::
  "'w smb_env \<Rightarrow> string \<Rightarrow> addr \<Rightarrow> string \<Rightarrow> int \<Rightarrow> int \<Rightarrow> bool \<Rightarrow> bool \<Rightarrow> 'w proxy \<Rightarrow>
   (Error \<times> 'w proxy) option" where
  "WriteFileDataHelper E path p x sz off cache_handle is_stubbed S =
     do { sz \<leftarrow> (if is_stubbed then stub_size x sz else Some sz);
          let requested = (word_of_int sz :: uint32);
          write_all E path p x off cache_handle requested (max_write_size (conn_context (conns S p)))
            requested 0 S }"

subsection \<open>Overwriting a range\<close>

lemma overwrite_length: "x \<noteq> [] \<Longrightarrow> length (overwrite c off x) = max (length c) (off + length x)"
  by (simp add: overwrite_def)

lemma overwrite_nth:
  assumes "i < length (overwrite c off x)" "x \<noteq> []"
  shows "overwrite c off x ! i =
    (if i < off then if i < length c then c ! i else CHR 0x00
     else if i < off + length x then x ! (i - off) else c ! i)"
proof -
  have "min (length c) off + (off - length c) = off" by simp
  with assms show ?thesis by (auto simp: overwrite_def nth_append)
qed

text \<open>The file after some bytes of \<open>d\<close> have been written from \<open>off\<close> on.\<close>

definition written :: "string \<Rightarrow> nat \<Rightarrow> string \<Rightarrow> nat \<Rightarrow> string" where
  "written c off d m = (if m = 0 then c else overwrite c off (take m d))"

lemma written_more:
  assumes "k \<le> m" "m \<le> length d" "0 < j" "k + j \<le> length d"
  shows "overwrite (written c off d m) (off + k) (take j (drop k d)) = written c off d (max m (k + j))"
proof -
  let ?y = "take j (drop k d)"
  have y: "?y \<noteq> []" "length ?y = j" using assms by auto
  have w: "written c off d (max m (k + j)) = overwrite c off (take (max m (k + j)) d)"
    "take (max m (k + j)) d \<noteq> []" "length (take (max m (k + j)) d) = max m (k + j)"
    using assms by (auto simp: written_def)
  show ?thesis
  proof (cases "m = 0")
    case True
    with assms show ?thesis by (simp add: written_def)
  next
    case False
    then have m: "written c off d m = overwrite c off (take m d)" "take m d \<noteq> []" "length (take m d) = m"
      using assms by (auto simp: written_def)
    show ?thesis
    proof (rule nth_equalityI)
      show len: "length (overwrite (written c off d m) (off + k) ?y) = length (written c off d (max m (k + j)))"
        using y w m by (simp add: overwrite_length)
      fix i assume i: "i < length (overwrite (written c off d m) (off + k) ?y)"
      then have i2: "i < max (length c) (off + max m (k + j))" using len w by (simp add: overwrite_length)
      show "overwrite (written c off d m) (off + k) ?y ! i = written c off d (max m (k + j)) ! i"
        unfolding overwrite_nth[OF i y(1)] unfolding w(1) m(1)
        using i2 assms y w m by (auto simp: overwrite_nth overwrite_length)
    qed
  qed
qed

subsection \<open>What the server promises\<close>

text \<open>A write changes the file exactly by the bytes it reports, never more than passed, and no other file.\<close>

definition write_contract :: "'w smb_env \<Rightarrow> addr \<Rightarrow> ('w \<Rightarrow> string \<Rightarrow> string) \<Rightarrow> bool" where
  "write_contract E p file \<longleftrightarrow>
     read_contract E p file \<and>
     (\<forall>path off sz d fn t s. let ((n, f), s') = e_write_file_data E path off sz d fn t p s in
        n \<le> sz \<and>
        file (snd s') =
          (if n = 0 then file (snd s)
           else (file (snd s))(path := overwrite (file (snd s) path) (unat off) (take (unat n) d))))"

lemma write_contractD:
  assumes "write_contract E p file" "e_write_file_data E path off sz d fn t p s = ((n, f), s')"
  shows "n \<le> sz" "file (snd s') = (if n = 0 then file (snd s)
     else (file (snd s))(path := overwrite (file (snd s) path) (unat off) (take (unat n) d)))"
  using assms(1)[unfolded write_contract_def, THEN conjunct2, rule_format, of path off sz d fn t s] assms(2)
  by simp_all

text \<open>The progress of a write of \<open>d\<close> at \<open>off\<close>: \<open>m\<close> bytes of it are in the file, and nothing else of \<open>F\<close>
  has changed.\<close>

definition wrote :: "('w \<Rightarrow> string \<Rightarrow> string) \<Rightarrow> (string \<Rightarrow> string) \<Rightarrow> string \<Rightarrow> nat \<Rightarrow> string \<Rightarrow> nat \<Rightarrow> 'w proxy \<Rightarrow> bool" where
  "wrote file F sp off d m S \<longleftrightarrow> file (world S) = F(sp := written (F sp) off d m)"

lemma written_step:
  assumes "wrote file F sp off d m S" "k \<le> m" "m \<le> length d" "0 < j" "k + j \<le> length d"
  shows "(file (world S))(sp := overwrite (file (world S) sp) (off + k) (take j (drop k d))) =
    F(sp := written (F sp) off d (max m (k + j)))"
  using written_more[OF assms(2-5), of "F sp" off] assms(1) by (simp add: wrote_def)

definition write_post ::
  "addr \<Rightarrow> ('w \<Rightarrow> string \<Rightarrow> string) \<Rightarrow> (string \<Rightarrow> string) \<Rightarrow> string \<Rightarrow> nat \<Rightarrow> string \<Rightarrow> uint32 \<Rightarrow> nat \<Rightarrow> nat \<Rightarrow>
   'w proxy \<Rightarrow> uint32 \<Rightarrow> Error \<Rightarrow> 'w proxy \<Rightarrow> bool" where
  "write_post p file F sp off d sz k m S n e T \<longleftrightarrow>
     transfers p S T \<and> n \<le> sz \<and> (Ok e \<longrightarrow> n \<noteq> 0) \<and>
     (\<exists>m'. wrote file F sp off d m' T \<and> m \<le> m' \<and> k + unat n \<le> m' \<and> m' \<le> max m (k + unat sz))"

lemma write_once_post:
  assumes c: "write_contract E p file" and w: "wrote file F sp off d m S" and k: "k \<le> m" "m \<le> length d"
    "k + unat sz \<le> length d" and o: "unat o64 = off + k"
  shows "\<exists>v n e f T. write_once E path sp p o64 sz (drop k (d @ [CHR 0x00])) fnum e0 S =
      Some ((v, n, e, f), T) \<and> write_post p file F sp off d sz k m S n e T"
proof -
  let ?x = "drop k (d @ [CHR 0x00])"
  have tk: "take (unat sz) ?x = take (unat sz) (drop k d)" using k by simp
  obtain n f T where T: "on_conn p (e_write_file_data E sp o64 sz (take (unat sz) ?x) fnum (timeout_msecs E) p) S = ((n, f), T)"
    by (metis surj_pair)
  note call = write_contractD[OF c on_conn_world[OF T]]
  have nsz: "unat n \<le> unat sz" using call(1) by (simp add: word_le_nat_alt)
  have "wrote file F sp off d (if n = 0 then m else max m (k + unat n)) T"
  proof (cases "n = 0")
    case True
    then show ?thesis using w call(2) by (simp add: wrote_def sess_of_def)
  next
    case False
    then have n: "0 < unat n" by (simp add: unat_gt_0)
    have "take (unat n) (take (unat sz) ?x) = take (unat n) (drop k d)"
      unfolding tk by (simp add: min_absorb1 nsz)
    then have "file (world T) = (file (world S))(sp := overwrite (file (world S) sp) (off + k) (take (unat n) (drop k d)))"
      using call(2) False by (simp add: sess_of_def o)
    then show ?thesis
      using written_step[OF w k(1,2) n] k(3) nsz False by (simp add: wrote_def)
  qed
  then have post: "write_post p file F sp off d sz k m S n e T" if "Ok e \<longrightarrow> n \<noteq> 0" for e
    using transfers_on_conn[OF T] call(1) that k(1) nsz
    by (auto simp: write_post_def intro!: exI[of _ "if n = 0 then m else max m (k + unat n)"])
  have len: "\<not> length ?x < unat sz" using k(3) by simp
  show ?thesis
  proof (cases "n = 0")
    case True
    let ?ctx = "conn_context (conns T p)"
    have "write_post p file F sp off d sz k m S 0
        (FromSmbErrorMessage (nt_status ?ctx) (msg_write path (error_msg ?ctx))) T"
      using post True by simp
    with True len show ?thesis unfolding write_once_def T prod.case by (auto simp: Let_def)
  next
    case False
    then have "write_post p file F sp off d sz k m S n e T" for e using post by simp
    with False len show ?thesis unfolding write_once_def T prod.case by (auto simp: Let_def)
  qed
qed

lemma write_post_trans:
  assumes "write_post p file F sp off d sz k m S n e T"
    and "\<And>m'. wrote file F sp off d m' T \<Longrightarrow> m \<le> m' \<Longrightarrow> m' \<le> max m (k + unat sz) \<Longrightarrow>
           write_post p file F sp off d sz k m' T n' e' U"
  shows "write_post p file F sp off d sz k m S n' e' U"
proof -
  from assms(1) obtain m' where m: "wrote file F sp off d m' T" "m \<le> m'" "m' \<le> max m (k + unat sz)" "transfers p S T"
    by (auto simp: write_post_def)
  from assms(2)[OF m(1-3)] m(2-4) transfers_trans[OF m(4)] show ?thesis
    by (auto simp: write_post_def)
qed

lemma write_loop_post:
  assumes c: "write_contract E p file" and k2: "k + unat sz \<le> length d" and o: "unat o64 = off + k"
  shows "wrote file F sp off d m S \<Longrightarrow> k \<le> m \<Longrightarrow> m \<le> length d \<Longrightarrow>
    \<exists>v n e f T. write_loop E path sp p o64 sz (drop k (d @ [CHR 0x00])) r fnum e0 S = Some ((v, n, e, f), T) \<and>
      write_post p file F sp off d sz k m S n e T"
proof (induction r arbitrary: fnum e0 S m)
  case 0
  then show ?case using write_once_post[OF c 0 k2 o] by simp
next
  case (Suc r)
  obtain v n e f T where 1: "write_once E path sp p o64 sz (drop k (d @ [CHR 0x00])) fnum e0 S = Some ((v, n, e, f), T)"
    "write_post p file F sp off d sz k m S n e T"
    using write_once_post[OF c Suc.prems k2 o] by blast
  show ?case
  proof (cases "v = TryAgain")
    case True
    from 1(2) obtain m' where m': "wrote file F sp off d m' T" "k \<le> m'" "m' \<le> length d"
      using Suc.prems k2 by (fastforce simp: write_post_def)
    from Suc.IH[OF this, of f e] obtain v' n' e' f' U where
      2: "write_loop E path sp p o64 sz (drop k (d @ [CHR 0x00])) r f e T = Some ((v', n', e', f'), U)" by blast
    have "write_post p file F sp off d sz k m'' T n' e' U"
      if "wrote file F sp off d m'' T" "m \<le> m''" "m'' \<le> max m (k + unat sz)" for m''
      using Suc.IH[of m'' T f e] that Suc.prems k2 2 by fastforce
    with write_post_trans[OF 1(2)] 1(1) 2 True show ?thesis by auto
  next
    case False
    with 1 show ?thesis by simp
  qed
qed

lemma WriteBytes_post:
  assumes c: "write_contract E p file" and fp: "fixed_path E p path sp" and a: "fh_agree (conns S p)"
    and w: "wrote file F sp off d m S" and k: "k \<le> m" "m \<le> length d" "k + unat sz \<le> length d"
    and o: "unat o64 = off + k"
  shows "\<exists>n e T. WriteBytesToOffset E path p o64 sz (drop k (d @ [CHR 0x00])) cache S = Some ((n, e), T) \<and>
    write_post p file F sp off d sz k m S n e T"
proof -
  have rc: "read_contract E p file" using c by (simp add: write_contract_def)
  obtain v n e f T where 1: "write_loop E path sp p o64 sz (drop k (d @ [CHR 0x00]))
      (nat (smb_proxy_file_max_write_retries (e_flags E))) (cached_fnum E path cache (conns S p)) no_error S =
      Some ((v, n, e, f), T)" "write_post p file F sp off d sz k m S n e T"
    using write_loop_post[OF c k(3) o w k(1,2)] by blast
  from 1(2) a have "fh_agree (conns T p)" by (simp add: write_post_def transfers_def)
  from keep_handle_post[OF rc this, of path v f] obtain U where
    2: "keep_handle E path v f p T = Some U" "transfers p T U" "file (world U) = file (world T)" by blast
  have "write_post p file F sp off d sz k m S n e U"
    using 1(2) 2(3) transfers_trans[OF _ 2(2)] unfolding write_post_def wrote_def by auto
  moreover have "WriteBytesToOffset E path p o64 sz (drop k (d @ [CHR 0x00])) cache S = Some ((n, e), U)"
    using 1(1) 2(1) fp[unfolded fixed_path_def, rule_format, of "sess_of p S"]
    by (simp add: WriteBytesToOffset_def)
  ultimately show ?thesis by blast
qed

lemma write_all_post:
  assumes c: "write_contract E p file" and fp: "fixed_path E p path sp" and mx: "0 < mx"
    and o: "0 \<le> off" "off + uint req < 2 ^ 64" and len: "unat req \<le> length d"
  shows "\<lbrakk>fh_agree (conns S p); wrote file F sp (nat off) d m S; unat bw \<le> m; m \<le> unat req;
     unat btw + unat bw = unat req\<rbrakk> \<Longrightarrow>
    \<exists>e T m'. write_all E path p d off cache req mx btw bw S = Some (e, T) \<and> transfers p S T \<and>
      wrote file F sp (nat off) d m' T \<and> m' \<le> unat req \<and> (Ok e \<longrightarrow> m' = unat req)"
proof (induction "unat btw" arbitrary: btw bw S m rule: less_induct)
  case less
  show ?case
  proof (cases "btw = 0")
    case True
    then have "bw = req" using less.prems(5) by (simp add: word_unat_eq_iff)
    with True less.prems show ?thesis
      by (subst write_all.simps) (auto simp: transfers_refl intro!: exI[of _ m])
  next
    case False
    let ?o = "word_of_int (off + uint bw) :: uint64" and ?sz = "min btw mx"
    have bw: "uint bw \<le> uint req" by (rule chunk_step(6)[OF word_zero_le less.prems(5)])
    have uo: "unat ?o = nat off + unat bw" using o bw by (intro chunk_offset) linarith+
    have sz: "unat ?sz \<le> unat btw" using min.cobounded1[of btw mx] by (simp only: word_le_nat_alt)
    have m: "m \<le> length d" "unat bw + unat ?sz \<le> length d" using less.prems(4,5) len sz by linarith+
    obtain n e T where 1: "WriteBytesToOffset E path p ?o ?sz (drop (unat bw) (d @ [CHR 0x00])) cache S = Some ((n, e), T)"
      "write_post p file F sp (nat off) d ?sz (unat bw) m S n e T"
      using WriteBytes_post[OF c fp less.prems(1,2,3) m uo] by blast
    have n: "n \<le> ?sz" using 1(2) by (simp add: write_post_def)
    note ch = chunk_step[OF n less.prems(5)]
    have step: "write_all E path p d off cache req mx btw bw S =
        (if Ok e then write_all E path p d off cache req mx (btw - n) (bw + n) T else Some (e, T))"
      using False 1(1) ch(4,5) by (subst write_all.simps) simp
    obtain m' where m': "wrote file F sp (nat off) d m' T" "unat bw + unat n \<le> m'" "m' \<le> max m (unat bw + unat ?sz)"
      "transfers p S T" "Ok e \<Longrightarrow> n \<noteq> 0"
      using 1(2) by (auto simp: write_post_def)
    have mr: "m' \<le> unat req" using m'(3) sz less.prems(4,5) by linarith
    show ?thesis
    proof (cases "Ok e")
      case False
      with step m' mr show ?thesis by auto
    next
      case True
      have "fh_agree (conns T p)" using m'(4) less.prems(1) by (simp add: transfers_def)
      moreover have "unat (bw + n) \<le> m'" using ch(3) m'(2) by simp
      moreover have "unat (btw - n) + unat (bw + n) = unat req" using ch less.prems(5) by simp
      moreover have "unat (btw - n) < unat btw" using ch(1,2) unat_gt_0[of n] m'(5)[OF True] by linarith
      ultimately obtain e' U m2 where U: "write_all E path p d off cache req mx (btw - n) (bw + n) T = Some (e', U)"
        "transfers p T U" "wrote file F sp (nat off) d m2 U" "m2 \<le> unat req" "Ok e' \<longrightarrow> m2 = unat req"
        using less.hyps[of "btw - n" T m' "bw + n"] m'(1) mr by blast
      have "write_all E path p d off cache req mx btw bw S = Some (e', U)" using step True U(1) by simp
      moreover have "transfers p S U" by (rule transfers_trans[OF m'(4) U(2)])
      ultimately show ?thesis using U(3-5) by blast
    qed
  qed
qed

text \<open>The size of a stubbed file: only zeros are dropped, and what stays ends with a nonzero byte or is
  the first byte alone.\<close>

lemma trim_zeros_spec:
  "k < length d \<Longrightarrow> \<exists>n. trim_zeros d k = Some n \<and> 1 \<le> n \<and> n \<le> Suc k \<and>
     (\<forall>i. n \<le> i \<and> i \<le> k \<longrightarrow> d ! i = CHR 0x00) \<and> (n = 1 \<or> d ! (n - 1) \<noteq> CHR 0x00)"
proof (induction k)
  case (Suc k)
  show ?case
  proof (cases "d ! Suc k = CHR 0x00")
    case True
    from Suc obtain n where "trim_zeros d k = Some n" "1 \<le> n" "n \<le> Suc k"
      "\<forall>i. n \<le> i \<and> i \<le> k \<longrightarrow> d ! i = CHR 0x00" "n = 1 \<or> d ! (n - 1) \<noteq> CHR 0x00" by auto
    with True Suc.prems show ?thesis by (auto simp: nth_append le_Suc_eq)
  next
    case False
    with Suc.prems show ?thesis by (auto simp: nth_append)
  qed
qed simp

lemma stubbed_size:
  assumes "0 < sz" "sz \<le> int (length d)"
  obtains n where "(if is_stubbed then stub_size d sz else Some sz) = Some (int n)" "0 < n" "n \<le> nat sz"
    "if is_stubbed then \<forall>i. n \<le> i \<and> i < nat sz \<longrightarrow> d ! i = CHR 0x00 else n = nat sz"
proof (cases is_stubbed)
  case True
  have "nat (sz - 1) < length d" using assms by linarith
  from trim_zeros_spec[OF this] obtain n where n: "trim_zeros d (nat (sz - 1)) = Some n" "1 \<le> n"
    "n \<le> Suc (nat (sz - 1))" "\<forall>i. n \<le> i \<and> i \<le> nat (sz - 1) \<longrightarrow> d ! i = CHR 0x00" by blast
  moreover have "Suc (nat (sz - 1)) = nat sz" using assms by linarith
  moreover have "i \<le> nat (sz - 1)" if "i < nat sz" for i using that by linarith
  ultimately show ?thesis using True assms(1) by (intro that[of n]) (auto simp: stub_size_def)
next
  case False
  then show ?thesis using assms(1) by (intro that[of "nat sz"]) auto
qed

lemma WriteFileDataHelper_post:
  assumes "write_contract E p file" "fixed_path E p path smb_path"
    "0 < max_write_size (conn_context (conns S p))" "0 \<le> off" "off + sz < 2 ^ 64" "0 < sz" "sz < 2 ^ 32"
    "sz \<le> int (length d)" "fh_agree (conns S p)"
  shows "\<exists>error T m. WriteFileDataHelper E path p d sz off cache_handle is_stubbed S = Some (error, T) \<and>
    file (world T) = (file (world S))
      (smb_path := (if m = 0 then file (world S) smb_path
                    else overwrite (file (world S) smb_path) (nat off) (take m d))) \<and>
    m \<le> nat sz \<and>
    (Ok error \<longrightarrow> 0 < m \<and> (if is_stubbed then \<forall>i. m \<le> i \<and> i < nat sz \<longrightarrow> d ! i = CHR 0x00 else m = nat sz)) \<and>
    transfers p S T"
proof -
  obtain n where n: "(if is_stubbed then stub_size d sz else Some sz) = Some (int n)" "0 < n" "n \<le> nat sz"
    "if is_stubbed then \<forall>i. n \<le> i \<and> i < nat sz \<longrightarrow> d ! i = CHR 0x00 else n = nat sz"
    by (rule stubbed_size[OF assms(6,8)])
  let ?r = "word_of_int (int n) :: uint32"
  have "n < 2 ^ 32" using n(3) assms(6,7) by simp
  then have r: "unat ?r = n" by (simp add: unat_of_nat take_bit_nat_eq_self)
  then have ur: "uint ?r = int n" by (metis uint_nat)
  have hyp: "off + uint ?r < 2 ^ 64" "unat ?r \<le> length d" unfolding ur r using n(3) assms(5,6,8) by linarith+
  have w: "wrote file (file (world S)) smb_path (nat off) d 0 S" by (simp add: wrote_def written_def)
  have sum: "unat ?r + unat (0 :: uint32) = unat ?r" by simp
  obtain e T m where W: "write_all E path p d off cache_handle ?r (max_write_size (conn_context (conns S p))) ?r 0 S = Some (e, T)"
    "transfers p S T" "wrote file (file (world S)) smb_path (nat off) d m T" "m \<le> n" "Ok e \<longrightarrow> m = n"
    using write_all_post[OF assms(1-4) hyp assms(9) w _ _ sum, of cache_handle] unfolding r by auto
  have "WriteFileDataHelper E path p d sz off cache_handle is_stubbed S =
      write_all E path p d off cache_handle ?r (max_write_size (conn_context (conns S p))) ?r 0 S"
    unfolding WriteFileDataHelper_def n(1) by (simp add: Let_def)
  then have "WriteFileDataHelper E path p d sz off cache_handle is_stubbed S = Some (e, T)" using W(1) by simp
  moreover have "m \<le> nat sz" using W(4) n(3) by simp
  moreover have "Ok e \<longrightarrow> 0 < m \<and> (if is_stubbed then \<forall>i. m \<le> i \<and> i < nat sz \<longrightarrow> d ! i = CHR 0x00 else m = nat sz)"
    using W(5) n(2,4) by blast
  ultimately show ?thesis using W(2,3)[unfolded wrote_def written_def] by blast
qed

subsection \<open>Property\<close>


lemma sample_write_contract: "write_contract sample_env p sample_file"
proof -
  have "n \<le> sz \<and> sample_file (snd s') = (if n = 0 then sample_file (snd s)
       else (sample_file (snd s))(path := overwrite (sample_file (snd s) path) (unat off) (take (unat n) d)))"
    if "sample_write path off sz d fn t p s = ((n, f), s')" for path off sz d fn t s n f s'
  proof (cases "map_of (d_files (snd s)) path")
    case None
    with that show ?thesis by (auto simp: sample_write_def sample_fail_def)
  next
    case (Some c)
    have "sample_file (w\<lparr>d_files := AList.update path y (d_files w)\<rparr>) = (sample_file w)(path := y)" for w y
      by (rule ext) (simp add: sample_file_def update_conv')
    with that Some show ?thesis by (auto simp: sample_write_def sample_file_def split: if_splits)
  qed
  then show ?thesis
    using sample_read_contract unfolding write_contract_def by (force simp: sample_env_def split: prod.splits)
qed


end
