(* ===== verification/Pool_System.thy ===== *)
theory Pool_System
  imports Conn_Pool
begin

text \<open>
  Many requests at once. The operations of the pool are atomic (they run under the locks of the task
  map and of a task), and requests interleave between them. The interface \<open>conn_pool\<close> states what a
  request relies on when it takes a connection and gives it back, and derives once that two requests
  never hold the same connection; the proxy's operations are shown to provide the interface.
\<close>

text \<open>Requests \<open>'c\<close> hold at most one connection each, with the argument they took it with.\<close>

type_synonym ('c, 'a, 's) pool_state = "'s \<times> ('c \<Rightarrow> ('a \<times> addr) option)"

inductive requests_step ::
  "('a \<Rightarrow> 's \<Rightarrow> addr option \<times> 's) \<Rightarrow> ('a \<Rightarrow> addr \<Rightarrow> bool \<Rightarrow> 's \<Rightarrow> 's) \<Rightarrow> ('s \<Rightarrow> 's \<Rightarrow> bool) \<Rightarrow>
   ('c, 'a, 's) pool_state \<Rightarrow> ('c, 'a, 's) pool_state \<Rightarrow> bool"
  for acq rel background where
  take_conn: "h c = None \<Longrightarrow> acq a s = (Some p, s') \<Longrightarrow>
     requests_step acq rel background (s, h) (s', h(c \<mapsto> (a, p)))"
| take_failed: "h c = None \<Longrightarrow> acq a s = (None, s') \<Longrightarrow>
     requests_step acq rel background (s, h) (s', h)"
| give_back: "h c = Some (a, p) \<Longrightarrow>
     requests_step acq rel background (s, h) (rel a p reuse s, h(c := None))"
| backgr: "background s s' \<Longrightarrow> requests_step acq rel background (s, h) (s', h)"

text \<open>The connections held are usable and held once.\<close>

definition held_ok :: "('s \<Rightarrow> 'a \<Rightarrow> addr \<Rightarrow> bool) \<Rightarrow> 's \<Rightarrow> ('c \<Rightarrow> ('a \<times> addr) option) \<Rightarrow> bool" where
  "held_ok usable s h \<longleftrightarrow>
     (\<forall>c a p. h c = Some (a, p) \<longrightarrow> usable s a p) \<and>
     (\<forall>c d a b p. h c = Some (a, p) \<longrightarrow> h d = Some (b, p) \<longrightarrow> c = d)"

lemma held_okD:
  assumes "held_ok usable s h"
  shows "h c = Some (a, p) \<Longrightarrow> usable s a p" "h c = Some (a, p) \<Longrightarrow> h d = Some (b, p) \<Longrightarrow> c = d"
  using assms unfolding held_ok_def by blast+

lemma held_ok_mono:
  assumes "held_ok usable s h" "\<And>b q. usable s b q \<Longrightarrow> usable s' b q"
  shows "held_ok usable s' h"
  using assms unfolding held_ok_def by blast

lemma held_ok_take:
  assumes "held_ok usable s h" "usable s a p" "\<And>d b. h d \<noteq> Some (b, p)"
  shows "held_ok usable s (h(c \<mapsto> (a, p)))"
  unfolding held_ok_def
proof (intro conjI allI impI)
  fix d b q
  assume "(h(c \<mapsto> (a, p))) d = Some (b, q)"
  then show "usable s b q" using assms(2) held_okD(1)[OF assms(1)] by (cases "d = c") auto
next
  fix d d' b b' q
  assume "(h(c \<mapsto> (a, p))) d = Some (b, q)" "(h(c \<mapsto> (a, p))) d' = Some (b', q)"
  then show "d = d'" using assms(3) held_okD(2)[OF assms(1), of d b q d' b']
    by (cases "d = c"; cases "d' = c") auto
qed

lemma held_ok_give:
  assumes "held_ok usable s h" "h c = Some (a, p)" "\<And>b q. usable s b q \<Longrightarrow> q \<noteq> p \<Longrightarrow> usable s' b q"
  shows "held_ok usable s' (h(c := None))"
  unfolding held_ok_def
proof (intro conjI allI impI)
  fix d b q
  assume "(h(c := None)) d = Some (b, q)"
  then have d: "h d = Some (b, q)" "d \<noteq> c" by (auto split: if_splits)
  then have "q \<noteq> p" using held_okD(2)[OF assms(1) _ assms(2), of d b] by blast
  with d(1) show "usable s' b q" using assms(3) held_okD(1)[OF assms(1)] by blast
next
  fix d d' b b' q
  assume "(h(c := None)) d = Some (b, q)" "(h(c := None)) d' = Some (b', q)"
  then show "d = d'" using held_okD(2)[OF assms(1), of d b q d' b'] by (auto split: if_splits)
qed

subsection \<open>The interface\<close>

locale conn_pool =
  fixes inv :: "'s \<Rightarrow> bool"
    and idle :: "'s \<Rightarrow> addr set"
    and bound :: "'s \<Rightarrow> addr"
    and usable :: "'s \<Rightarrow> 'a \<Rightarrow> addr \<Rightarrow> bool"
    and acq :: "'a \<Rightarrow> 's \<Rightarrow> addr option \<times> 's"
    and rel :: "'a \<Rightarrow> addr \<Rightarrow> bool \<Rightarrow> 's \<Rightarrow> 's"
    and background :: "'s \<Rightarrow> 's \<Rightarrow> bool"
  assumes usable_alloc: "usable s a p \<Longrightarrow> p < bound s"
    and usable_not_idle: "inv s \<Longrightarrow> usable s a p \<Longrightarrow> p \<notin> idle s"
    and acq_inv: "inv s \<Longrightarrow> acq a s = (r, s') \<Longrightarrow> inv s'"
    and acq_source: "inv s \<Longrightarrow> acq a s = (Some p, s') \<Longrightarrow> (p \<in> idle s \<or> bound s \<le> p) \<and> usable s' a p"
    and acq_others: "inv s \<Longrightarrow> acq a s = (r, s') \<Longrightarrow> usable s b q \<Longrightarrow> usable s' b q"
    and rel_inv: "inv s \<Longrightarrow> usable s a p \<Longrightarrow> inv (rel a p reuse s)"
    and rel_others: "inv s \<Longrightarrow> usable s a p \<Longrightarrow> usable s b q \<Longrightarrow> q \<noteq> p \<Longrightarrow> usable (rel a p reuse s) b q"
    and bg_inv: "inv s \<Longrightarrow> background s s' \<Longrightarrow> inv s'"
    and bg_others: "inv s \<Longrightarrow> background s s' \<Longrightarrow> usable s b q \<Longrightarrow> usable s' b q"
begin

lemma step_exclusive:
  assumes st: "requests_step acq rel background S T" and inv: "inv (fst S)" and held: "held_ok usable (fst S) (snd S)"
  shows "inv (fst T) \<and> held_ok usable (fst T) (snd T)"
  using st
proof cases
  case (take_conn h c a s p s')
  have i: "inv s" and hd: "held_ok usable s h" using inv held take_conn(1) by simp_all
  note A = acq_source[OF i take_conn(4)]
  have new: "h d \<noteq> Some (b, p)" for d b
  proof
    assume "h d = Some (b, p)"
    then have u: "usable s b p" by (rule held_okD(1)[OF hd])
    from usable_alloc[OF u] usable_not_idle[OF i u] A show False by auto
  qed
  have "held_ok usable s' h" by (rule held_ok_mono[OF hd]) (rule acq_others[OF i take_conn(4)])
  then have "held_ok usable s' (h(c \<mapsto> (a, p)))" using A new by (intro held_ok_take) auto
  with acq_inv[OF i take_conn(4)] take_conn(2) show ?thesis by simp
next
  case (take_failed h c a s s')
  have i: "inv s" and hd: "held_ok usable s h" using inv held take_failed(1) by simp_all
  have "held_ok usable s' h" by (rule held_ok_mono[OF hd]) (rule acq_others[OF i take_failed(4)])
  with acq_inv[OF i take_failed(4)] take_failed(2) show ?thesis by simp
next
  case (give_back h c a p s reuse)
  have i: "inv s" and hd: "held_ok usable s h" using inv held give_back(1) by simp_all
  have u: "usable s a p" by (rule held_okD(1)[OF hd give_back(3)])
  have "held_ok usable (rel a p reuse s) (h(c := None))"
    by (rule held_ok_give[OF hd give_back(3)]) (rule rel_others[OF i u])
  with rel_inv[OF i u] give_back(2) show ?thesis by simp
next
  case (backgr s s' h)
  have i: "inv s" and hd: "held_ok usable s h" using inv held backgr(1) by simp_all
  have "held_ok usable s' h" by (rule held_ok_mono[OF hd]) (rule bg_others[OF i backgr(3)])
  with bg_inv[OF i backgr(3)] backgr(2) show ?thesis by simp
qed

lemma exclusive:
  assumes "reachable (\<lambda>S. inv (fst S) \<and> snd S = (\<lambda>_. None)) (requests_step acq rel background) S"
  shows "inv (fst S) \<and> held_ok usable (fst S) (snd S)"
  using assms
proof (induction rule: reachable.induct)
  case (reach_step S T)
  then show ?case using step_exclusive[OF reach_step(2)] by blast
qed (simp add: held_ok_def)

end

subsection \<open>The proxy provides it\<close>

definition idle_conns :: "'w proxy \<Rightarrow> addr set" where
  "idle_conns S = (\<Union>(k, t)\<in>set (task_cache_map S). set (inactive_connection_list (tasks S t)))"

definition take_connection :: "'w smb_env \<Rightarrow> SmbProxyBaseArg \<times> string \<Rightarrow> 'w proxy \<Rightarrow> addr option \<times> 'w proxy" where
  "take_connection E a S =
     (let ((po, e), S) = GetOrCreateSmbConnection E (fst a) (snd a) (-1) 0 S in (po, S))"

text \<open>What happens beside the requests' own calls: the alarm, a purge request, the update of a task's
  access time, and calls on a connection's session, shutdowns included.\<close>

inductive background_step :: "'w smb_env \<Rightarrow> 'w proxy \<Rightarrow> 'w proxy \<Rightarrow> bool" for E where
  alarm: "background_step E S (AlarmPurge E S)"
| purge_task: "background_step E S (snd (SmbProxyPurgeTask E key S))"
| access_time: "background_step E S (UpdateTaskAccessTime E key S)"
| session: "background_step E S (put_sess p s S)"
| shutdown: "background_step E S (ShutdownSmbConnection E p S)"

definition pool_usable :: "'w proxy \<Rightarrow> SmbProxyBaseArg \<times> string \<Rightarrow> addr \<Rightarrow> bool" where
  "pool_usable S a p = releasable S (task_key (fst a)) p"

lemma idle_in_pool: "p \<in> idle_conns S \<Longrightarrow> p \<in> set (pool_conns S)"
  by (force simp: idle_conns_def pool_conns_def task_conns_def)

text \<open>An active connection of one task is in no list of inactive ones.\<close>

lemma active_not_idle:
  assumes ok: "pool_ok E S" and t: "(k, t) \<in> set (task_cache_map S)"
    and p: "p \<in> snd ` set (active_connection_map (tasks S t))"
  shows "p \<notin> idle_conns S"
proof
  assume "p \<in> idle_conns S"
  then obtain k' u where u: "(k', u) \<in> set (task_cache_map S)" "p \<in> set (inactive_connection_list (tasks S u))"
    by (auto simp: idle_conns_def)
  have "u = t" using pool_disjoint[OF ok t u(1), of p] p u(2) by (auto simp: task_conns_def)
  then show False using task_distinct[OF ok t] p u(2) by (auto simp: task_conns_def)
qed

lemma pool_usable_not_idle:
  assumes "pool_ok E S" "pool_usable S a p"
  shows "p \<notin> idle_conns S"
  using assms(2) active_not_idle[OF assms(1) live_task] idle_in_pool[of p S]
  unfolding pool_usable_def releasable_def by blast

text \<open>Whatever only drops connections and tasks keeps every connection releasable.\<close>

lemma releasable_shrink:
  assumes r: "releasable S k q" and ok: "pool_ok E S"
    and T: "conn_next S \<le> conn_next T" "set (task_cache_map T) \<subseteq> set (task_cache_map S)" "keys_distinct (task_cache_map T)"
    and sub: "\<And>k t. (k, t) \<in> set (task_cache_map T) \<Longrightarrow>
       set (inactive_connection_list (tasks T t)) \<subseteq> set (inactive_connection_list (tasks S t)) \<and>
       set (active_connection_map (tasks T t)) \<subseteq> set (active_connection_map (tasks S t))"
  shows "releasable T k q"
proof -
  have "\<exists>t. map_of (task_cache_map T) k = Some t \<and> q \<in> snd ` set (active_connection_map (tasks T t))"
    if q: "q \<in> set (pool_conns T)"
  proof -
    from q obtain k' u where u: "(k', u) \<in> set (task_cache_map T)" "q \<in> set (task_conns (tasks T u))"
      by (force simp: pool_conns_def)
    then have uS: "(k', u) \<in> set (task_cache_map S)" using T(2) by blast
    have "set (task_conns (tasks T u)) \<subseteq> set (task_conns (tasks S u))"
      using sub[OF u(1)] by (force simp: task_conns_def)
    with u(2) have qS: "q \<in> set (task_conns (tasks S u))" by blast
    then obtain t where t: "map_of (task_cache_map S) k = Some t" "q \<in> snd ` set (active_connection_map (tasks S t))"
      using r task_conns_pool[OF uS] by (auto simp: releasable_def)
    have ni: "q \<notin> idle_conns S" by (rule active_not_idle[OF ok live_task[OF t(1)] t(2)])
    then have "q \<in> snd ` set (active_connection_map (tasks T u))"
      using u sub[OF u(1)] uS by (fastforce simp: task_conns_def idle_conns_def)
    moreover have "t = u"
      using pool_disjoint[OF ok live_task[OF t(1)] uS, of q] t(2) qS by (auto simp: task_conns_def)
    moreover have "k' = k"
      using pool_okD(2)[OF ok] live_task[OF t(1)] uS \<open>t = u\<close> by (auto dest: task_key_unique)
    ultimately show ?thesis using u(1) T(3) by auto
  qed
  then show ?thesis using r T(1) by (auto simp: releasable_def)
qed

lemma releasable_quiet: "quiet S T \<Longrightarrow> releasable T k q = releasable S k q"
  by (simp add: releasable_def pool_conns_quiet quietD)

lemma UpdateTaskAccessTime_shape:
  "quiet S ((UpdateTaskAccessTime E key S)\<lparr>tasks := tasks S\<rparr>)"
  "active_connection_map (tasks (UpdateTaskAccessTime E key S) t) = active_connection_map (tasks S t)"
  "inactive_connection_list (tasks (UpdateTaskAccessTime E key S) t) = inactive_connection_list (tasks S t)"
  by (auto simp: UpdateTaskAccessTime_def GetNowInUsecs_def upd_task_def quiet_def same_pool_def same_ids_def
      split: option.splits prod.splits)

lemma UpdateTaskAccessTime_pool_ok:
  assumes "pool_ok E S"
  shows "pool_ok E (UpdateTaskAccessTime E key S)"
proof -
  note q = quietD[OF UpdateTaskAccessTime_shape(1)[of S E key]]
  show ?thesis
    by (rule pool_ok_shrink[OF assms, where P = "\<lambda>_. True"])
       (use q UpdateTaskAccessTime_shape(2,3)[of E key S] in \<open>auto intro: exI[of _ "\<lambda>_. True"]\<close>)
qed

lemma alarm_releasable:
  assumes ok: "pool_ok E S" and r: "releasable S k q"
  shows "releasable (AlarmPurge E S) k q"
proof -
  obtain now where A: "pool_ok E (AlarmPurge E S)"
      "task_cache_map (AlarmPurge E S) = filter (\<lambda>kt. \<not> idle_task E S now (snd kt)) (task_cache_map S)"
      "\<And>k t. (k, t) \<in> set (task_cache_map S) \<Longrightarrow> alarm_effect E S now (AlarmPurge E S) t"
      "conn_next (AlarmPurge E S) = conn_next S"
    using AlarmPurge_facts[OF ok] by metis
  show ?thesis
  proof (rule releasable_shrink[OF r ok])
    fix k t
    assume "(k, t) \<in> set (task_cache_map (AlarmPurge E S))"
    then have t: "(k, t) \<in> set (task_cache_map S)" "\<not> idle_task E S now t" using A(2) by auto
    with A(3)[OF t(1)]
    show "set (inactive_connection_list (tasks (AlarmPurge E S) t)) \<subseteq> set (inactive_connection_list (tasks S t)) \<and>
        set (active_connection_map (tasks (AlarmPurge E S) t)) \<subseteq> set (active_connection_map (tasks S t))"
      by (auto simp: alarm_effect_def)
  qed (use A pool_okD(1)[OF A(1)] in auto)
qed

lemma purge_task_releasable:
  assumes ok: "pool_ok E S" and r: "releasable S k q"
  shows "releasable (snd (SmbProxyPurgeTask E key S)) k q"
proof (cases "key = [] \<or> map_of (task_cache_map S) key = None")
  case True
  with r show ?thesis by (auto simp: SmbProxyPurgeTask_def)
next
  case False
  then obtain t where t: "key \<noteq> []" "map_of (task_cache_map S) key = Some t" by auto
  let ?S1 = "S\<lparr>task_cache_map := AList.delete key (task_cache_map S)\<rparr>"
  obtain e U where p: "PurgeTaskAndAllConnections E t False ?S1 = (e, U)" by (rule prod.exhaust)
  have U: "snd (SmbProxyPurgeTask E key S) = U" using t p by (simp add: SmbProxyPurgeTask_def Let_def)
  note F = Purge_shape[OF p] and qq = quietD[OF Purge_shape(1)[OF p]]
  show ?thesis
    unfolding U by (rule releasable_shrink[OF r ok]) (use F(2) qq U pool_okD(1)[OF PurgeTask_pool_ok[OF ok, of key]] in auto)
qed

lemma background_facts:
  assumes ok: "pool_ok E S" and b: "background_step E S T"
  shows "pool_ok E T \<and> (releasable S k q \<longrightarrow> releasable T k q)"
  using b
proof cases
  case alarm
  with AlarmPurge_facts[OF ok] alarm_releasable[OF ok] show ?thesis by metis
next
  case (purge_task key)
  with PurgeTask_pool_ok[OF ok] purge_task_releasable[OF ok] show ?thesis by simp
next
  case (access_time key)
  note qq = quietD[OF UpdateTaskAccessTime_shape(1)[of S E key]] and UU = UpdateTaskAccessTime_shape(2,3)[of E key S]
  have okT: "pool_ok E T" using UpdateTaskAccessTime_pool_ok[OF ok] access_time by simp
  have "releasable T k q" if "releasable S k q"
    by (rule releasable_shrink[OF that ok]) (use access_time qq UU pool_okD(1)[OF okT] in auto)
  with okT show ?thesis by blast
next
  case (session p s)
  then have "quiet S T" by (simp add: quiet_put_sess)
  with ok show ?thesis by (simp add: releasable_quiet pool_ok_quiet)
next
  case (shutdown p)
  then have "quiet S T" by (simp add: quiet_shutdown)
  with ok show ?thesis by (simp add: releasable_quiet pool_ok_quiet)
qed

text \<open>Taking a connection: where it comes from, and that the others stay as they are.\<close>

lemma checkout_releasable:
  assumes ok: "pool_ok E S" and t: "map_of (task_cache_map S) (task_key arg) = Some t"
    and c: "checkout E arg h (-1) cf t S = ((po, e), T)"
  shows "po = Some p \<Longrightarrow> releasable T (task_key arg) p" "releasable S k q \<Longrightarrow> po \<noteq> Some q \<Longrightarrow> releasable T k q"
proof -
  note C = checkout_facts[OF ok live_task[OF t] c]
  show "releasable T (task_key arg) p" if p: "po = Some p"
  proof -
    obtain rest where CC: "came_from S t p rest" "p < conn_next T"
        "tasks T = (tasks S)(t := (tasks S t)\<lparr>inactive_connection_list := rest, active_connection_map :=
          emplace (creation_time_usecs (conns T p)) p (active_connection_map (tasks S t))\<rparr>)"
      using C p by auto
    have rest: "p \<notin> set rest" and pool: "p \<in> set (pool_conns S) \<Longrightarrow> p \<in> set (inactive_connection_list (tasks S t))"
      using CC(1) task_distinct[OF ok live_task[OF t]] pool_okD(5)[OF ok, of p] task_conns_pool[OF live_task[OF t], of p]
      by (auto simp: came_from_def task_conns_def)
    have "p \<in> snd ` set (active_connection_map (tasks T t))" if q: "p \<in> set (pool_conns T)"
    proof -
      from q obtain k' u where u: "(k', u) \<in> set (task_cache_map S)" "p \<in> set (task_conns (tasks T u))"
        using C by (force simp: pool_conns_def)
      have "p \<notin> set (task_conns (tasks S u))" if ne: "u \<noteq> t"
      proof
        assume pu: "p \<in> set (task_conns (tasks S u))"
        then have "p \<in> set (task_conns (tasks S t))"
          using pool[OF task_conns_pool[OF u(1)]] by (simp add: task_conns_def)
        with pool_disjoint[OF ok live_task[OF t] u(1) ne] pu show False by blast
      qed
      with u(2) rest CC(3) show ?thesis by (cases "u = t") (simp_all add: task_conns_def)
    qed
    then show ?thesis using CC(2) t C by (auto simp: releasable_def)
  qed
  have grow: "q \<in> set (pool_conns S) \<or> po = Some q" if q: "q \<in> set (pool_conns T)" for q
  proof -
    from q obtain k' u where u: "(k', u) \<in> set (task_cache_map T)" "q \<in> set (task_conns (tasks T u))"
      by (force simp: pool_conns_def)
    have u1: "(k', u) \<in> set (task_cache_map S)" using C u(1) by simp
    have "q \<in> set (task_conns (tasks S u)) \<or> po = Some q"
      using C u(2) by (cases "u = t") (auto simp: task_conns_def came_from_def set_emplace split: if_splits)
    then show ?thesis using task_conns_pool[OF u1] by blast
  qed
  have act: "set (active_connection_map (tasks S u)) \<subseteq> set (active_connection_map (tasks T u))" for u
    using C by (cases "u = t") (auto simp: set_emplace)
  show "releasable T k q" if "releasable S k q" "po \<noteq> Some q"
    using that grow[of q] act C unfolding releasable_def by (metis (no_types, lifting) image_mono less_le_trans subsetD)
qed

lemma take_connection_facts:
  assumes ok: "pool_ok E S" and f: "GetOrCreateSmbConnection E arg h (-1) cf S = ((po, e), T)"
  shows "pool_ok E T" "conn_next S \<le> conn_next T" "po = None \<longleftrightarrow> \<not> Ok e"
    "po = Some p \<Longrightarrow> p \<in> idle_conns S \<or> p = conn_next S"
    "po = Some p \<Longrightarrow> releasable T (task_key arg) p" "releasable S k q \<Longrightarrow> releasable T k q"
proof -
  obtain t S1 where t: "find_task E arg S = (t, S1)" by (rule prod.exhaust)
  note F = find_task_facts[OF ok t]
  have c: "checkout E arg h (-1) cf t S1 = ((po, e), T)" using f t by (simp add: GetOrCreateSmbConnection_def)
  note C = checkout_facts[OF F(1) live_task[OF F(2)] c] and R = checkout_releasable[OF F(1,2) c]
  show "pool_ok E T" "conn_next S \<le> conn_next T" "po = None \<longleftrightarrow> \<not> Ok e" using C F(4) by auto
  show "releasable T (task_key arg) p" if "po = Some p" by (rule R(1)[OF that])
  show origin: "p \<in> idle_conns S \<or> p = conn_next S" if "po = Some p" for p
  proof (cases "p = conn_next S1")
    case False
    from C that obtain rest where "came_from S1 t p rest" by auto
    with False have i: "p \<in> set (inactive_connection_list (tasks S1 t))" by (auto simp: came_from_def)
    then have l: "map_of (task_cache_map S) (task_key arg) = Some t" using F(6) by (auto simp: task_conns_def)
    with F(7)[OF l] i live_task[OF l] show ?thesis by (force simp: idle_conns_def)
  qed (simp add: F(4))
  show "releasable T k q" if r: "releasable S k q"
  proof (rule R(2))
    show "releasable S1 k q" using r F(4,5) F(7) unfolding releasable_def by metis
    have "q \<notin> idle_conns S" "q < conn_next S"
      using r pool_usable_not_idle[OF ok, of "(arg\<lparr>task_key := k\<rparr>, [])" q] by (auto simp: pool_usable_def releasable_def)
    then show "po \<noteq> Some q" using origin[of q] by auto
  qed
qed

lemma Release_others:
  assumes ok: "pool_ok E S" and u: "releasable S (task_key arg) p" and r: "releasable S k q" and ne: "q \<noteq> p"
  shows "releasable (ReleaseSmbConnection E arg p reuse S) k q"
proof -
  let ?T = "ReleaseSmbConnection E arg p reuse S"
  note F = Release_shape[where E = E and arg = arg and p = p and reuse = reuse and S = S, OF refl]
  have okT: "pool_ok E ?T" by (rule Release_pool_ok[OF ok u])
  have inS: "q \<in> set (task_conns (tasks S v))" if "q \<in> set (task_conns (tasks ?T v))" for v
    using that F(4) ne by (auto simp: task_conns_def released_def split: option.splits if_splits)
  have "\<exists>t. map_of (task_cache_map ?T) k = Some t \<and> q \<in> snd ` set (active_connection_map (tasks ?T t))"
    if pT: "q \<in> set (pool_conns ?T)"
  proof -
    from pT obtain k' v where v: "(k', v) \<in> set (task_cache_map S)" "q \<in> set (task_conns (tasks ?T v))"
      using F(1) by (force simp: pool_conns_def)
    obtain t where t: "map_of (task_cache_map S) k = Some t" "q \<in> snd ` set (active_connection_map (tasks S t))"
      using r task_conns_pool[OF v(1) inS[OF v(2)]] by (auto simp: releasable_def)
    have vt: "v = t"
      using pool_disjoint[OF ok live_task[OF t(1)] v(1), of q] t(2) inS[OF v(2)] by (auto simp: task_conns_def)
    have "q \<notin> set (inactive_connection_list (tasks S t))"
      using task_distinct[OF ok live_task[OF t(1)]] t(2) by (auto simp: task_conns_def)
    then have "q \<notin> set (inactive_connection_list (tasks ?T t))"
      using F(4) ne by (auto simp: released_def split: option.splits if_splits)
    with v(2) vt t(1) F(1) show ?thesis by (auto simp: task_conns_def)
  qed
  then show ?thesis using r F(3) by (auto simp: releasable_def)
qed

interpretation proxy_pool: conn_pool "pool_ok E" idle_conns conn_next pool_usable "take_connection E"
  "\<lambda>a. ReleaseSmbConnection E (fst a)" "background_step E" for E
proof (unfold_locales, goal_cases)
  case (1 s a p)
  then show ?case by (simp add: pool_usable_def releasable_def)
next
  case (2 s a p)
  then show ?case by (rule pool_usable_not_idle)
next
  case (3 s a r s')
  obtain po e T where g: "GetOrCreateSmbConnection E (fst a) (snd a) (-1) 0 s = ((po, e), T)" by (rule pair_fstE)
  with 3 take_connection_facts(1)[OF 3(1) g] show ?case by (simp add: take_connection_def)
next
  case (4 s a p s')
  obtain po e T where g: "GetOrCreateSmbConnection E (fst a) (snd a) (-1) 0 s = ((po, e), T)" by (rule pair_fstE)
  with 4 take_connection_facts(4,5)[OF 4(1) g, of p] show ?case
    by (auto simp: take_connection_def pool_usable_def)
next
  case (5 s a r s' b q)
  obtain po e T where g: "GetOrCreateSmbConnection E (fst a) (snd a) (-1) 0 s = ((po, e), T)" by (rule pair_fstE)
  with 5 take_connection_facts(6)[OF 5(1) g, of "task_key (fst b)" q] show ?case
    by (simp add: take_connection_def pool_usable_def)
next
  case (6 s a p reuse)
  then show ?case by (simp add: pool_usable_def Release_pool_ok)
next
  case (7 s a p b q reuse)
  then show ?case by (simp add: pool_usable_def Release_others)
next
  case (8 s s')
  then show ?case using background_facts[OF 8] by blast
next
  case (9 s s' b q)
  then show ?case using background_facts[OF 9(1,2), of "task_key (fst b)" q] by (simp add: pool_usable_def)
qed



end
