(* ===== verification/Smb_Proxy_Rpc.thy ===== *)
theory Smb_Proxy_Rpc
  imports File_Write Pool_System
begin

text \<open>
  The request handlers of \<open>SmbProxy\<close> (\<open>smb_proxy.cc\<close>) that work on one connection: root metadata, the
  listing of a directory in several calls tied together by a cookie, reading and writing file data, and
  the creation of an entity. Each takes the request's fields and the proxy state and returns the response
  with the new state; \<open>None\<close> is a failed \<^verbatim>\<open>CHECK\<close> (or an undefined access) that takes the service down.
\<close>

subsection \<open>Shared steps\<close>

text \<open>Errors that go to the response only when the client does not continue on errors.\<close>

definition unless_continue :: "SmbProxyBaseArg \<Rightarrow> Error \<Rightarrow> Error option" where
  "unless_continue arg error = (if continue_on_error arg then None else Some error)"

text \<open>A disconnected connection is shut down and leaves the active map.\<close>

definition discard_connection :: "'w smb_env \<Rightarrow> SmbProxyBaseArg \<Rightarrow> addr \<Rightarrow> 'w proxy \<Rightarrow> 'w proxy" where
  "discard_connection E arg p S = ReleaseSmbConnection E arg p False (ShutdownSmbConnection E p S)"

definition free_mem :: "'w smb_env \<Rightarrow> addr \<Rightarrow> 'w proxy \<Rightarrow> 'w proxy" where
  "free_mem E m S = S\<lparr>world := e_free E m (world S)\<rparr>"

text \<open>\<open>GetOrCreateSmbConnection\<close> as the handlers use it: without a connection the error must be set.\<close>

definition acquire ::
  "'w smb_env \<Rightarrow> SmbProxyBaseArg \<Rightarrow> string \<Rightarrow> int \<Rightarrow> int \<Rightarrow> 'w proxy \<Rightarrow> ((addr option \<times> Error) \<times> 'w proxy) option" where
  "acquire E arg handle_path ctime fetched S =
     (case GetOrCreateSmbConnection E arg handle_path ctime fetched S of
        ((po, error), S) \<Rightarrow>
          if po = None \<and> Ok error then None else Some ((po, error), S))"

subsection \<open>Root metadata\<close>

record SmbProxyGetRootMetadataResult =
  grm_error :: "Error option"
  grm_metadata :: EntityMetadata

definition msg_root_mem :: "string \<Rightarrow> string" where
  "msg_root_mem m = ''Failed to create memory context when getting root metadata, error msg: '' @ m"

definition root_failed :: "SmbProxyBaseArg \<Rightarrow> EntityMetadata \<Rightarrow> Error \<Rightarrow> SmbProxyGetRootMetadataResult" where
  "root_failed arg metadata error =
     \<lparr>grm_error = unless_continue arg error, grm_metadata = metadata\<lparr>md_error := Some error\<rparr>\<rparr>"

definition SmbProxyGetRootMetadata ::
  "'w smb_env \<Rightarrow> SmbProxyBaseArg \<Rightarrow> string \<Rightarrow> 'w proxy \<Rightarrow> (SmbProxyGetRootMetadataResult \<times> 'w proxy) option" where
  "SmbProxyGetRootMetadata E arg path S =
     (let metadata = (if populate_root_dir arg then empty_metadata\<lparr>md_root_dir := root_dir arg\<rparr> else empty_metadata);
          error = ValidateSmbProxyBaseArg arg
      in if \<not> Ok error then Some (root_failed arg metadata error, S)
         else do {
           ((po, error), S) \<leftarrow> acquire E arg [] (-1) 0 S;
           case po of
             None \<Rightarrow> Some (root_failed arg metadata error, S)
           | Some p \<Rightarrow>
               (case e_talloc E (256 * kNumBytesInKB) (world S) of
                  (None, w) \<Rightarrow>
                    let S = S\<lparr>world := w\<rparr>;
                        error = mk_error kInvalid (msg_root_mem (error_msg (conn_context (conns S p))))
                    in Some (root_failed arg metadata error, ReleaseSmbConnection E arg p True S)
                | (Some m, w) \<Rightarrow>
                    let S = S\<lparr>world := w\<rparr>;
                        entity_path = SmbPath E p (sess_of p S) (root_dir arg @ path);
                        metadata = (if path \<noteq> [] then metadata\<lparr>md_path := path\<rparr> else metadata);
                        ((error, metadata), S) = on_conn p (GetEntityMetadata E p entity_path False metadata) S;
                        result = (if Ok error then \<lparr>grm_error = None, grm_metadata = metadata\<rparr>
                                  else root_failed arg metadata error)
                    in Some (result, ReleaseSmbConnection E arg p True (free_mem E m S))) })"

subsection \<open>Children of a directory\<close>

record SmbProxyFetchChildrenMetadataArg =
  fcm_header :: SmbProxyBaseArg
  fcm_path :: string
  fcm_cookie :: "string option"
  fcm_fetch_symlink_target :: bool
  fcm_fetch_acls :: bool

record SmbProxyFetchChildrenMetadataResult =
  fcm_error :: "Error option"
  fcm_parent_dir_error :: "Error option"
  fcm_children_metadata :: "EntityMetadata list"
  fcm_result_cookie :: "string option"

definition empty_children :: SmbProxyFetchChildrenMetadataResult where
  "empty_children =
     \<lparr>fcm_error = None, fcm_parent_dir_error = None, fcm_children_metadata = [], fcm_result_cookie = None\<rparr>"

definition UnpackFromCookie :: "'w smb_env \<Rightarrow> string option \<Rightarrow> (int \<times> int) option" where
  "UnpackFromCookie E cookie = (case cookie of None \<Rightarrow> Some (-1, 0) | Some c \<Rightarrow> e_parse_cookie E c)"

definition PackToCookie ::
  "'w smb_env \<Rightarrow> int \<Rightarrow> int \<Rightarrow> SmbProxyFetchChildrenMetadataResult \<Rightarrow> SmbProxyFetchChildrenMetadataResult" where
  "PackToCookie E ctime fetched result = result\<lparr>fcm_result_cookie := Some (e_serialize_cookie E (ctime, fetched))\<rparr>"

text \<open>The update of the task's access time before every child whose number is a multiple of the flag.\<close>

definition touch_task :: "'w smb_env \<Rightarrow> string \<Rightarrow> nat \<Rightarrow> 'w proxy \<Rightarrow> 'w proxy option" where
  "touch_task E key ii S =
     (let n = word_of_int (smb_proxy_fetch_children_update_task_threshold (e_flags E)) :: uint32
      in if n = 0 then None
         else Some (if word_of_nat ii mod n = 0 then UpdateTaskAccessTime E key S else S))"

text \<open>The metadata of a child listed with its attributes.\<close>

definition dirplus_child :: "SmbProxyBaseArg \<Rightarrow> string \<Rightarrow> smbc_wrapper_entity_metadata \<Rightarrow> EntityMetadata" where
  "dirplus_child arg path src =
     (let md = empty_metadata\<lparr>md_uid := 0, md_gid := 0, md_attributes := sm_attributes src,
                md_change_time_usecs := ConvertTimespecToUsecs (sm_change_time_ts src),
                md_modify_time_usecs := ConvertTimespecToUsecs (sm_modify_time_ts src),
                md_create_time_usecs := ConvertTimespecToUsecs (sm_create_time_ts src),
                md_access_time_usecs := ConvertTimespecToUsecs (sm_access_time_ts src),
                md_size := sm_size src, md_allocation_size := sm_allocation_size src,
                md_inode_id := sm_inode_id src, md_path := path\<rparr>;
          md = (if populate_root_dir arg then md\<lparr>md_root_dir := root_dir arg\<rparr> else md)
      in md\<lparr>md_type := if md_attributes md AND kSmbAttrDirectory \<noteq> 0 then MdDirectory else MdFile\<rparr>)"

fun dirplus_children ::
  "'w smb_env \<Rightarrow> SmbProxyFetchChildrenMetadataArg \<Rightarrow> nat \<Rightarrow> smbc_wrapper_readirplus_entry list \<Rightarrow>
   EntityMetadata list \<Rightarrow> 'w proxy \<Rightarrow> ((EntityMetadata list \<times> Error option) \<times> 'w proxy) option" where
  "dirplus_children E arg ii [] children S = Some ((children, None), S)"
| "dirplus_children E arg ii (src # srcs) children S =
     do { S \<leftarrow> touch_task E (task_key (fcm_header arg)) ii S;
          let path = fcm_path arg @ [slash] @ rd_name src;
          dirplus_children E arg (Suc ii) srcs
            (if path \<in> set (skip_metadata_vec (fcm_header arg)) then children
             else children @ [dirplus_child (fcm_header arg) path (rd_metadata src)]) S }"

text \<open>The children listed by name only: their metadata is fetched one by one, up to the first failure
  unless the client continues on errors.\<close>

definition named_child ::
  "'w smb_env \<Rightarrow> addr \<Rightarrow> SmbProxyFetchChildrenMetadataArg \<Rightarrow> string \<Rightarrow> 'w proxy \<Rightarrow>
   (Error \<times> EntityMetadata) \<times> 'w proxy" where
  "named_child E p arg path S =
     (let h = fcm_header arg;
          md = (if populate_root_dir h then empty_metadata\<lparr>md_root_dir := root_dir h\<rparr> else empty_metadata);
          md = md\<lparr>md_path := path\<rparr>;
          smb_path = SmbPath E p (sess_of p S) (root_dir h @ path);
          ((error, md), S) = on_conn p (GetEntityMetadata E p smb_path (fcm_fetch_symlink_target arg) md) S
      in ((error, if Ok error then md else md\<lparr>md_error := Some error\<rparr>), S))"

fun named_children ::
  "'w smb_env \<Rightarrow> addr \<Rightarrow> SmbProxyFetchChildrenMetadataArg \<Rightarrow> nat \<Rightarrow> string list \<Rightarrow>
   EntityMetadata list \<Rightarrow> 'w proxy \<Rightarrow> ((EntityMetadata list \<times> Error option) \<times> 'w proxy) option" where
  "named_children E p arg ii [] children S = Some ((children, None), S)"
| "named_children E p arg ii (name # names) children S =
     do { S \<leftarrow> touch_task E (task_key (fcm_header arg)) ii S;
          let path = fcm_path arg @ [slash] @ name;
          if path \<in> set (skip_metadata_vec (fcm_header arg))
          then named_children E p arg (Suc ii) names children S
          else (case named_child E p arg path S of
                  ((error, md), S) \<Rightarrow>
                    if Ok error \<or> continue_on_error (fcm_header arg)
                    then named_children E p arg (Suc ii) names (children @ [md]) S
                    else Some ((children @ [md], Some error), S)) }"

definition msg_children_mem :: "string \<Rightarrow> string \<Rightarrow> string" where
  "msg_children_mem path m =
     ''Failed to create memory context when fetching children for '' @ path @ '', error msg: '' @ m"

definition msg_list :: "string \<Rightarrow> string \<Rightarrow> string" where
  "msg_list list_exp m = ''Failed to list children names for '' @ list_exp @ '', error msg: '' @ m"

text \<open>The two listing calls; the handle of the directory is left in the result.\<close>

definition list_children ::
  "'w smb_env \<Rightarrow> addr \<Rightarrow> SmbProxyFetchChildrenMetadataArg \<Rightarrow> string \<Rightarrow> 'w proxy \<Rightarrow>
   (string list option \<times> smbc_wrapper_readirplus_entry list option \<times> uint16) \<times> 'w proxy" where
  "list_children E p arg list_exp S =
     (if fcm_fetch_acls arg
      then let ((names, fnum), S) = on_conn p (e_list_dir E list_exp (dir_handle (conns S p)) p) S
           in ((names, None, fnum), S)
      else let ((entries, fnum), S) = on_conn p (e_list_dirplus E list_exp (dir_handle (conns S p)) p) S
           in ((None, entries, fnum), S))"

definition list_failed ::
  "'w smb_env \<Rightarrow> SmbProxyFetchChildrenMetadataArg \<Rightarrow> addr \<Rightarrow> string \<Rightarrow> 'w proxy \<Rightarrow>
   SmbProxyFetchChildrenMetadataResult \<times> 'w proxy" where
  "list_failed E arg p list_exp S =
     (let ctx = conn_context (conns S p);
          error = FromSmbErrorMessage (nt_status ctx) (msg_list list_exp (error_msg ctx))
      in if IsConnectionUnusable (nt_status ctx)
         then (empty_children\<lparr>fcm_error := Some error\<rparr>, discard_connection E (fcm_header arg) p S)
         else (empty_children\<lparr>fcm_parent_dir_error := Some error,
                 fcm_error := unless_continue (fcm_header arg) error\<rparr>,
               ReleaseSmbConnection E (fcm_header arg) p True S))"

text \<open>The end of the handler: the connection goes back to the pool when the server has closed the
  directory, stays active behind a cookie when there is more to list, and is shut down on an error in
  between.\<close>

definition children_done ::
  "'w smb_env \<Rightarrow> SmbProxyFetchChildrenMetadataArg \<Rightarrow> addr \<Rightarrow> uint16 \<Rightarrow> nat \<Rightarrow> EntityMetadata list \<Rightarrow> Error option \<Rightarrow>
   'w proxy \<Rightarrow> SmbProxyFetchChildrenMetadataResult \<times> 'w proxy" where
  "children_done E arg p fnum n children error S =
     (let result = empty_children\<lparr>fcm_children_metadata := children, fcm_error := error\<rparr>
      in if fnum = e_invalid_fnum E then (result, ReleaseSmbConnection E (fcm_header arg) p True S)
         else if error \<noteq> None
         then (result, discard_connection E (fcm_header arg) p (upd_conn p (\<lambda>c. c\<lparr>dir_handle := fnum\<rparr>) S))
         else let S = upd_conn p (\<lambda>c. c\<lparr>dir_handle := fnum, children_fetched := children_fetched c + int n\<rparr>) S
              in (PackToCookie E (creation_time_usecs (conns S p)) (children_fetched (conns S p)) result, S))"

text \<open>The work on the connection, under the memory context \<open>m\<close>.\<close>

definition fetch_children ::
  "'w smb_env \<Rightarrow> SmbProxyFetchChildrenMetadataArg \<Rightarrow> addr \<Rightarrow> string \<Rightarrow> addr \<Rightarrow> 'w proxy \<Rightarrow>
   (SmbProxyFetchChildrenMetadataResult \<times> 'w proxy) option" where
  "fetch_children E arg p list_exp m S =
     (case list_children E p arg list_exp S of
        ((Some names, _, fnum), S) \<Rightarrow>
          do { ((children, error), S) \<leftarrow> named_children E p arg 0 names [] S;
               let (result, S) = children_done E arg p fnum (length names) children error S;
               Some (result, free_mem E m S) }
      | ((None, Some entries, fnum), S) \<Rightarrow>
          do { ((children, error), S) \<leftarrow> dirplus_children E arg 0 entries [] S;
               let (result, S) = children_done E arg p fnum (length entries) children error S;
               Some (result, free_mem E m S) }
      | ((None, None, _), S) \<Rightarrow>
          let (result, S) = list_failed E arg p list_exp S in Some (result, free_mem E m S))"

definition SmbProxyFetchChildrenMetadata ::
  "'w smb_env \<Rightarrow> SmbProxyFetchChildrenMetadataArg \<Rightarrow> 'w proxy \<Rightarrow>
   (SmbProxyFetchChildrenMetadataResult \<times> 'w proxy) option" where
  "SmbProxyFetchChildrenMetadata E arg S =
     (let h = fcm_header arg; error = ValidateSmbProxyBaseArg h
      in if \<not> Ok error
         then Some (empty_children\<lparr>fcm_error := unless_continue h error, fcm_parent_dir_error := Some error\<rparr>, S)
         else do {
           (ctime, fetched) \<leftarrow> UnpackFromCookie E (fcm_cookie arg);
           ((po, error), S) \<leftarrow> acquire E h [] ctime fetched S;
           case po of
             None \<Rightarrow>
               Some (empty_children\<lparr>
                       fcm_parent_dir_error := if type_of error \<noteq> kRetry then Some error else None,
                       fcm_error := if \<not> continue_on_error h \<or> type_of error = kRetry then Some error else None\<rparr>, S)
           | Some p \<Rightarrow>
               let list_exp = SmbPath E p (sess_of p S) (root_dir h @ fcm_path arg @ [bslash, CHR ''*'']) in
               (case e_talloc E (4 * kNumBytesInMB) (world S) of
                  (None, w) \<Rightarrow>
                    let S = S\<lparr>world := w\<rparr>;
                        error = mk_error kInvalid
                          (msg_children_mem (fcm_path arg) (error_msg (conn_context (conns S p))))
                    in Some (empty_children\<lparr>fcm_parent_dir_error := Some error, fcm_error := unless_continue h error\<rparr>,
                             ReleaseSmbConnection E h p True S)
                | (Some m, w) \<Rightarrow> fetch_children E arg p list_exp m (S\<lparr>world := w\<rparr>)) })"

subsection \<open>File data\<close>

record SmbProxyFetchFileDataArg =
  ffd_header :: SmbProxyBaseArg
  ffd_file_path :: string
  ffd_offset :: int
  ffd_size :: int
  ffd_cache_handle :: bool

record SmbProxyFetchFileDataResult =
  ffd_error :: "Error option"
  ffd_data :: "string option"

definition SmbProxyFetchFileData ::
  "'w smb_env \<Rightarrow> SmbProxyFetchFileDataArg \<Rightarrow> 'w proxy \<Rightarrow> (SmbProxyFetchFileDataResult \<times> 'w proxy) option" where
  "SmbProxyFetchFileData E arg S =
     (let h = ffd_header arg; error = ValidateSmbProxyBaseArg h
      in if \<not> Ok error then Some (\<lparr>ffd_error = Some error, ffd_data = None\<rparr>, S)
         else if ffd_size arg \<le> 0
         then Some (\<lparr>ffd_error = Some (mk_error kInvalid ''Size must be greater than 0 for SmbProxyFetchFileData''),
                     ffd_data = None\<rparr>, S)
         else let path = root_dir h @ ffd_file_path arg in do {
           ((po, error), S) \<leftarrow> acquire E h (if ffd_cache_handle arg then path else []) (-1) 0 S;
           case po of
             None \<Rightarrow> Some (\<lparr>ffd_error = Some error, ffd_data = None\<rparr>, S)
           | Some p \<Rightarrow>
               let requested_size = word_of_int (ffd_size arg) :: uint32 in do {
                 ((error, bytes_read, buf), S) \<leftarrow>
                   read_all E path p (ffd_offset arg) (ffd_cache_handle arg) requested_size
                     (max_read_size (conn_context (conns S p))) requested_size 0 [] S;
                 if Ok error
                 then Some (\<lparr>ffd_error = None, ffd_data = Some buf\<rparr>, ReleaseSmbConnection E h p True S)
                 else Some (\<lparr>ffd_error = Some error, ffd_data = if bytes_read > 0 then Some buf else None\<rparr>,
                            if type_of error = kRetry then discard_connection E h p S
                            else ReleaseSmbConnection E h p True S) } })"

record SmbProxyWriteFileDataArg =
  wfd_header :: SmbProxyBaseArg
  wfd_file_path :: string
  wfd_offset :: int
  wfd_size :: int
  wfd_cache_handle :: bool
  wfd_data :: string
  wfd_is_stubbed :: bool

definition SmbProxyWriteFileData ::
  "'w smb_env \<Rightarrow> SmbProxyWriteFileDataArg \<Rightarrow> 'w proxy \<Rightarrow> (Error option \<times> 'w proxy) option" where
  "SmbProxyWriteFileData E arg S =
     (let h = wfd_header arg; error = ValidateSmbProxyBaseArg h
      in if \<not> Ok error then Some (Some error, S)
         else if wfd_size arg \<le> 0
         then Some (Some (mk_error kInvalid ''Size must be greater than 0 for SmbProxyWriteFileData''), S)
         else if wfd_data arg = [] then Some (Some (mk_error kInvalid ''data cannot be empty''), S)
         else let path = root_dir h @ wfd_file_path arg in do {
           ((po, error), S) \<leftarrow> acquire E h (if wfd_cache_handle arg then path else []) (-1) 0 S;
           case po of
             None \<Rightarrow> Some (Some error, S)
           | Some p \<Rightarrow> do {
               (error, S) \<leftarrow> WriteFileDataHelper E path p (wfd_data arg) (wfd_size arg) (wfd_offset arg)
                               (wfd_cache_handle arg) (wfd_is_stubbed arg) S;
               if Ok error then Some (None, ReleaseSmbConnection E h p True S)
               else Some (Some error,
                          if type_of error = kRetry \<or> type_of error = kPermissionDenied
                          then discard_connection E h p S else ReleaseSmbConnection E h p True S) } })"

subsection \<open>Creating an entity\<close>

definition msg_create_entity :: "string \<Rightarrow> string \<Rightarrow> string" where
  "msg_create_entity path m = ''Failed to create an entity '' @ path @ '', error msg: '' @ m"

definition SmbProxyCreateEntity ::
  "'w smb_env \<Rightarrow> SmbProxyBaseArg \<Rightarrow> EntityType \<Rightarrow> string \<Rightarrow> 'w proxy \<Rightarrow> (Error option \<times> 'w proxy) option" where
  "SmbProxyCreateEntity E h ty path S =
     (let error = ValidateSmbProxyBaseArg h
      in if \<not> Ok error then Some (Some error, S)
         else do {
           ((po, error), S) \<leftarrow> acquire E h [] (-1) 0 S;
           case po of
             None \<Rightarrow> Some (Some error, S)
           | Some p \<Rightarrow>
               let smb_path = SmbPath E p (sess_of p S) path;
                   (ret, S) = (if ty = kSymLink then (0, S)
                               else on_conn p (e_create_object E smb_path (ty = kFile) p) S);
                   ctx = conn_context (conns S p)
               in Some (if ret = -1
                        then Some (FromSmbErrorMessage (nt_status ctx) (msg_create_entity path (error_msg ctx)))
                        else None, S) })"

subsection \<open>The cache of opened files of a task\<close>

definition new_FileHandlesEntry :: "'w smb_env \<Rightarrow> FileHandlesEntry option" where
  "new_FileHandlesEntry E =
     do { c \<leftarrow> LRUCache_new (smb_proxy_task_file_handles_cache_size (e_flags E));
          Some \<lparr>fhs_last_access_time_usecs = 0, fh_cache = c\<rparr> }"

definition GetFileHandlesEntry :: "'w smb_env \<Rightarrow> string \<Rightarrow> 'w proxy \<Rightarrow> (addr \<times> 'w proxy) option" where
  "GetFileHandlesEntry E key S =
     do { (a, S) \<leftarrow>
            (case map_of (file_handles_map S) key of
               Some a \<Rightarrow> Some (a, S)
             | None \<Rightarrow>
                 do { e \<leftarrow> new_FileHandlesEntry E;
                      Some (fhe_next S,
                        S\<lparr>fhes := (fhes S)(fhe_next S := e), fhe_next := Suc (fhe_next S),
                          file_handles_map := emplace key (fhe_next S) (file_handles_map S)\<rparr>) });
          let (now, S) = GetNowInUsecs E S;
          Some (a, S\<lparr>fhes := (fhes S)(a := (fhes S a)\<lparr>fhs_last_access_time_usecs := now\<rparr>)\<rparr>) }"

subsection \<open>The status page\<close>

definition nl :: string where "nl = [CHR 0x0A]"

definition line_79 :: string where "line_79 = replicate 79 (CHR ''-'') @ nl"

definition SmbConnectionToString :: "'w smb_env \<Rightarrow> SmbConnection \<Rightarrow> string" where
  "SmbConnectionToString E c =
     ''creation_time_usecs      : '' @ to_string (creation_time_usecs c) @ nl @
     ''last_access_time_usecs   : '' @ to_string (conn_last_access_time_usecs c) @ nl @
     ''dir_handle               : '' @ to_string (uint (dir_handle c)) @ nl @
     ''children_fetched         : '' @ to_string (children_fetched c) @ nl @
     (if smb_proxy_show_cached_file_handles (e_flags E)
      then ''Cached file handles      : '' @ to_string (int (length (fh_lru_list c))) @ nl @
           concat (map (\<lambda>n. ''   '' @ fh_path (snd n) @ '' -> '' @ to_string (uint (fh_fnum (snd n))) @ nl)
             (fh_lru_list c))
      else [])"

definition TaskCacheEntryString :: "'w smb_env \<Rightarrow> 'w proxy \<Rightarrow> string \<Rightarrow> TaskCacheEntry \<Rightarrow> string" where
  "TaskCacheEntryString E S key e =
     line_79 @ ''Task key : '' @ key @ nl @ line_79 @
     ''share_path               : '' @ share_path e @ nl @
     ''last_access_time_usecs   : '' @ to_string (task_last_access_time_usecs e) @ nl @
     nl @ ''Active Connections: '' @ to_string (int (length (active_connection_map e))) @ nl @ line_79 @
     concat (map (\<lambda>(t, p). ''creation_time_usecs      : '' @ to_string t @ nl @
       SmbConnectionToString E (conns S p) @ line_79) (active_connection_map e)) @
     nl @ ''Inactive Connections: '' @ to_string (int (length (inactive_connection_list e))) @ nl @ line_79 @
     concat (map (\<lambda>p. SmbConnectionToString E (conns S p) @ line_79) (inactive_connection_list e)) @
     nl @ nl"

definition TaskCacheMapString :: "'w smb_env \<Rightarrow> 'w proxy \<Rightarrow> string" where
  "TaskCacheMapString E S =
     ''Total Entries in Task Cache map : '' @ to_string (int (length (task_cache_map S))) @ nl @ nl @
     concat (map (\<lambda>(k, t). TaskCacheEntryString E S k (tasks S t)) (task_cache_map S))"

end
