(* ===== verification/Delete_Entity_Op.thy ===== *)
theory Delete_Entity_Op
  imports Smb_Proxy_Rpc
begin

text \<open>
  \<open>DeleteEntityOp\<close> (\<open>ops/delete_entity_op.cc\<close>): files, directories with all their children, and other
  entities. The walk through a directory lists it page by page with the handler of the proxy, on a
  second connection, and deletes what it finds. The walk may never end when the server keeps returning
  entries, so it is a partial function.
\<close>

subsection \<open>Shared steps of the operations\<close>

text \<open>The error of the call that just failed on connection \<open>p\<close>.\<close>

definition smb_error :: "addr \<Rightarrow> (string \<Rightarrow> string) \<Rightarrow> 'w proxy \<Rightarrow> Error" where
  "smb_error p msg S =
     FromSmbErrorMessage (nt_status (conn_context (conns S p))) (msg (error_msg (conn_context (conns S p))))"

text \<open>A call on a session that may not return.\<close>

definition try_conn :: "addr \<Rightarrow> ('w sess \<Rightarrow> ('a \<times> 'w sess) option) \<Rightarrow> 'w proxy \<Rightarrow> ('a \<times> 'w proxy) option" where
  "try_conn p f S = do { (r, s) \<leftarrow> f (sess_of p S); Some (r, put_sess p s S) }"

subsection \<open>Files\<close>

definition DeleteFileHelper :: "'w smb_env \<Rightarrow> addr \<Rightarrow> string \<Rightarrow> 'w proxy \<Rightarrow> Error \<times> 'w proxy" where
  "DeleteFileHelper E p file_path S =
     (let (ret, S) = on_conn p (e_delete_object E file_path p) S
      in (if ret = -1
          then smb_error p (\<lambda>m. ''Failed to delete an entity: '' @ file_path @ '' , error msg: '' @ m) S
          else no_error, S))"

definition ClearFileAttributes :: "'w smb_env \<Rightarrow> addr \<Rightarrow> string \<Rightarrow> 'w proxy \<Rightarrow> Error \<times> 'w proxy" where
  "ClearFileAttributes E p file_path S =
     (let md = zero_smb_metadata\<lparr>sm_attributes := kSmbAttrNormal\<rparr>;
          (ret, S) = on_conn p (e_set_metadata E file_path True False 0 md p) S
      in (if ret \<noteq> 0
          then smb_error p (\<lambda>m. ''Failed to set metadata for: '' @ file_path @ '', error msg: '' @ m) S
          else no_error, S))"

text \<open>A file the server refuses to delete gets its attributes cleared, and a second attempt.\<close>

definition DeleteFile :: "'w smb_env \<Rightarrow> addr \<Rightarrow> string \<Rightarrow> 'w proxy \<Rightarrow> Error \<times> 'w proxy" where
  "DeleteFile E p file_path S =
     (let (error, S) = DeleteFileHelper E p file_path S
      in if \<not> Ok error \<and> type_of error = kCannotDelete
         then let (clear_attr_error, S) = ClearFileAttributes E p file_path S
              in if \<not> Ok clear_attr_error then (error, S) else DeleteFileHelper E p file_path S
         else (error, S))"

definition DeleteEntity ::
  "'w smb_env \<Rightarrow> addr \<Rightarrow> string \<Rightarrow> EntityType \<Rightarrow> bool \<Rightarrow> 'w proxy \<Rightarrow> Error \<times> 'w proxy" where
  "DeleteEntity E p path ty is_exclusive S =
     (let (ret, S) = on_conn p (e_delete_entity E path (ConvertEntityTypeToSmb ty) is_exclusive p) S
      in (if ret = -1
          then smb_error p (\<lambda>m. ''Failed to delete an entity: '' @ path @ '' , error msg: '' @ m) S
          else no_error, S))"

subsection \<open>Directories\<close>

definition DeleteEmptyDir :: "'w smb_env \<Rightarrow> addr \<Rightarrow> string \<Rightarrow> 'w proxy \<Rightarrow> Error \<times> 'w proxy" where
  "DeleteEmptyDir E p dir_path S =
     (let (ret, S) = on_conn p (e_delete_directory E dir_path p) S
      in (if ret = -1
          then smb_error p (\<lambda>m. ''Failed to delete an empty directory: '' @ dir_path @ '' , error msg: '' @ m) S
          else no_error, S))"

text \<open>What is left to do on one level of the recursion: list the directory, or delete the children of one
  page and go on with the page the cookie names.\<close>

datatype delete_work =
    ListDir string
  | DeleteChildren string "EntityMetadata list" "string option"

definition children_arg :: "SmbProxyBaseArg \<Rightarrow> string \<Rightarrow> string option \<Rightarrow> SmbProxyFetchChildrenMetadataArg" where
  "children_arg h dir_path cookie =
     \<lparr>fcm_header = h\<lparr>continue_on_error := True\<rparr>, fcm_path = dir_path, fcm_cookie = cookie,
      fcm_fetch_symlink_target = False, fcm_fetch_acls = True\<rparr>"

partial_function (option) DeleteDir ::
  "'w smb_env \<Rightarrow> SmbProxyBaseArg \<Rightarrow> addr \<Rightarrow> delete_work \<Rightarrow> (string, string) umap \<Rightarrow> 'w proxy \<Rightarrow>
   ((Error \<times> (string, string) umap) \<times> 'w proxy) option" where
  "DeleteDir E h p work cookies S =
     (case work of
        ListDir dir_path \<Rightarrow>
          do { (result, S) \<leftarrow> SmbProxyFetchChildrenMetadata E (children_arg h dir_path (map_of cookies dir_path)) S;
               DeleteDir E h p
                 (DeleteChildren dir_path (fcm_children_metadata result) (fcm_result_cookie result)) cookies S }
      | DeleteChildren dir_path children cookie \<Rightarrow>
          (case children of
             [] \<Rightarrow>
               (case cookie of
                  Some c \<Rightarrow> DeleteDir E h p (ListDir dir_path) (AList.update dir_path c cookies) S
                | None \<Rightarrow> (case DeleteEmptyDir E p dir_path S of
                            (error, S) \<Rightarrow> Some ((error, AList.delete dir_path cookies), S)))
           | md # rest \<Rightarrow>
               if md_error md \<noteq> None then DeleteDir E h p (DeleteChildren dir_path rest cookie) cookies S
               else do {
                 ((error, cookies), S) \<leftarrow>
                   (if md_type md = MdDirectory
                    then DeleteDir E h p (ListDir (SmbPath E p (sess_of p S) (md_path md))) cookies S
                    else (case DeleteFile E p (SmbPath E p (sess_of p S) (md_path md)) S of
                            (error, S) \<Rightarrow> Some ((error, cookies), S)));
                 if Ok error then DeleteDir E h p (DeleteChildren dir_path rest cookie) cookies S
                 else Some ((error, cookies), S) }))"

declare DeleteDir.simps [code]

subsection \<open>The operation\<close>

definition delete_by_type ::
  "'w smb_env \<Rightarrow> SmbProxyBaseArg \<Rightarrow> addr \<Rightarrow> string \<Rightarrow> EntityType \<Rightarrow> bool \<Rightarrow> 'w proxy \<Rightarrow> (Error \<times> 'w proxy) option" where
  "delete_by_type E h p entity_path ty excl S =
     (let path = SmbPath E p (sess_of p S) entity_path
      in case ty of
           kDirectory \<Rightarrow>
             do { ((error, cookies), S) \<leftarrow> DeleteDir E h p (ListDir path) [] S; Some (error, S) }
         | kFile \<Rightarrow> Some (DeleteFile E p path S)
         | kSymLink \<Rightarrow> Some (DeleteEntity E p path ty excl S))"

definition DeleteEntityOp_Execute ::
  "'w smb_env \<Rightarrow> SmbProxyBaseArg \<Rightarrow> string \<Rightarrow> EntityType \<Rightarrow> bool \<Rightarrow> addr option \<Rightarrow> 'w proxy \<Rightarrow>
   (Error \<times> 'w proxy) option" where
  "DeleteEntityOp_Execute E h entity_path ty excl external S =
     (let error = ValidateSmbProxyBaseArg h
      in if \<not> Ok error then Some (error, S)
         else case external of
                Some p \<Rightarrow> delete_by_type E h p entity_path ty excl S
              | None \<Rightarrow>
                  (case GetOrCreate E h S of
                     ((None, error), S) \<Rightarrow> Some (error, S)
                   | ((Some p, _), S) \<Rightarrow>
                       do { (error, S) \<leftarrow> delete_by_type E h p entity_path ty excl S;
                            Some (error, ReleaseSmbConnection E h p True S) }))"

text \<open>The request handler.\<close>

definition SmbProxyDeleteEntity ::
  "'w smb_env \<Rightarrow> SmbProxyBaseArg \<Rightarrow> string \<Rightarrow> EntityType \<Rightarrow> bool \<Rightarrow> 'w proxy \<Rightarrow> (Error option \<times> 'w proxy) option" where
  "SmbProxyDeleteEntity E h path ty excl S =
     do { (error, S) \<leftarrow> DeleteEntityOp_Execute E h (root_dir h @ path) ty excl None S;
          Some (if Ok error then None else Some error, S) }"

end
