(* ===== verification/Entity_Loops.thy ===== *)
theory Entity_Loops
  imports Delete_Entity_Op
begin

text \<open>
  The control structures several operations of \<open>gpl_util/smb/ops\<close> repeat: the loop over the entities of a
  request on one connection (\<open>finalize_restore_files_op.cc\<close>, \<open>write_files_data_op.cc\<close>) and the retry of a
  call with a new connection (\<open>rename_entity_op.cc\<close>, \<open>create_symlink_op.cc\<close>).
\<close>

text \<open>The loop over the entities of a request that two operations share: after a disconnection the
  remaining entities get its error without a call. The result is the vector, the first error, and the
  disconnection if there was one.\<close>

fun entity_loop ::
  "('e \<Rightarrow> 'w proxy \<Rightarrow> (Error \<times> 'w proxy) option) \<Rightarrow> 'e list \<Rightarrow> Error option \<Rightarrow> Error option \<Rightarrow>
   'w proxy \<Rightarrow> ((Error list \<times> Error option \<times> Error option) \<times> 'w proxy) option" where
  "entity_loop handle_next [] first retry_error S = Some (([], first, retry_error), S)"
| "entity_loop handle_next (ent # ents) first retry_error S =
     (case retry_error of
        Some r \<Rightarrow>
          do { ((errors, first, retry_error), S) \<leftarrow> entity_loop handle_next ents first retry_error S;
               Some ((r # errors, first, retry_error), S) }
      | None \<Rightarrow>
          do { (error, S) \<leftarrow> handle_next ent S;
               let first = (if type_of error \<noteq> kNoError \<and> first = None then Some error else first);
               let retry_error = (if type_of error = kRetry then Some error else None);
               ((errors, first, retry_error), S) \<leftarrow> entity_loop handle_next ents first retry_error S;
               Some ((error # errors, first, retry_error), S) })"

text \<open>The request around the loop: one connection for all entities, shut down if it was lost.\<close>

definition run_entities ::
  "'w smb_env \<Rightarrow> SmbProxyBaseArg \<Rightarrow> (addr \<Rightarrow> 'e \<Rightarrow> 'w proxy \<Rightarrow> (Error \<times> 'w proxy) option) \<Rightarrow> 'e list \<Rightarrow>
   'w proxy \<Rightarrow> ((Error option \<times> Error list) \<times> 'w proxy) option" where
  "run_entities E h handle_next ents S =
     (let error = ValidateSmbProxyBaseArg h
      in if \<not> Ok error then Some ((Some error, []), S)
         else case GetOrCreate E h S of
                ((None, error), S) \<Rightarrow> Some ((Some error, []), S)
              | ((Some p, _), S) \<Rightarrow>
                  do { ((errors, first, retry_error), S) \<leftarrow> entity_loop (handle_next p) ents None None S;
                       Some ((first, errors),
                             if retry_error \<noteq> None then discard_connection E h p S
                             else ReleaseSmbConnection E h p True S) })"

text \<open>The retry of a call. The path is computed on the first connection and kept; a lost connection is
  discarded and the call repeated with another, at most \<open>n\<close> times.\<close>

definition max_attempts :: "'w smb_env \<Rightarrow> nat" where
  "max_attempts E = nat (smb_proxy_file_max_write_retries (e_flags E) + 1)"

fun retry_loop ::
  "'w smb_env \<Rightarrow> SmbProxyBaseArg \<Rightarrow> (addr \<Rightarrow> string \<Rightarrow> 'w proxy \<Rightarrow> (Error option \<times> string) \<times> 'w proxy) \<Rightarrow>
   nat \<Rightarrow> Error \<Rightarrow> string \<Rightarrow> 'w proxy \<Rightarrow> Error option \<times> 'w proxy" where
  "retry_loop E h attempt 0 error smb_path S = (Some (set_type kTimeout error), S)"
| "retry_loop E h attempt (Suc n) error smb_path S =
     (case GetOrCreate E h S of
        ((None, e), S) \<Rightarrow> (Some e, S)
      | ((Some p, _), S) \<Rightarrow>
          (case attempt p smb_path S of
             ((None, smb_path), S) \<Rightarrow> (None, ReleaseSmbConnection E h p True S)
           | ((Some error, smb_path), S) \<Rightarrow>
               if type_of error = kRetry
               then retry_loop E h attempt n error smb_path (discard_connection E h p S)
               else (Some error, ReleaseSmbConnection E h p True S)))"

end
