(* ===== verification/Fetch_File_Handle_Op.thy ===== *)
theory Fetch_File_Handle_Op
  imports Delete_Entity_Op
begin

text \<open>
  \<open>FetchFileHandleOp\<close> (\<open>ops/fetch_file_handle_op.cc\<close>): makes sure a file exists and remembers, per task,
  that it does, or the error that came up, for a while. The check and the creation run under the
  exclusive lock of the file's path, which the operation keeps until it is destroyed; how concurrent
  requests wait for that lock is the subject of \<open>Id_Locker\<close>, here the lock is granted.
\<close>

definition upd_fhe :: "addr \<Rightarrow> (FileHandlesEntry \<Rightarrow> FileHandlesEntry) \<Rightarrow> 'w proxy \<Rightarrow> 'w proxy" where
  "upd_fhe a f S = S\<lparr>fhes := (fhes S)(a := f (fhes S a))\<rparr>"

definition IsErrorStale :: "'w smb_env \<Rightarrow> FileHandleEntry \<Rightarrow> 'w proxy \<Rightarrow> bool \<times> 'w proxy" where
  "IsErrorStale E fh S =
     (let threshold_usecs = smb_proxy_open_error_cache_duration_secs (e_flags E) * kNumUsecsInSec;
          (now, S) = GetNowInUsecs E S
      in (now - fhe_error_time_usecs fh > threshold_usecs, S))"

text \<open>The outcome of a lookup that settles the request: the error and whether the file was cached.\<close>

definition LookupFileHandle ::
  "'w smb_env \<Rightarrow> addr \<Rightarrow> string \<Rightarrow> 'w proxy \<Rightarrow> (Error \<times> bool) option \<times> 'w proxy" where
  "LookupFileHandle E a file_path S =
     (let (r, c) = LRUCache_Lookup file_path (fh_cache (fhes S a));
          S = upd_fhe a (\<lambda>e. e\<lparr>fh_cache := c\<rparr>) S
      in case r of
           None \<Rightarrow> (None, S)
         | Some fh \<Rightarrow>
             if Ok (fhe_error fh) then (Some (no_error, True), S)
             else let (stale, S) = IsErrorStale E fh S
                  in (if stale then None else Some (fhe_error fh, False), S))"

definition AddToLRUCache :: "'w smb_env \<Rightarrow> addr \<Rightarrow> string \<Rightarrow> Error \<Rightarrow> 'w proxy \<Rightarrow> 'w proxy" where
  "AddToLRUCache E a file_path error S =
     (let (fh, S) =
        (if Ok error then (\<lparr>fhe_error = no_error, fhe_error_time_usecs = -1\<rparr>, S)
         else let (now, S) = GetNowInUsecs E S in (\<lparr>fhe_error = error, fhe_error_time_usecs = now\<rparr>, S))
      in upd_fhe a (\<lambda>e. e\<lparr>fh_cache := LRUCache_Insert file_path fh (fh_cache e)\<rparr>) S)"

text \<open>The check for the file and its creation.\<close>

definition open_or_create ::
  "'w smb_env \<Rightarrow> addr \<Rightarrow> string \<Rightarrow> 'w proxy \<Rightarrow> Error \<times> 'w proxy" where
  "open_or_create E p file_path S =
     (let ((error, md), S) = on_conn p (GetEntityMetadata3 E p file_path) S
      in if Ok error then (no_error, S)
         else if type_of error \<noteq> kNonExistent then (error, S)
         else let (ret, S) = on_conn p (e_create_object E file_path True p) S
              in (if ret < 0
                  then smb_error p (\<lambda>m. ''Failed to create the file '' @ file_path @ '', error msg: '' @ m) S
                  else no_error, S))"

definition FetchFileHandleLocked ::
  "'w smb_env \<Rightarrow> addr \<Rightarrow> addr \<Rightarrow> string \<Rightarrow> bool \<Rightarrow> 'w proxy \<Rightarrow> ((Error \<times> bool) \<times> 'w proxy) option" where
  "FetchFileHandleLocked E p a file_path create_parent_dir S =
     (case LookupFileHandle E a file_path S of
        (Some r, S) \<Rightarrow> Some (r, S)
      | (None, S) \<Rightarrow>
          do { (error, S) \<leftarrow>
                 (if create_parent_dir
                  then try_conn p (CreateDirectoryHelper E p (GetParentDir file_path bslash) create_parent_dir) S
                  else Some (no_error, S));
               if \<not> Ok error then Some ((error, False), S)
               else let (error, S) = open_or_create E p file_path S
                    in Some ((error, False), AddToLRUCache E a file_path error S) })"

text \<open>Execution; the last component is the path whose lock the operation holds afterwards.\<close>

definition lock_path :: "string \<Rightarrow> 'w proxy \<Rightarrow> 'w proxy" where
  "lock_path path S =
     (let (a, L) = AcquireExclusiveLock path (id_locker S) in S\<lparr>id_locker := lock_exclusive a L\<rparr>)"

definition unlock_path :: "string \<Rightarrow> 'w proxy \<Rightarrow> 'w proxy" where
  "unlock_path path S = S\<lparr>id_locker := ReleaseExclusiveLock path (id_locker S)\<rparr>"

definition FetchFileHandle ::
  "'w smb_env \<Rightarrow> addr \<Rightarrow> addr \<Rightarrow> string \<Rightarrow> bool \<Rightarrow> 'w proxy \<Rightarrow>
   ((Error \<times> bool \<times> string option) \<times> 'w proxy) option" where
  "FetchFileHandle E p a file_path create_parent_dir S =
     (case LookupFileHandle E a file_path S of
        (Some (error, cached), S) \<Rightarrow> Some ((error, cached, None), S)
      | (None, S) \<Rightarrow>
          do { ((error, cached), S) \<leftarrow>
                 FetchFileHandleLocked E p a file_path create_parent_dir (lock_path file_path S);
               Some ((error, cached, Some file_path), S) })"

definition FetchFileHandleOp_Execute ::
  "'w smb_env \<Rightarrow> addr \<Rightarrow> string \<Rightarrow> string \<Rightarrow> bool \<Rightarrow> 'w proxy \<Rightarrow>
   ((Error \<times> bool \<times> string option) \<times> 'w proxy) option" where
  "FetchFileHandleOp_Execute E p key path create_parent_dir S =
     (let file_path = SmbPath E p (sess_of p S) path
      in do { (a, S) \<leftarrow> GetFileHandlesEntry E (GetSmbPath None key) S;
              FetchFileHandle E p a file_path create_parent_dir S })"

text \<open>The destructor of the operation.\<close>

definition release_op :: "string option \<Rightarrow> 'w proxy \<Rightarrow> 'w proxy" where
  "release_op held S = (case held of None \<Rightarrow> S | Some path \<Rightarrow> unlock_path path S)"

end
