(* ===== verification/Create_Restore_Files_Op.thy ===== *)
theory Create_Restore_Files_Op
  imports Fetch_File_Handle_Op
begin

text \<open>
  \<open>CreateRestoreFilesOp\<close> (\<open>ops/create_restore_files_op.cc\<close>): the first phase of a restore. For every
  entity of the request what is in the way is deleted and a temporary file, the file itself, a directory
  or a hard link is created. Every step of the operation ends by leaving an error, or none, in the
  entity's place of the result vector, which is what the definitions return.
\<close>

record CreateRestoreEntity =
  cre_existing_entity_md :: "EntityMetadata option"
  cre_restore_entity_md :: EntityMetadata
  cre_restore_file_handle :: RestoreFileHandle
  cre_existing_file_handle :: RestoreFileHandle

record SmbProxyCreateRestoreFilesArg =
  crf_header :: SmbProxyBaseArg
  crf_alternate_location_path :: "string option"
  crf_entity_metadata_vec :: "CreateRestoreEntity list"
  crf_create_parent_dirs :: bool
  crf_overwrite_existing_tmp :: bool
  crf_nas_uptier_task :: "bool option"

record SmbProxyCreateRestoreFilesResult =
  crf_error :: "Error option"
  crf_entity_result_vec :: "Error list"

subsection \<open>Paths\<close>

definition IsUptierTask :: "SmbProxyCreateRestoreFilesArg \<Rightarrow> bool" where
  "IsUptierTask arg \<longleftrightarrow> crf_nas_uptier_task arg = Some True"

definition NeedTmpFile :: "EntityMetadata \<Rightarrow> bool \<Rightarrow> bool" where
  "NeedTmpFile md require_tmp_for_empty_hardlink \<longleftrightarrow>
     md_type md = MdFile \<and>
     (md_size md > 0 \<or> IsTargetFileHardlink md \<and> require_tmp_for_empty_hardlink)"

definition TemporaryEntityPath :: "'w smb_env \<Rightarrow> string \<Rightarrow> string \<Rightarrow> string" where
  "TemporaryEntityPath E path key =
     (let parent = e_parent_path E path;
          ch_str = (if parent \<noteq> [] \<and> last parent = slash then ''__ch__'' else slash # ''__ch__'')
      in parent @ ch_str @ key @ ''_'' @ e_filename E path)"

text \<open>\<^verbatim>\<open>substr\<close> past the end of the string throws.\<close>

definition GetAlternateHardLinkPath :: "'w smb_env \<Rightarrow> EntityMetadata \<Rightarrow> string \<Rightarrow> string option" where
  "GetAlternateHardLinkPath E md alternate_base_dir =
     (let target = str_field (md_first_path_to_hardlink md); root = md_root_dir md
      in if \<not> IsPathChildOf (e_normalize E) target root then Some []
         else let root_dir_name = e_filename E root; idx = length root - length root_dir_name
              in if length root < length root_dir_name \<or> length target < idx then None
                 else Some (alternate_base_dir @ [slash] @ drop idx target))"

definition MakeHardlinkPaths ::
  "'w smb_env \<Rightarrow> EntityMetadata \<Rightarrow> string \<Rightarrow> SmbProxyCreateRestoreFilesArg \<Rightarrow> (string \<times> string) option" where
  "MakeHardlinkPaths E md key arg =
     (case crf_alternate_location_path arg of
        Some alt \<Rightarrow>
          do { target_path \<leftarrow> GetAlternateHardLinkPath E md alt;
               Some (target_path, if target_path \<noteq> [] then TemporaryEntityPath E target_path key else []) }
      | None \<Rightarrow>
          let target_path = str_field (md_first_path_to_hardlink md)
          in Some (target_path, TemporaryEntityPath E target_path key))"

subsection \<open>Creation\<close>

abbreviation handle_md :: "CreateRestoreEntity \<Rightarrow> EntityMetadata" where
  "handle_md ent \<equiv> rfh_entity_metadata (cre_restore_file_handle ent)"

abbreviation handle_path :: "CreateRestoreEntity \<Rightarrow> string" where
  "handle_path ent \<equiv> str_field (rfh_file_path (cre_restore_file_handle ent))"

abbreviation handle_tmp_path :: "CreateRestoreEntity \<Rightarrow> string" where
  "handle_tmp_path ent \<equiv> str_field (rfh_tmp_file_path (cre_restore_file_handle ent))"

definition msg_hardlink_empty :: string where
  "msg_hardlink_empty = ''Failed to create hardlink, target path is empty, ''"

definition hardlink_result :: "addr \<Rightarrow> string \<Rightarrow> string \<Rightarrow> int \<Rightarrow> 'w proxy \<Rightarrow> Error" where
  "hardlink_result p path target_path ret S =
     (if ret = -1
      then let error = smb_error p (\<lambda>m. ''Failed to create hardlink for file '' @ path @ '', target '' @
                         target_path @ ''. Error msg: '' @ m) S
           in if type_of error \<noteq> kAlreadyExists then error else no_error
      else no_error)"

definition CreateHardlink ::
  "'w smb_env \<Rightarrow> SmbProxyCreateRestoreFilesArg \<Rightarrow> CreateRestoreEntity \<Rightarrow> addr \<Rightarrow> bool \<Rightarrow> 'w proxy \<Rightarrow>
   (Error \<times> 'w proxy) option" where
  "CreateHardlink E arg ent p is_vol_restore S =
     (let root = root_dir (crf_header arg);
          path = GetSmbPath None (root @ handle_path ent)
      in if is_vol_restore
         then let target_path = SmbPath E p (sess_of p S) (root @ handle_tmp_path ent);
                  (ret, S) = on_conn p (e_create_hardlink E target_path path p) S
              in Some (hardlink_result p path target_path ret S, S)
         else do {
           (target, target_tmp) \<leftarrow> MakeHardlinkPaths E (handle_md ent) (task_key (crf_header arg)) arg;
           let target_path = SmbPath E p (sess_of p S) (root @ target);
           let target_tmp_path = SmbPath E p (sess_of p S) (root @ target_tmp);
           if target_path = []
           then Some (mk_error kNonExistent (msg_hardlink_empty @ e_ShortDebugString E (handle_md ent)), S)
           else let (ret, S) = on_conn p (e_create_hardlink E target_tmp_path path p) S;
                    st = nt_status (conn_context (conns S p));
                    (ret, S) =
                      (if ret = -1 \<and> (st = kNtStatusObjectNameNotFound \<or> st = kNtStatusObjectPathNotFound)
                       then on_conn p (e_create_hardlink E target_path path p) S else (ret, S))
                in Some (hardlink_result p path target_path ret S, S) })"

definition CreateRegularFile ::
  "'w smb_env \<Rightarrow> SmbProxyCreateRestoreFilesArg \<Rightarrow> CreateRestoreEntity \<Rightarrow> addr \<Rightarrow> 'w proxy \<Rightarrow>
   (Error \<times> 'w proxy) option" where
  "CreateRegularFile E arg ent p S =
     (let md = handle_md ent
      in if \<not> crf_overwrite_existing_tmp arg \<and> IsTargetFileHardlink md
         then if md_first_path_to_hardlink md \<noteq> None then CreateHardlink E arg ent p True S else Some (no_error, S)
         else if md_first_path_to_hardlink md \<noteq> None then CreateHardlink E arg ent p False S
         else if \<not> crf_overwrite_existing_tmp arg \<and> md_size md \<noteq> 0 then Some (no_error, S)
         else let path = SmbPath E p (sess_of p S)
                    (root_dir (crf_header arg) @ (if md_size md = 0 then handle_path ent else handle_tmp_path ent));
                  (ret, S) = on_conn p (e_create_object E path True p) S
              in Some (if ret < 0
                       then smb_error p (\<lambda>m. ''Failed to create the file '' @ path @ '', error msg: '' @ m) S
                       else no_error, S))"

text \<open>\<^verbatim>\<open>LOG(FATAL)\<close> for an entity that is neither a file nor a symbolic link.\<close>

definition DoCreateEntity ::
  "'w smb_env \<Rightarrow> SmbProxyCreateRestoreFilesArg \<Rightarrow> CreateRestoreEntity \<Rightarrow> addr \<Rightarrow> 'w proxy \<Rightarrow>
   (Error \<times> 'w proxy) option" where
  "DoCreateEntity E arg ent p S =
     (case md_type (cre_restore_entity_md ent) of
        MdFile \<Rightarrow> CreateRegularFile E arg ent p S
      | MdSymLink \<Rightarrow> Some (mk_error kInvalid ''Creating a symlink is not implemented.'', S)
      | MdDirectory \<Rightarrow> None)"

definition CreateEntity ::
  "'w smb_env \<Rightarrow> SmbProxyCreateRestoreFilesArg \<Rightarrow> CreateRestoreEntity \<Rightarrow> addr \<Rightarrow> 'w proxy \<Rightarrow>
   (Error \<times> 'w proxy) option" where
  "CreateEntity E arg ent p S =
     (let is_dir = (md_type (handle_md ent) = MdDirectory)
      in if \<not> crf_overwrite_existing_tmp arg \<or> is_dir
         then let path = SmbPath E p (sess_of p S) (root_dir (crf_header arg) @ handle_path ent);
                  path = (if is_dir then path else GetParentDir path bslash);
                  create_parent_dirs = (\<not> crf_overwrite_existing_tmp arg \<or> is_dir \<and> crf_create_parent_dirs arg)
              in do { (error, S) \<leftarrow> try_conn p (CreateDirectoryHelper E p path create_parent_dirs) S;
                      if \<not> Ok error \<or> is_dir then Some (error, S) else DoCreateEntity E arg ent p S }
         else DoCreateEntity E arg ent p S)"

subsection \<open>Deletion of what is in the way\<close>

definition IsHardlinksToEachOther :: "'w smb_env \<Rightarrow> addr \<Rightarrow> string \<Rightarrow> string \<Rightarrow> 'w proxy \<Rightarrow> bool \<times> 'w proxy" where
  "IsHardlinksToEachOther E p target link S =
     (let ((error, link_md), S) = on_conn p (GetEntityMetadata3 E p link) S
      in if \<not> Ok error then (False, S)
         else let ((error, target_md), S) = on_conn p (GetEntityMetadata3 E p target) S
              in (Ok error \<and> IsTargetFileHardlink target_md \<and> md_inode_id target_md = md_inode_id link_md, S))"

definition DeleteNewEntity ::
  "'w smb_env \<Rightarrow> SmbProxyCreateRestoreFilesArg \<Rightarrow> CreateRestoreEntity \<Rightarrow> addr \<Rightarrow> 'w proxy \<Rightarrow>
   (Error \<times> 'w proxy) option" where
  "DeleteNewEntity E arg ent p S =
     (if IsUptierTask arg then CreateEntity E arg ent p S
      else let root = root_dir (crf_header arg); md = handle_md ent;
               path = SmbPath E p (sess_of p S) (handle_path ent);
               (linked, S) =
                 (if \<not> crf_overwrite_existing_tmp arg \<and> md_type md = MdFile \<and> IsTargetFileHardlink md
                  then IsHardlinksToEachOther E p (SmbPath E p (sess_of p S) (root @ handle_tmp_path ent))
                         (SmbPath E p (sess_of p S) (root @ handle_path ent)) S
                  else (False, S))
           in if linked then Some (no_error, S)
              else let (ret, S) = on_conn p (e_delete_object E path p) S;
                       error = smb_error p (\<lambda>m. ''Failed to delete an entity: '' @ path @ '' , error msg: '' @ m) S
                   in if ret = -1 \<and> type_of error \<noteq> kNonExistent then Some (error, S)
                      else CreateEntity E arg ent p S)"

definition DeleteTmpEntity ::
  "'w smb_env \<Rightarrow> SmbProxyCreateRestoreFilesArg \<Rightarrow> CreateRestoreEntity \<Rightarrow> addr \<Rightarrow> 'w proxy \<Rightarrow>
   (Error \<times> 'w proxy) option" where
  "DeleteTmpEntity E arg ent p S =
     (let tmp_path = SmbPath E p (sess_of p S) (handle_tmp_path ent);
          (ret, S) = on_conn p (e_delete_object E tmp_path p) S;
          S = PurgeFileHandle E (task_key (crf_header arg)) tmp_path S;
          error = smb_error p (\<lambda>m. ''Failed to delete tmp entity: '' @ tmp_path @ '' , error msg: '' @ m) S
      in if ret = -1 \<and> type_of error \<noteq> kNonExistent then Some (error, S)
         else DeleteNewEntity E arg ent p S)"

definition DeleteAndCreateEntity ::
  "'w smb_env \<Rightarrow> SmbProxyCreateRestoreFilesArg \<Rightarrow> CreateRestoreEntity \<Rightarrow> addr \<Rightarrow> 'w proxy \<Rightarrow>
   (Error \<times> 'w proxy) option" where
  "DeleteAndCreateEntity E arg ent p S =
     (let md = cre_restore_entity_md ent
      in if md_type md = MdDirectory then CreateEntity E arg ent p S
         else if NeedTmpFile md False \<and> crf_overwrite_existing_tmp arg \<and> md_first_path_to_hardlink md = None
         then DeleteTmpEntity E arg ent p S
         else DeleteNewEntity E arg ent p S)"

definition DeleteExistingEntity ::
  "'w smb_env \<Rightarrow> SmbProxyCreateRestoreFilesArg \<Rightarrow> CreateRestoreEntity \<Rightarrow> addr \<Rightarrow> 'w proxy \<Rightarrow>
   (Error \<times> 'w proxy) option" where
  "DeleteExistingEntity E arg ent p S =
     (let existing = cre_existing_file_handle ent;
          path = SmbPath E p (sess_of p S) (root_dir (crf_header arg) @ str_field (rfh_file_path existing));
          ty = ConvertEntityMetadataTypeToEntityType (md_type (rfh_entity_metadata existing))
      in do { (error, S) \<leftarrow> DeleteEntityOp_Execute E (crf_header arg) path ty False (Some p) S;
              if \<not> Ok error \<and> type_of error \<noteq> kNonExistent then Some (error, S)
              else DeleteAndCreateEntity E arg ent p S })"

subsection \<open>The entities of the request\<close>

definition HandleEntity ::
  "'w smb_env \<Rightarrow> SmbProxyCreateRestoreFilesArg \<Rightarrow> CreateRestoreEntity \<Rightarrow> addr \<Rightarrow> 'w proxy \<Rightarrow>
   (Error \<times> 'w proxy) option" where
  "HandleEntity E arg ent p S =
     (if IsUptierTask arg then DeleteAndCreateEntity E arg ent p S
      else case cre_existing_entity_md ent of
             None \<Rightarrow> DeleteAndCreateEntity E arg ent p S
           | Some existing \<Rightarrow>
               (case md_error existing of
                  Some error \<Rightarrow>
                    if type_of error = kNonExistent then DeleteAndCreateEntity E arg ent p S else Some (error, S)
                | None \<Rightarrow>
                    if md_type existing = MdDirectory \<and> md_type existing = md_type (cre_restore_entity_md ent)
                    then Some (no_error, S) else DeleteExistingEntity E arg ent p S))"

definition HandleNextEntity_create ::
  "'w smb_env \<Rightarrow> SmbProxyCreateRestoreFilesArg \<Rightarrow> CreateRestoreEntity \<Rightarrow> addr \<Rightarrow> 'w proxy \<Rightarrow>
   (Error \<times> 'w proxy) option" where
  "HandleNextEntity_create E arg ent p S =
     (if crf_overwrite_existing_tmp arg \<or> \<not> NeedTmpFile (handle_md ent) True then HandleEntity E arg ent p S
      else do {
        ((error, found_cached, held), S) \<leftarrow>
          FetchFileHandleOp_Execute E p (task_key (crf_header arg))
            (root_dir (crf_header arg) @ handle_tmp_path ent) True S;
        (error, S) \<leftarrow>
          (if \<not> Ok error then Some (error, S)
           else if found_cached \<and> \<not> IsTargetFileHardlink (handle_md ent) then Some (no_error, S)
           else HandleEntity E arg ent p S);
        Some (error, release_op held S) })"

fun create_entities ::
  "'w smb_env \<Rightarrow> SmbProxyCreateRestoreFilesArg \<Rightarrow> CreateRestoreEntity list \<Rightarrow> addr \<Rightarrow> 'w proxy \<Rightarrow>
   (Error list \<times> 'w proxy) option" where
  "create_entities E arg [] p S = Some ([], S)"
| "create_entities E arg (ent # ents) p S =
     do { (error, S) \<leftarrow> HandleNextEntity_create E arg ent p S;
          (errors, S) \<leftarrow> create_entities E arg ents p S;
          Some (error # errors, S) }"

definition SmbProxyCreateRestoreFiles ::
  "'w smb_env \<Rightarrow> SmbProxyCreateRestoreFilesArg \<Rightarrow> 'w proxy \<Rightarrow> (SmbProxyCreateRestoreFilesResult \<times> 'w proxy) option" where
  "SmbProxyCreateRestoreFiles E arg S =
     (let h = crf_header arg; error = ValidateSmbProxyBaseArg h
      in if \<not> Ok error then Some (\<lparr>crf_error = Some error, crf_entity_result_vec = []\<rparr>, S)
         else case GetOrCreate E h S of
                ((None, error), S) \<Rightarrow> Some (\<lparr>crf_error = Some error, crf_entity_result_vec = []\<rparr>, S)
              | ((Some p, _), S) \<Rightarrow>
                  do { (errors, S) \<leftarrow> create_entities E arg (crf_entity_metadata_vec arg) p S;
                       Some (\<lparr>crf_error = None, crf_entity_result_vec = errors\<rparr>, ReleaseSmbConnection E h p True S) })"

end
