(* ===== verification/Finalize_Restore_Files_Op.thy ===== *)
theory Finalize_Restore_Files_Op
  imports Entity_Loops Create_Restore_Files_Op
begin

text \<open>
  \<open>FinalizeRestoreFilesOp\<close> (\<open>ops/finalize_restore_files_op.cc\<close>): the last phase of a restore. A committed
  temporary file is renamed to its final name, or gets its hard link, and the metadata is set; a
  temporary file that is not committed is deleted. As in the first phase, the definitions for one entity
  return the error left in the entity's place of the result vector.
\<close>

record FinalizeEntity =
  fe_should_commit :: bool
  fe_restore_file_handle :: RestoreFileHandle

record SmbProxyFinalizeRestoreFilesArg =
  frf_header :: SmbProxyBaseArg
  frf_entities_vec :: "FinalizeEntity list"
  frf_nas_uptier_task :: "bool option"
  frf_nas_uptier_symlink_prefix :: string

subsection \<open>Metadata\<close>

text \<open>The first extended attribute with the name of the ACL is copied; the access time is the current one.\<close>

definition FillSmbMetadata :: "EntityMetadata \<Rightarrow> int \<Rightarrow> smbc_wrapper_entity_metadata" where
  "FillSmbMetadata md now =
     \<lparr>sm_inode_id = md_inode_id md, sm_num_hardlinks = md_num_hardlinks md, sm_size = md_size md,
      sm_allocation_size = md_allocation_size md, sm_attributes = md_attributes md, sm_uid = md_uid md,
      sm_gid = md_gid md, sm_create_time_ts = FillTimespecFromUsecs (md_create_time_usecs md),
      sm_access_time_ts = FillTimespecFromUsecs now,
      sm_modify_time_ts = FillTimespecFromUsecs (md_modify_time_usecs md),
      sm_change_time_ts = FillTimespecFromUsecs (md_change_time_usecs md),
      sm_acls = (case find (\<lambda>ea. fst ea = kSmbXattrACL) (md_extended_attributes md) of
                   None \<Rightarrow> [] | Some ea \<Rightarrow> snd ea)\<rparr>"

abbreviation fe_md :: "FinalizeEntity \<Rightarrow> EntityMetadata" where
  "fe_md ent \<equiv> rfh_entity_metadata (fe_restore_file_handle ent)"

abbreviation fe_path :: "FinalizeEntity \<Rightarrow> string" where
  "fe_path ent \<equiv> str_field (rfh_file_path (fe_restore_file_handle ent))"

abbreviation fe_tmp_path :: "FinalizeEntity \<Rightarrow> string" where
  "fe_tmp_path ent \<equiv> str_field (rfh_tmp_file_path (fe_restore_file_handle ent))"

definition sec_info :: uint32 where
  "sec_info = kOwnerSecurityInformation OR kGroupSecurityInformation OR kDaclSecurityInformation"

definition SetEntityAttribute ::
  "'w smb_env \<Rightarrow> SmbProxyFinalizeRestoreFilesArg \<Rightarrow> FinalizeEntity \<Rightarrow> addr \<Rightarrow> 'w proxy \<Rightarrow> Error \<times> 'w proxy" where
  "SetEntityAttribute E arg ent p S =
     (let path = SmbPath E p (sess_of p S) (root_dir (frf_header arg) @ fe_path ent);
          (now, S) = GetNowInUsecs E S;
          (ret, S) = on_conn p (e_set_metadata E path True True sec_info (FillSmbMetadata (fe_md ent) now) p) S
      in (if ret \<noteq> 0
          then smb_error p (\<lambda>m. ''Failed to set metadata for path '' @ path @ '', error msg: '' @ m) S
          else no_error, S))"

subsection \<open>Renaming the temporary file\<close>

definition IsUptierTask_finalize :: "SmbProxyFinalizeRestoreFilesArg \<Rightarrow> bool" where
  "IsUptierTask_finalize arg \<longleftrightarrow> frf_nas_uptier_task arg = Some True"

definition GetSymlinkTargetPath :: "SmbProxyFinalizeRestoreFilesArg \<Rightarrow> string \<Rightarrow> string option" where
  "GetSymlinkTargetPath arg file_path =
     do { CHECK (IsUptierTask_finalize arg); Some (frf_nas_uptier_symlink_prefix arg @ file_path) }"

definition rename_error :: "addr \<Rightarrow> string \<Rightarrow> string \<Rightarrow> 'w proxy \<Rightarrow> Error" where
  "rename_error p tmp_path path S =
     smb_error p (\<lambda>m. ''Failed to rename file from '' @ tmp_path @ '' to '' @ path @ '', error: '' @ m) S"

text \<open>The temporary file is deleted after a failed check or a failed rename.\<close>

definition drop_tmp ::
  "'w smb_env \<Rightarrow> addr \<Rightarrow> string \<Rightarrow> string \<Rightarrow> Error \<Rightarrow> 'w proxy \<Rightarrow> Error \<times> 'w proxy" where
  "drop_tmp E p tmp_path path error S =
     (let (ret, S) = on_conn p (e_delete_object E tmp_path p) S
      in (if ret \<noteq> 0
          then smb_error p (\<lambda>m. ''File '' @ path @ '' is not a symlink.'' @ ''Failed to delete file from '' @
                 tmp_path @ '', error: '' @ m) S
          else error, S))"

text \<open>The rename of an uptiering task, which replaces a symbolic link to the stored file. The test for a
  link is the source's \<^verbatim>\<open>attributes() && kSmbAttrReparsePoint\<close>, and a failure to look the existing
  file up stores the error of the lookup of the temporary file, which is none.\<close>

definition msg_symlink :: "string \<Rightarrow> string \<Rightarrow> string \<Rightarrow> string" where
  "msg_symlink path target desired =
     ''Symlink '' @ path @ ''->'' @ target @ '' is not a targeting to cohesity path '' @ desired"

definition rename_uptier ::
  "'w smb_env \<Rightarrow> SmbProxyFinalizeRestoreFilesArg \<Rightarrow> FinalizeEntity \<Rightarrow> addr \<Rightarrow> string \<Rightarrow> string \<Rightarrow> 'w proxy \<Rightarrow>
   (Error \<times> 'w proxy) option" where
  "rename_uptier E arg ent p tmp_path path S =
     (case on_conn p (GetEntityMetadata E p path True empty_metadata) S of
        ((error_existing, existing), S) \<Rightarrow>
          if \<not> Ok error_existing then Some (no_error, S)
          else if md_attributes existing \<noteq> 0 \<and> kSmbAttrReparsePoint \<noteq> 0
          then do {
            desired \<leftarrow> GetSymlinkTargetPath arg (md_path (fe_md ent));
            if desired \<noteq> md_symlink_target existing
            then Some (drop_tmp E p tmp_path path
                   (mk_error kInvalid (msg_symlink path (md_symlink_target existing) desired)) S)
            else let (ret, S) = on_conn p (e_rename E tmp_path path SMBC_ENTITY_TYPE_REGULAR True p) S
                 in if ret = 0 then Some (SetEntityAttribute E arg ent p S)
                    else Some (drop_tmp E p tmp_path path (rename_error p tmp_path path S) S) }
          else Some (drop_tmp E p tmp_path path
                 (mk_error kInvalid (''File '' @ path @ '' is not a symlink'')) S))"

definition rename_plain ::
  "'w smb_env \<Rightarrow> SmbProxyFinalizeRestoreFilesArg \<Rightarrow> FinalizeEntity \<Rightarrow> addr \<Rightarrow> string \<Rightarrow> string \<Rightarrow> 'w proxy \<Rightarrow>
   Error \<times> 'w proxy" where
  "rename_plain E arg ent p tmp_path path S =
     (let (ret, S) = on_conn p (e_rename_object E tmp_path path p) S
      in if ret \<noteq> 0 then (rename_error p tmp_path path S, S) else SetEntityAttribute E arg ent p S)"

text \<open>The work of \<open>RenameEntity\<close> below its memory context.\<close>

definition rename_found ::
  "'w smb_env \<Rightarrow> SmbProxyFinalizeRestoreFilesArg \<Rightarrow> FinalizeEntity \<Rightarrow> addr \<Rightarrow> string \<Rightarrow> string \<Rightarrow> 'w proxy \<Rightarrow>
   (Error \<times> 'w proxy) option" where
  "rename_found E arg ent p tmp_path path S =
     (case on_conn p (GetEntityMetadata E p tmp_path False empty_metadata) S of
        ((error, metadata), S) \<Rightarrow>
          if Ok error
          then if md_type metadata = MdFile
               then if IsUptierTask_finalize arg then rename_uptier E arg ent p tmp_path path S
                    else Some (rename_plain E arg ent p tmp_path path S)
               else Some (mk_error kInvalid (''Temporary file '' @ tmp_path @ '' is not a regular file''), S)
          else if type_of error \<noteq> kNonExistent then Some (error, S)
          else (case on_conn p (GetEntityMetadata E p path False metadata) S of
                  ((error, metadata), S) \<Rightarrow>
                    if \<not> Ok error then Some (error, S)
                    else if md_type metadata \<noteq> MdFile
                    then Some (mk_error kNonExistent (''Renamed file '' @ path @ '' is not a regular file''), S)
                    else Some (SetEntityAttribute E arg ent p S)))"

definition RenameEntity ::
  "'w smb_env \<Rightarrow> SmbProxyFinalizeRestoreFilesArg \<Rightarrow> FinalizeEntity \<Rightarrow> addr \<Rightarrow> 'w proxy \<Rightarrow>
   (Error \<times> 'w proxy) option" where
  "RenameEntity E arg ent p S =
     (let root = root_dir (frf_header arg);
          path = GetSmbPath None (root @ fe_path ent);
          tmp_path = SmbPath E p (sess_of p S) (root @ fe_tmp_path ent)
      in case e_talloc E (4 * kNumBytesInMB) (world S) of
           (None, w) \<Rightarrow>
             Some (mk_error kInvalid ''Failed to create memory context for fetching metadata'', S\<lparr>world := w\<rparr>)
         | (Some m, w) \<Rightarrow>
             do { (error, S) \<leftarrow> rename_found E arg ent p tmp_path path (S\<lparr>world := w\<rparr>);
                  Some (error, free_mem E m S) })"

subsection \<open>The entities of the request\<close>

definition HandleNextEntity_finalize ::
  "'w smb_env \<Rightarrow> SmbProxyFinalizeRestoreFilesArg \<Rightarrow> FinalizeEntity \<Rightarrow> addr \<Rightarrow> 'w proxy \<Rightarrow>
   (Error \<times> 'w proxy) option" where
  "HandleNextEntity_finalize E arg ent p S =
     (let fh = fe_restore_file_handle ent; root = root_dir (frf_header arg); md = fe_md ent
      in if rfh_tmp_file_path fh = None \<and> rfh_file_path fh = None then Some (no_error, S)
         else if rfh_tmp_file_path fh \<noteq> None
         then if fe_should_commit ent \<and> IsTargetFileHardlink md \<and> md_first_path_to_hardlink md = None
              then let target_tmp_path = SmbPath E p (sess_of p S) (root @ fe_tmp_path ent);
                       path = GetSmbPath None (root @ fe_path ent);
                       (ret, S) = on_conn p (e_create_hardlink E target_tmp_path path p) S
                   in if ret = -1
                      then Some (smb_error p (\<lambda>m. ''Failed to create hardlink for file '' @ path @ '', target '' @
                                   target_tmp_path @ ''. Error msg: '' @ m) S, S)
                      else Some (SetEntityAttribute E arg ent p S)
              else if \<not> fe_should_commit ent
              then let tmp_path = SmbPath E p (sess_of p S) (fe_tmp_path ent)
                   in do { (error, S) \<leftarrow> DeleteEntityOp_Execute E (frf_header arg) tmp_path
                             (ConvertEntityMetadataTypeToEntityType (md_type md)) False (Some p) S;
                           Some (if \<not> Ok error \<and> type_of error \<noteq> kNonExistent then error else no_error, S) }
              else RenameEntity E arg ent p S
         else Some (SetEntityAttribute E arg ent p S))"

definition SmbProxyFinalizeRestoreFiles ::
  "'w smb_env \<Rightarrow> SmbProxyFinalizeRestoreFilesArg \<Rightarrow> 'w proxy \<Rightarrow>
   ((Error option \<times> Error list) \<times> 'w proxy) option" where
  "SmbProxyFinalizeRestoreFiles E arg S =
     run_entities E (frf_header arg) (\<lambda>p ent. HandleNextEntity_finalize E arg ent p) (frf_entities_vec arg) S"

end
