(* ===== verification/Entity_Ops.thy ===== *)
theory Entity_Ops
  imports Entity_Loops
begin

text \<open>
  The remaining operations of \<open>gpl_util/smb/ops\<close>: \<open>RenameEntityOp\<close>, \<open>CreateSymlinkOp\<close> with the deletion
  its handler does first, \<open>WriteFilesDataOp\<close> and \<open>VerifyShareOp\<close>.
\<close>

subsection \<open>Renaming\<close>

definition rename_attempt ::
  "'w smb_env \<Rightarrow> SmbProxyBaseArg \<Rightarrow> string \<Rightarrow> string \<Rightarrow> smbc_entity_type \<Rightarrow> bool \<Rightarrow> addr \<Rightarrow> string \<Rightarrow> 'w proxy \<Rightarrow>
   (Error option \<times> string) \<times> 'w proxy" where
  "rename_attempt E h existing_path target_path ty replace p smb_path S =
     (let smb_path = (if smb_path = [] then SmbPath E p (sess_of p S) existing_path else smb_path);
          S = (if replace then PurgeFileHandle E (task_key h) target_path S else S);
          (ret, S) = on_conn p (e_rename E smb_path (GetSmbPath None target_path) ty replace p) S
      in ((if ret = -1
           then Some (smb_error p (\<lambda>m. ''Failed to rename entity '' @ c_str existing_path @ '' to '' @
                  c_str target_path @ '', error msg: '' @ m) S)
           else None, smb_path), S))"

definition SmbProxyRenameEntity ::
  "'w smb_env \<Rightarrow> SmbProxyBaseArg \<Rightarrow> string \<Rightarrow> string \<Rightarrow> EntityType option \<Rightarrow> bool \<Rightarrow> 'w proxy \<Rightarrow>
   Error option \<times> 'w proxy" where
  "SmbProxyRenameEntity E h existing target ty replace S =
     (let error = ValidateSmbProxyBaseArg h
      in if \<not> Ok error then (Some error, S)
         else if existing = [] then (Some (mk_error kInvalid ''The 'existing_path' field cannot be empty''), S)
         else if target = [] then (Some (mk_error kInvalid ''The 'target_path' field cannot be empty''), S)
         else let smb_ty = (case ty of None \<Rightarrow> SMBC_ENTITY_TYPE_REGULAR | Some t \<Rightarrow> ConvertEntityTypeToSmb t)
              in retry_loop E h (rename_attempt E h (root_dir h @ existing) (root_dir h @ target) smb_ty replace)
                   (max_attempts E) error [] S)"

subsection \<open>Symbolic links\<close>

definition symlink_attempt ::
  "'w smb_env \<Rightarrow> string \<Rightarrow> string \<Rightarrow> addr \<Rightarrow> string \<Rightarrow> 'w proxy \<Rightarrow> (Error option \<times> string) \<times> 'w proxy" where
  "symlink_attempt E path target_path p smb_path S =
     (let smb_path = (if smb_path = [] then SmbPath E p (sess_of p S) path else smb_path);
          target = map (\<lambda>c. if c = slash then bslash else c) target_path;
          fl = (if hd target \<noteq> bslash then kSymlinkFlagRelativePath else 0);
          (ret, S) = on_conn p (e_create_symlink E smb_path target fl p) S
      in ((if ret = -1
           then Some (smb_error p (\<lambda>m. ''Failed to create symlink at '' @ c_str path @ '' to '' @
                  c_str target_path @ '', error msg: '' @ m) S)
           else None, smb_path), S))"

definition CreateSymlinkOp_Start ::
  "'w smb_env \<Rightarrow> SmbProxyBaseArg \<Rightarrow> string \<Rightarrow> string \<Rightarrow> 'w proxy \<Rightarrow> Error option \<times> 'w proxy" where
  "CreateSymlinkOp_Start E h path target_path S =
     (let error = ValidateSmbProxyBaseArg h
      in if \<not> Ok error then (Some error, S)
         else if target_path = [] then (Some (mk_error kInvalid ''The 'target_path' field cannot be empty''), S)
         else retry_loop E h (symlink_attempt E (root_dir h @ path) target_path) (max_attempts E) error [] S)"

definition SmbProxyCreateSymlink ::
  "'w smb_env \<Rightarrow> SmbProxyBaseArg \<Rightarrow> string \<Rightarrow> string \<Rightarrow> bool \<Rightarrow> EntityType \<Rightarrow> 'w proxy \<Rightarrow>
   (Error option \<times> 'w proxy) option" where
  "SmbProxyCreateSymlink E h path target_path delete_entity ty S =
     do { (error, S) \<leftarrow>
            (if delete_entity then DeleteEntityOp_Execute E h (root_dir h @ path) ty False None S
             else Some (no_error, S));
          Some (if \<not> Ok error then (Some error, S) else CreateSymlinkOp_Start E h path target_path S) }"

subsection \<open>Writing the data of several files\<close>

record WriteFilesEntity =
  wfe_restore_file_handle :: RestoreFileHandle
  wfe_offset :: int
  wfe_data :: string

definition HandleNextEntity_write ::
  "'w smb_env \<Rightarrow> addr \<Rightarrow> WriteFilesEntity \<Rightarrow> 'w proxy \<Rightarrow> (Error \<times> 'w proxy) option" where
  "HandleNextEntity_write E p ent S =
     (let fh = wfe_restore_file_handle ent;
          path = str_field (rfh_tmp_file_path fh);
          path = (if path = [] then str_field (rfh_file_path fh) else path)
      in do { CHECK (path \<noteq> []);
              WriteFileDataHelper E path p (wfe_data ent) (int (length (wfe_data ent))) (wfe_offset ent)
                False False S })"

definition SmbProxyWriteFilesData ::
  "'w smb_env \<Rightarrow> SmbProxyBaseArg \<Rightarrow> WriteFilesEntity list \<Rightarrow> 'w proxy \<Rightarrow>
   ((Error option \<times> Error list) \<times> 'w proxy) option" where
  "SmbProxyWriteFilesData E h ents S = run_entities E h (HandleNextEntity_write E) ents S"

subsection \<open>Verifying a share\<close>

record SmbProxyVerifyShareResult =
  vs_first_working_ip :: string
  vs_logical_size_bytes :: int
  vs_available_size_bytes :: int
  vs_total_allocation_units :: int
  vs_caller_available_allocation_units :: int
  vs_actual_available_allocation_units :: int
  vs_sectors_per_allocation_unit :: uint32
  vs_bytes_per_sector :: uint32

definition share_sizes :: "string \<Rightarrow> smbc_wrapper_size_info \<Rightarrow> SmbProxyVerifyShareResult" where
  "share_sizes a si =
     (let size_bytes_per_unit = uint (si_sectors_per_allocation_unit si) * uint (si_bytes_per_sector si)
      in \<lparr>vs_first_working_ip = a,
          vs_logical_size_bytes = si_total_allocation_units si * size_bytes_per_unit,
          vs_available_size_bytes = si_actual_available_allocation_units si * size_bytes_per_unit,
          vs_total_allocation_units = si_total_allocation_units si,
          vs_caller_available_allocation_units = si_caller_available_allocation_units si,
          vs_actual_available_allocation_units = si_actual_available_allocation_units si,
          vs_sectors_per_allocation_unit = si_sectors_per_allocation_unit si,
          vs_bytes_per_sector = si_bytes_per_sector si\<rparr>)"

text \<open>The inner loop, over the addresses. The error variable is never reset, so an address is accepted only
  if no earlier one has failed.\<close>

fun verify_addresses ::
  "'w smb_env \<Rightarrow> SmbProxyBaseArg \<Rightarrow> string list \<Rightarrow> Error \<Rightarrow> 'w proxy \<Rightarrow>
   (SmbProxyVerifyShareResult option \<times> Error) \<times> 'w proxy" where
  "verify_addresses E h [] error S = ((None, error), S)"
| "verify_addresses E h (a # as) error S =
     (let ip_header = h\<lparr>server := a\<rparr>
      in case GetOrCreate E ip_header S of
           ((None, e), S) \<Rightarrow> verify_addresses E h as e S
         | ((Some p, _), S) \<Rightarrow>
             let (si, S) = on_conn p (e_get_share_size_info E p) S;
                 error = (if \<not> si_success si
                          then smb_error p (\<lambda>m. ''Failed to query size info for share '' @
                                 c_str (server h @ share h) @ '', error msg: '' @ m) S
                          else error);
                 S = discard_connection E ip_header p S
             in if \<not> Ok error then verify_addresses E h as error S
                else ((Some (share_sizes a si), error), S))"

fun verify_rounds ::
  "'w smb_env \<Rightarrow> SmbProxyBaseArg \<Rightarrow> string list \<Rightarrow> nat \<Rightarrow> Error \<Rightarrow> 'w proxy \<Rightarrow>
   (SmbProxyVerifyShareResult option \<times> Error) \<times> 'w proxy" where
  "verify_rounds E h addrs 0 error S = ((None, error), S)"
| "verify_rounds E h addrs (Suc n) error S =
     (case verify_addresses E h addrs error S of
        ((Some r, e), S) \<Rightarrow> ((Some r, e), S)
      | ((None, e), S) \<Rightarrow> verify_rounds E h addrs n e S)"

definition SmbProxyVerifyShare ::
  "'w smb_env \<Rightarrow> SmbProxyBaseArg \<Rightarrow> 'w proxy \<Rightarrow> ((Error + SmbProxyVerifyShareResult) \<times> 'w proxy) option" where
  "SmbProxyVerifyShare E h S =
     (let error = ValidateSmbProxyBaseArg h
      in if \<not> Ok error then Some (Inl error, S)
         else do {
           (addrs, w) \<leftarrow> MaybeResolveIPv4 (e_getaddrinfo E)
             (apache_util_net_dns_resolve_num_attempts (e_flags E)) (server h) (world S);
           let S = S\<lparr>world := w\<rparr>;
           let error = (if addrs = [] then mk_error kInvalid (''Cannot resolve '' @ server h) else error);
           case verify_rounds E h addrs (nat (smb_proxy_verify_share_retries (e_flags E) + 1)) error S of
             ((Some r, _), S) \<Rightarrow> Some (Inr r, S)
           | ((None, e), S) \<Rightarrow> Some (Inl e, S) })"

end
