(* ===== verification/Request_Frame.thy ===== *)
theory Request_Frame
  imports Finalize_Restore_Files_Op Entity_Ops Pool_System
begin

text \<open>
  What the work of a request does to the connection pool. Calls on a session, reads, writes, renames and
  the restore operations leave the lists of connections alone; taking a connection, working and giving
  it back leaves no connection behind in an active map. The theory holds these frame rules for the
  functions of \<open>smb_proxy.cc\<close> and of \<open>gpl_util/smb/ops\<close>; the requests are in \<open>Service\<close>.
\<close>

named_theorems op_frame "what an operation leaves alone"

subsection \<open>Work that leaves the pool alone\<close>

definition pool_view ::
  "'w proxy \<Rightarrow> (string, addr) umap \<times> addr \<times> addr \<times> (addr \<Rightarrow> (int, addr) umap) \<times> (addr \<Rightarrow> addr list) \<times>
   (addr \<Rightarrow> int) \<times> (addr \<Rightarrow> uint16)" where
  "pool_view S =
     (task_cache_map S, task_next S, conn_next S, active_connection_map \<circ> tasks S,
      inactive_connection_list \<circ> tasks S, creation_time_usecs \<circ> conns S, dir_handle \<circ> conns S)"

abbreviation pool_frame :: "'w proxy \<Rightarrow> 'w proxy \<Rightarrow> bool" where
  "pool_frame S T \<equiv> pool_view T = pool_view S"

lemma pool_frameD:
  assumes "pool_frame S T"
  shows "task_cache_map T = task_cache_map S" "task_next T = task_next S" "conn_next T = conn_next S"
    "active_connection_map (tasks T t) = active_connection_map (tasks S t)"
    "inactive_connection_list (tasks T t) = inactive_connection_list (tasks S t)"
    "creation_time_usecs (conns T p) = creation_time_usecs (conns S p)"
    "dir_handle (conns T p) = dir_handle (conns S p)"
  using assms by (auto simp: pool_view_def fun_eq_iff)

lemma pool_frame_quiet: "quiet S T \<Longrightarrow> pool_frame S T"
  by (simp add: pool_view_def quietD fun_eq_iff)

lemma pool_view_world [simp]: "pool_view (S\<lparr>world := w\<rparr>) = pool_view S"
  by (simp add: pool_view_def)

definition active_conns :: "'w proxy \<Rightarrow> addr set" where
  "active_conns S = (\<Union>kt\<in>set (task_cache_map S). snd ` set (active_connection_map (tasks S (snd kt))))"

lemma active_connsE:
  assumes "p \<in> active_conns S"
  obtains k t c where "(k, t) \<in> set (task_cache_map S)" "(c, p) \<in> set (active_connection_map (tasks S t))"
  using assms by (force simp: active_conns_def)

lemma active_connsI:
  "(k, t) \<in> set (task_cache_map S) \<Longrightarrow> (c, p) \<in> set (active_connection_map (tasks S t)) \<Longrightarrow> p \<in> active_conns S"
  by (force simp: active_conns_def)

lemma pool_frame_same:
  assumes "pool_frame S T"
  shows "pool_ok E T = pool_ok E S" "releasable T k q = releasable S k q" "active_conns T = active_conns S"
proof -
  have p: "pool_conns T = pool_conns S"
    by (simp add: pool_conns_def task_conns_def pool_frameD[OF assms])
  have t: "task_ok E T (tasks T t) = task_ok E S (tasks S t)" for t
    by (simp add: task_ok_def pool_frameD[OF assms])
  show "pool_ok E T = pool_ok E S"
    using p t by (simp add: pool_ok_def pool_frameD[OF assms])
  show "releasable T k q = releasable S k q" "active_conns T = active_conns S"
    using p by (simp_all add: releasable_def active_conns_def pool_frameD[OF assms])
qed

subsection \<open>Work that gives back what it takes\<close>

definition kept :: "'w smb_env \<Rightarrow> 'w proxy \<Rightarrow> 'w proxy \<Rightarrow> bool" where
  "kept E S T \<longleftrightarrow>
     (pool_ok E S \<longrightarrow>
        pool_ok E T \<and> active_conns T \<subseteq> active_conns S \<and> (\<forall>k q. releasable S k q \<longrightarrow> releasable T k q))"

lemma kept_trans [trans]: "kept E S T \<Longrightarrow> kept E T U \<Longrightarrow> kept E S U"
  unfolding kept_def by blast

lemma kept_frame:
  assumes "pool_frame S T"
  shows "kept E S T"
  by (simp add: kept_def pool_frame_same[OF assms])

lemma kept_refl [simp]: "kept E S S"
  by (simp add: kept_def)

text \<open>Taking a connection adds at most that connection to the active ones.\<close>

lemma find_task_active:
  assumes "pool_ok E S" "find_task E arg S = (t, S1)"
  shows "active_conns S1 \<subseteq> active_conns S"
proof -
  have old: "active_connection_map (tasks S1 u) = active_connection_map (tasks S u)"
    if "(k, u) \<in> set (task_cache_map S)" for k u
    using assms that pool_okD(3)[OF assms(1)]
    by (fastforce simp: find_task_def GetNowInUsecs_def upd_task_def split: option.splits prod.splits)
  have new: "active_connection_map (tasks S1 (task_next S)) = []"
    if "map_of (task_cache_map S) (task_key arg) = None"
    using assms(2) that by (auto simp: find_task_def GetNowInUsecs_def upd_task_def new_TaskCacheEntry_def split: prod.splits)
  have grow: "set (task_cache_map S1) \<subseteq> set (task_cache_map S) \<union>
      (if map_of (task_cache_map S) (task_key arg) = None then {(task_key arg, task_next S)} else {})"
    using assms(2) by (auto simp: find_task_def GetNowInUsecs_def upd_task_def set_emplace split: option.splits prod.splits)
  show ?thesis
  proof (intro subsetI)
    fix p
    assume "p \<in> active_conns S1"
    then obtain k u c where u: "(k, u) \<in> set (task_cache_map S1)" "(c, p) \<in> set (active_connection_map (tasks S1 u))"
      by (rule active_connsE)
    then show "p \<in> active_conns S"
      using old new grow by (cases "(k, u) \<in> set (task_cache_map S)") (auto intro: active_connsI split: if_splits)
  qed
qed

lemma take_active:
  assumes ok: "pool_ok E S" and f: "GetOrCreateSmbConnection E arg h (-1) cf S = ((po, e), T)"
  shows "active_conns T \<subseteq> active_conns S \<union> set_option po"
proof -
  obtain t S1 where t: "find_task E arg S = (t, S1)" by (rule prod.exhaust)
  note F = find_task_facts[OF ok t]
  have c: "checkout E arg h (-1) cf t S1 = ((po, e), T)" using f t by (simp add: GetOrCreateSmbConnection_def)
  note C = checkout_facts[OF F(1) live_task[OF F(2)] c]
  have "set (active_connection_map (tasks T u)) \<subseteq> set (active_connection_map (tasks S1 u)) \<union> UNIV \<times> set_option po" for u
    using C by (cases "u = t") (auto simp: set_emplace split: if_splits)
  moreover have "task_cache_map T = task_cache_map S1" using C by simp
  ultimately have "active_conns T \<subseteq> active_conns S1 \<union> set_option po"
    by (force elim!: active_connsE intro: active_connsI)
  with find_task_active[OF ok t] show ?thesis by blast
qed

text \<open>Giving it back removes it from the active ones.\<close>

lemma release_active:
  assumes ok: "pool_ok E S" and r: "releasable S (task_key arg) p"
  shows "active_conns (ReleaseSmbConnection E arg p reuse S) \<subseteq> active_conns S - {p}"
proof -
  let ?T = "ReleaseSmbConnection E arg p reuse S"
  note F = Release_shape[where E = E and arg = arg and p = p and reuse = reuse and S = S, OF refl]
  have sub: "set (active_connection_map (tasks ?T u)) \<subseteq> set (active_connection_map (tasks S u))" for u
    using F(4) by (auto simp: released_def split: option.splits)
  have "(c, p) \<notin> set (active_connection_map (tasks ?T u))" if u: "(k, u) \<in> set (task_cache_map S)" for k u c
  proof
    assume a: "(c, p) \<in> set (active_connection_map (tasks ?T u))"
    then have aS: "(c, p) \<in> set (active_connection_map (tasks S u))" using sub by blast
    then have "p \<in> set (task_conns (tasks S u))" by (force simp: task_conns_def)
    then obtain t where t: "map_of (task_cache_map S) (task_key arg) = Some t" "p \<in> snd ` set (active_connection_map (tasks S t))"
      using r task_conns_pool[OF u] by (auto simp: releasable_def)
    have "u = t"
      using pool_disjoint[OF ok live_task[OF t(1)] u, of p] t(2) aS by (force simp: task_conns_def)
    moreover have "c = creation_time_usecs (conns S p)"
      using pool_okD(6)[OF ok u] aS by (auto simp: task_ok_def)
    ultimately show False using a F(4) t(1) by (simp add: released_def)
  qed
  then show ?thesis using sub F(1) by (force elim!: active_connsE intro: active_connsI)
qed

text \<open>A request that takes a connection, works and gives it back.\<close>

lemma bracket:
  assumes take: "GetOrCreateSmbConnection E arg h (-1) cf S = ((Some p, e), S1)" and work: "kept E S1 S2"
  shows "kept E S (ReleaseSmbConnection E arg p reuse S2)"
  unfolding kept_def
proof (intro impI)
  assume ok: "pool_ok E S"
  note F = take_connection_facts[OF ok take]
  have 2: "pool_ok E S2" "active_conns S2 \<subseteq> active_conns S1" "releasable S2 (task_key arg) p"
    and keep: "\<And>k q. releasable S1 k q \<Longrightarrow> releasable S2 k q"
    using work F(1) F(5)[OF refl] by (auto simp: kept_def)
  have "releasable (ReleaseSmbConnection E arg p reuse S2) k q" if q: "releasable S k q" for k q
  proof -
    have "q \<notin> idle_conns S" "q < conn_next S"
      using q pool_usable_not_idle[OF ok, of "(arg\<lparr>task_key := k\<rparr>, [])" q] by (auto simp: pool_usable_def releasable_def)
    with F(4)[OF refl] have "q \<noteq> p" by auto
    then show ?thesis using Release_others[OF 2(1,3) keep] F(6)[OF q] by blast
  qed
  moreover have "active_conns S1 \<subseteq> insert p (active_conns S)" using take_active[OF ok take] by simp
  with release_active[OF 2(1,3), of reuse] 2(2)
  have "active_conns (ReleaseSmbConnection E arg p reuse S2) \<subseteq> active_conns S" by blast
  ultimately show "pool_ok E (ReleaseSmbConnection E arg p reuse S2) \<and>
      active_conns (ReleaseSmbConnection E arg p reuse S2) \<subseteq> active_conns S \<and>
      (\<forall>k q. releasable S k q \<longrightarrow> releasable (ReleaseSmbConnection E arg p reuse S2) k q)"
    using Release_pool_ok[OF 2(1,3)] by blast
qed

lemma bracket_discard:
  assumes "GetOrCreateSmbConnection E arg h (-1) cf S = ((Some p, e), S1)" "kept E S1 S2"
  shows "kept E S (discard_connection E arg p S2)"
  unfolding discard_connection_def
  by (rule bracket[OF assms(1) kept_trans[OF assms(2) kept_frame[OF pool_frame_quiet[OF quiet_shutdown]]]])

lemma kept_no_connection:
  assumes "GetOrCreateSmbConnection E arg h (-1) cf S = ((None, e), T)"
  shows "kept E S T"
  using take_connection_facts(1,6)[OF _ assms] take_active[OF _ assms] by (auto simp: kept_def)

subsection \<open>The operations on a connection\<close>

lemma frame_on_conn [op_frame]: "on_conn p f S = (r, T) \<Longrightarrow> pool_frame S T"
  by (rule pool_frame_quiet[OF quiet_on_conn])

lemma frame_now [op_frame]: "GetNowInUsecs E S = (t, T) \<Longrightarrow> pool_frame S T"
  by (simp add: pool_frame_quiet quiet_now)

lemma frame_try_conn [op_frame]: "try_conn p f S = Some (r, T) \<Longrightarrow> pool_frame S T"
  by (auto simp: try_conn_def intro: pool_frame_quiet[OF quiet_put_sess] split: bind_splits)

lemma frame_upd_conn:
  assumes "\<And>c. creation_time_usecs (f c) = creation_time_usecs c \<and> dir_handle (f c) = dir_handle c"
  shows "pool_frame S (upd_conn p f S)"
  using assms by (simp add: pool_view_def upd_conn_def fun_eq_iff)

lemma frame_on_conn_snd [simp]: "pool_view (snd (on_conn p f S)) = pool_view S"
  by (rule pool_frame_quiet[OF quiet_on_conn_snd])

lemma frame_touch [simp]: "pool_view (UpdateTaskAccessTime E key S) = pool_view S"
  using quietD[OF UpdateTaskAccessTime_shape(1)[of S E key]] UpdateTaskAccessTime_shape(2,3)[of E key S]
  by (simp add: pool_view_def fun_eq_iff)

lemma frame_free_mem [simp]: "pool_view (free_mem E m S) = pool_view S"
  by (simp add: free_mem_def)

lemma frame_handles [simp]:
  "pool_view (upd_conn p pop_handle S) = pool_view S" "pool_view (upd_conn p (forget_handle path) S) = pool_view S"
  "pool_view (upd_conn p (push_handle path fnum) S) = pool_view S"
  by (rule frame_upd_conn; simp add: pop_handle_def forget_handle_def push_handle_def Let_def split: option.split)+

lemma frame_purge_conn [simp]: "pool_view (purge_conn_file_handle E path p S) = pool_view S"
  by (simp add: purge_conn_file_handle_def split: option.split)

lemma frame_fold_purge [simp]: "pool_view (fold (purge_conn_file_handle E path) ps S) = pool_view S"
  by (induction ps arbitrary: S) simp_all

lemma frame_purge_handle [simp]: "pool_view (PurgeFileHandle E key path S) = pool_view S"
  by (simp add: PurgeFileHandle_def Let_def split: option.split)

lemma frame_evict [op_frame]: "evict_handles E p n S = Some T \<Longrightarrow> pool_frame S T"
  by (induction n arbitrary: S)
     (auto simp: Let_def split: if_splits bind_splits)

lemma frame_keep_handle [op_frame]: "keep_handle E path v fnum p S = Some T \<Longrightarrow> pool_frame S T"
  unfolding keep_handle_def UpdateFileHandle_def Let_def by (auto split: option.splits if_splits dest!: frame_evict)

text \<open>Reading and writing.\<close>

lemma frame_read_once [op_frame]:
  "read_once E path smb_path p off sz pos fnum buf S = Some (r, T) \<Longrightarrow> pool_frame S T"
  by (auto simp: read_once_def Let_def split: prod.splits option.splits if_splits bind_splits dest!: frame_on_conn)

lemma frame_read_loop [op_frame]:
  "read_loop E path smb_path p off sz pos n fnum buf S = Some (r, T) \<Longrightarrow> pool_frame S T"
  by (induction n arbitrary: fnum buf S)
     (auto split: prod.splits if_splits bind_splits dest!: frame_read_once)

lemma frame_read_bytes [op_frame]:
  "ReadBytesFromOffset E path p off sz buf boff cache S = Some (r, T) \<Longrightarrow> pool_frame S T"
  by (auto simp: ReadBytesFromOffset_def split: prod.splits bind_splits dest!: op_frame)

text \<open>Induction on partial functions.\<close>

lemma admissible_point: "option.admissible (\<lambda>f. f x = Some y \<longrightarrow> Q)"
  using option_admissible[of "\<lambda>x' y'. x' = x \<longrightarrow> y' = y \<longrightarrow> Q"] by simp

lemma frame_read_all_all:
  "\<forall>E path p off cache requested mx todo got buf S y.
     read_all E path p off cache requested mx todo got buf S = Some y \<longrightarrow> pool_frame S (snd y)"
proof (rule read_all.fixp_induct, goal_cases)
  case 1
  show ?case unfolding curry_def by (intro admissible_all admissible_point)
next
  case (3 f)
  then show ?case by (fastforce split: if_splits bind_splits dest!: frame_read_bytes)
qed simp

lemma frame_write_once [op_frame]:
  "write_once E path smb_path p off sz dptr fnum error S = Some (r, T) \<Longrightarrow> pool_frame S T"
  by (auto simp: write_once_def Let_def split: prod.splits option.splits if_splits bind_splits dest!: frame_on_conn)

lemma frame_write_loop [op_frame]:
  "write_loop E path smb_path p off sz dptr n fnum error S = Some (r, T) \<Longrightarrow> pool_frame S T"
  by (induction n arbitrary: fnum error S)
     (auto split: prod.splits if_splits bind_splits dest!: frame_write_once)

lemma frame_write_bytes [op_frame]:
  "WriteBytesToOffset E path p off sz dptr cache S = Some (r, T) \<Longrightarrow> pool_frame S T"
  by (auto simp: WriteBytesToOffset_def split: prod.splits bind_splits dest!: op_frame)

lemma frame_write_all_all:
  "\<forall>E path p x off cache requested mx todo got S y.
     write_all E path p x off cache requested mx todo got S = Some y \<longrightarrow> pool_frame S (snd y)"
proof (rule write_all.fixp_induct, goal_cases)
  case 1
  show ?case unfolding curry_def by (intro admissible_all admissible_point)
next
  case (3 f)
  then show ?case by (fastforce split: if_splits bind_splits dest!: frame_write_bytes)
qed simp

lemma frame_read_all [op_frame]:
  "read_all E path p off cache requested mx todo got buf S = Some (r, T) \<Longrightarrow> pool_frame S T"
  using frame_read_all_all by fastforce

lemma frame_write_helper [op_frame]:
  "WriteFileDataHelper E path p x sz off cache stub S = Some (r, T) \<Longrightarrow> pool_frame S T"
  using frame_write_all_all by (fastforce simp: WriteFileDataHelper_def Let_def split: bind_splits)

text \<open>Deletion of everything but directories.\<close>

lemma frame_delete_file [op_frame]: "DeleteFile E p path S = (r, T) \<Longrightarrow> pool_frame S T"
  by (auto simp: DeleteFile_def DeleteFileHelper_def ClearFileAttributes_def Let_def
      split: prod.splits if_splits dest!: frame_on_conn)

lemma frame_delete_by_type:
  "delete_by_type E h p path ty excl S = Some (r, T) \<Longrightarrow> ty \<noteq> kDirectory \<Longrightarrow> pool_frame S T"
  by (auto simp: delete_by_type_def DeleteEntity_def Let_def
      split: EntityType.splits prod.splits if_splits dest!: op_frame)

text \<open>The deletion of a directory lists it on further connections. \<open>dirs_kept\<close> says that it gives them back.\<close>

definition dirs_kept :: "'w smb_env \<Rightarrow> bool" where
  "dirs_kept E \<longleftrightarrow>
     (\<forall>h p path excl S r T. delete_by_type E h p path kDirectory excl S = Some (r, T) \<longrightarrow> kept E S T)"

lemma kept_delete_by_type:
  assumes "delete_by_type E h p path ty excl S = Some (r, T)" "ty = kDirectory \<longrightarrow> dirs_kept E"
  shows "kept E S T"
  using assms kept_frame[OF frame_delete_by_type[OF assms(1)]] by (cases "ty = kDirectory") (auto simp: dirs_kept_def)

lemma kept_delete_op:
  assumes "DeleteEntityOp_Execute E h path ty excl po S = Some (r, T)" "ty = kDirectory \<longrightarrow> dirs_kept E"
  shows "kept E S T"
  using assms
  by (auto simp: DeleteEntityOp_Execute_def Let_def split: if_splits bind_splits option.splits prod.splits
      dest!: kept_delete_by_type elim: kept_no_connection bracket)

text \<open>The cache of opened files and the lock of a path.\<close>

lemma frame_fhes [simp]:
  "pool_view (upd_fhe a f S) = pool_view S" "pool_view (S\<lparr>id_locker := L\<rparr>) = pool_view S"
  "pool_view (S\<lparr>fhes := x\<rparr>) = pool_view S" "pool_view (S\<lparr>fhe_next := n\<rparr>) = pool_view S"
  "pool_view (S\<lparr>file_handles_map := m\<rparr>) = pool_view S"
  by (simp_all add: pool_view_def upd_fhe_def)

lemma frame_locks [simp]:
  "pool_view (lock_path path S) = pool_view S" "pool_view (release_op held S) = pool_view S"
  by (simp_all add: lock_path_def release_op_def unlock_path_def split: prod.split option.split)

lemma frame_lookup [op_frame]: "LookupFileHandle E a path S = (r, T) \<Longrightarrow> pool_frame S T"
  by (auto simp: LookupFileHandle_def IsErrorStale_def Let_def
      split: prod.splits option.splits if_splits dest!: frame_now)

lemma frame_add_cache [simp]: "pool_view (AddToLRUCache E a path error S) = pool_view S"
  by (auto simp: AddToLRUCache_def Let_def split: prod.splits if_splits dest!: frame_now)

lemma frame_open_or_create [op_frame]: "open_or_create E p path S = (r, T) \<Longrightarrow> pool_frame S T"
  by (auto simp: open_or_create_def Let_def split: prod.splits if_splits dest!: frame_on_conn)

lemma frame_fetch_locked [op_frame]:
  "FetchFileHandleLocked E p a path cr S = Some (r, T) \<Longrightarrow> pool_frame S T"
  by (auto simp: FetchFileHandleLocked_def Let_def
      split: prod.splits option.splits if_splits bind_splits dest!: op_frame)

lemma frame_handles_entry [op_frame]: "GetFileHandlesEntry E key S = Some (r, T) \<Longrightarrow> pool_frame S T"
  by (auto simp: GetFileHandlesEntry_def Let_def split: prod.splits option.splits if_splits bind_splits dest!: frame_now)

lemma frame_fetch_handle [op_frame]:
  "FetchFileHandleOp_Execute E p key path cr S = Some (r, T) \<Longrightarrow> pool_frame S T"
  by (auto simp: FetchFileHandleOp_Execute_def FetchFileHandle_def Let_def
      split: prod.splits option.splits if_splits bind_splits
      dest!: op_frame)

text \<open>The operations of a restore.\<close>

lemma frame_hardlink [op_frame]: "CreateHardlink E arg ent p vol S = Some (r, T) \<Longrightarrow> pool_frame S T"
  by (auto simp: CreateHardlink_def Let_def split: prod.splits if_splits bind_splits dest!: frame_on_conn)

lemma frame_regular_file [op_frame]: "CreateRegularFile E arg ent p S = Some (r, T) \<Longrightarrow> pool_frame S T"
  by (auto simp: CreateRegularFile_def Let_def split: prod.splits if_splits dest!: op_frame)

lemma frame_create_entity [op_frame]: "CreateEntity E arg ent p S = Some (r, T) \<Longrightarrow> pool_frame S T"
  by (auto simp: CreateEntity_def DoCreateEntity_def Let_def
      split: prod.splits if_splits bind_splits MdEntityType.splits dest!: op_frame)

lemma frame_links [op_frame]: "IsHardlinksToEachOther E p x y S = (r, T) \<Longrightarrow> pool_frame S T"
  by (auto simp: IsHardlinksToEachOther_def Let_def split: prod.splits if_splits dest!: frame_on_conn)

lemma frame_delete_new [op_frame]: "DeleteNewEntity E arg ent p S = Some (r, T) \<Longrightarrow> pool_frame S T"
  by (auto simp: DeleteNewEntity_def Let_def
      split: prod.splits if_splits dest!: op_frame)

lemma frame_delete_tmp [op_frame]: "DeleteTmpEntity E arg ent p S = Some (r, T) \<Longrightarrow> pool_frame S T"
  by (auto simp: DeleteTmpEntity_def Let_def split: prod.splits if_splits dest!: op_frame)

lemma frame_delete_create [op_frame]: "DeleteAndCreateEntity E arg ent p S = Some (r, T) \<Longrightarrow> pool_frame S T"
  by (auto simp: DeleteAndCreateEntity_def Let_def
      split: if_splits dest!: op_frame)

definition replaces_dir :: "CreateRestoreEntity \<Rightarrow> bool" where
  "replaces_dir ent \<longleftrightarrow> md_type (rfh_entity_metadata (cre_existing_file_handle ent)) = MdDirectory"

lemma md_directory [simp]: "ConvertEntityMetadataTypeToEntityType ty = kDirectory \<longleftrightarrow> ty = MdDirectory"
  by (cases ty) (simp_all add: ConvertEntityMetadataTypeToEntityType_def)

lemma kept_handle_entity:
  assumes "HandleEntity E arg ent p S = Some (r, T)" "replaces_dir ent \<longrightarrow> dirs_kept E"
  shows "kept E S T"
proof -
  have create: "DeleteAndCreateEntity E arg ent p S = Some (r, T) \<Longrightarrow> kept E S T" for S r
    by (rule kept_frame[OF frame_delete_create])
  from assms show ?thesis
    by (auto simp: HandleEntity_def DeleteExistingEntity_def replaces_dir_def Let_def
        split: if_splits option.splits bind_splits dest!: kept_delete_op create intro: kept_trans)
qed

lemma kept_next_create:
  assumes "HandleNextEntity_create E arg ent p S = Some (r, T)" "replaces_dir ent \<longrightarrow> dirs_kept E"
  shows "kept E S T"
proof -
  have fetch: "FetchFileHandleOp_Execute E p key path cr S = Some (x, U) \<Longrightarrow> kept E S U" for key path cr S x U
    by (rule kept_frame[OF frame_fetch_handle])
  have release: "kept E S (release_op held U) = kept E S U" for S U held
    using pool_frame_same[of U "release_op held U"] by (simp add: kept_def)
  note entity = kept_handle_entity[OF _ assms(2)]
  from assms(1) show ?thesis
    by (auto simp: HandleNextEntity_create_def release split: if_splits bind_splits
        dest!: fetch entity) (metis kept_trans)+
qed

lemma kept_create_entities:
  "create_entities E arg ents p S = Some (r, T) \<Longrightarrow> (\<exists>ent\<in>set ents. replaces_dir ent) \<longrightarrow> dirs_kept E \<Longrightarrow> kept E S T"
proof (induction ents arbitrary: S r T)
  case (Cons ent ents)
  from Cons.prems(1) obtain x S1 errors where
    "HandleNextEntity_create E arg ent p S = Some (x, S1)" "create_entities E arg ents p S1 = Some (errors, T)"
    by (auto split: bind_splits)
  with Cons.IH Cons.prems(2) have "kept E S S1" "kept E S1 T" by (auto intro: kept_next_create)
  then show ?case by (rule kept_trans)
qed simp

lemma frame_set_attribute [op_frame]: "SetEntityAttribute E arg ent p S = (r, T) \<Longrightarrow> pool_frame S T"
  by (auto simp: SetEntityAttribute_def Let_def split: prod.splits if_splits dest!: op_frame)

lemma frame_drop_tmp [op_frame]: "drop_tmp E p tmp path error S = (r, T) \<Longrightarrow> pool_frame S T"
  by (auto simp: drop_tmp_def Let_def split: prod.splits if_splits dest!: frame_on_conn)

lemma frame_rename_uptier [op_frame]: "rename_uptier E arg ent p tmp path S = Some (r, T) \<Longrightarrow> pool_frame S T"
  by (auto simp: rename_uptier_def Let_def
      split: prod.splits if_splits bind_splits dest!: op_frame)

lemma frame_rename_found [op_frame]: "rename_found E arg ent p tmp path S = Some (r, T) \<Longrightarrow> pool_frame S T"
  by (auto simp: rename_found_def rename_plain_def Let_def
      split: prod.splits if_splits dest!: op_frame)

lemma frame_rename_entity [op_frame]: "RenameEntity E arg ent p S = Some (r, T) \<Longrightarrow> pool_frame S T"
  by (auto simp: RenameEntity_def Let_def split: prod.splits option.splits bind_splits dest!: frame_rename_found)

lemma kept_next_finalize:
  assumes "HandleNextEntity_finalize E arg ent p S = Some (r, T)" "md_type (fe_md ent) = MdDirectory \<longrightarrow> dirs_kept E"
  shows "kept E S T"
  using assms
  by (auto simp: HandleNextEntity_finalize_def Let_def split: prod.splits if_splits bind_splits
      dest!: frame_on_conn frame_set_attribute frame_rename_entity kept_delete_op intro: kept_frame)

lemma frame_next_write [op_frame]: "HandleNextEntity_write E p ent S = Some (r, T) \<Longrightarrow> pool_frame S T"
  by (auto simp: HandleNextEntity_write_def Let_def split: bind_splits dest!: frame_write_helper)

subsection \<open>Requests\<close>

lemma kept_entity_loop:
  assumes "\<And>ent S r T. ent \<in> set ents \<Longrightarrow> step ent S = Some (r, T) \<Longrightarrow> kept E S T"
  shows "entity_loop step ents first retry S = Some (r, T) \<Longrightarrow> kept E S T"
  using assms
proof (induction ents arbitrary: first retry S r T)
  case (Cons ent ents)
  have IH: "entity_loop step ents f y S = Some (r, T) \<Longrightarrow> kept E S T" for f y S r T
    using Cons.IH Cons.prems(2) by (metis list.set_intros(2))
  from Cons.prems(1) Cons.prems(2)[of ent] show ?case
    by (fastforce simp: Let_def split: option.splits bind_splits dest!: IH intro: kept_trans)
qed simp

lemma kept_run_entities:
  assumes step: "\<And>p ent S r T. ent \<in> set ents \<Longrightarrow> step p ent S = Some (r, T) \<Longrightarrow> kept E S T"
    and run: "run_entities E h step ents S = Some (r, T)"
  shows "kept E S T"
proof (cases "Ok (ValidateSmbProxyBaseArg h)")
  case False
  with run show ?thesis by (auto simp: run_entities_def Let_def)
next
  case True
  obtain po e S1 where g: "GetOrCreate E h S = ((po, e), S1)" by (rule pair_fstE)
  show ?thesis
  proof (cases po)
    case None
    with run True g have "T = S1" by (auto simp: run_entities_def Let_def)
    with kept_no_connection g None show ?thesis by blast
  next
    case (Some p)
    with run True g obtain errors first retry S2 where
      l: "entity_loop (step p) ents None None S1 = Some ((errors, first, retry), S2)" and
      T: "T = (if retry \<noteq> None then discard_connection E h p S2 else ReleaseSmbConnection E h p True S2)"
      by (auto simp: run_entities_def Let_def split: bind_splits)
    have w: "kept E S1 S2" by (rule kept_entity_loop[OF step l])
    show ?thesis using bracket[OF g[unfolded Some] w] bracket_discard[OF g[unfolded Some] w] by (simp add: T)
  qed
qed

lemma kept_retry_loop:
  assumes step: "\<And>p path S r T. attempt p path S = (r, T) \<Longrightarrow> pool_frame S T"
  shows "retry_loop E h attempt n error path S = (r, T) \<Longrightarrow> kept E S T"
proof (induction n arbitrary: error path S)
  case (Suc n)
  obtain po e S1 where g: "GetOrCreate E h S = ((po, e), S1)" by (rule pair_fstE)
  show ?case
  proof (cases po)
    case None
    with Suc.prems g kept_no_connection show ?thesis by fastforce
  next
    case (Some p)
    obtain ro path' S2 where a: "attempt p path S1 = ((ro, path'), S2)" by (rule pair_fstE)
    have w: "kept E S1 S2" by (rule kept_frame[OF step[OF a]])
    note b = bracket[OF g[unfolded Some] w] and d = bracket_discard[OF g[unfolded Some] w]
    show ?thesis
    proof (cases "\<exists>x. ro = Some x \<and> type_of x = kRetry")
      case True
      with Suc.prems Suc.IH g Some a kept_trans[OF d] show ?thesis by fastforce
    next
      case False
      with Suc.prems g Some a have "T = ReleaseSmbConnection E h p True S2" by (auto split: option.splits if_splits)
      with b show ?thesis by simp
    qed
  qed
qed simp

end
