(* ===== verification/Self_Monitor.thy ===== *)
theory Self_Monitor
  imports Conn_Pool
begin

text \<open>
  The process helpers of \<open>gpl_util/base/util.cc\<close>: the check of the resident memory that ends the alarm
  handler, and the loop in which the parent process watches one child; the loop around it is in
  \<open>Process_Main\<close>, the formatting helpers are in \<open>Log_Text\<close>. Log lines are not modelled.
\<close>

subsection \<open>Memory check\<close>

definition GetCurrentResidentMemory :: "'w smb_env \<Rightarrow> 'w \<Rightarrow> int" where
  "GetCurrentResidentMemory E w =
     (case e_statm_pages E w of None \<Rightarrow> 0 | Some rss_num_pages \<Rightarrow> rss_num_pages * e_page_size E)"

text \<open>The unsigned 64-bit limit is returned as a signed number; a failed \<^verbatim>\<open>getrlimit\<close> aborts.\<close>

definition GetResidentMemoryLimit :: "'w smb_env \<Rightarrow> 'w \<Rightarrow> int option" where
  "GetResidentMemoryLimit E w = map_option sint (e_rlimit_rss E w)"

definition CheckMemoryUsage :: "'w smb_env \<Rightarrow> 'w \<Rightarrow> 'w option" where
  "CheckMemoryUsage E w =
     do { resident_memory_limit \<leftarrow> GetResidentMemoryLimit E w;
          let extra_allowance_bytes = gpl_util_memory_usage_additional_allowance_MB (e_flags E) * 1024 * 1024;
          let w = e_release_memory E w;
          CHECK (GetCurrentResidentMemory E w \<le> resident_memory_limit + extra_allowance_bytes);
          Some w }"

definition AlarmHandler :: "'w smb_env \<Rightarrow> 'w proxy \<Rightarrow> 'w proxy option" where
  "AlarmHandler E S =
     (let S = AlarmPurge E S
      in if smb_proxy_check_memory_usage (e_flags E)
         then do { w \<leftarrow> CheckMemoryUsage E (world S); Some (S\<lparr>world := w\<rparr>) }
         else Some S)"

subsection \<open>Watching the child process\<close>

text \<open>What one round of the inner loop of \<open>StartSelfMonitoring\<close> sees: the answer of the monitor function if
  there is one, whether a \<^verbatim>\<open>kill\<close> succeeds, and the state \<^verbatim>\<open>waitpid\<close> reports if it changed.\<close>

datatype child_status = WCONTINUED_child | WSTOPPED_child | WSIGNALED_child | WEXITED_child | WUNKNOWN_child

record monitor_round =
  mr_monitor :: "bool option"
  mr_kill :: bool
  mr_wait :: "child_status option"

text \<open>Whether the round sends an abort signal that is delivered.\<close>

definition kills :: "monitor_round \<Rightarrow> bool" where
  "kills r \<longleftrightarrow> mr_monitor r = Some False \<and> mr_kill r"

text \<open>The inner loop: the number of the round in which it is left to start another child, if it is. Every
  branch of the status test continues or breaks, so the test of \<open>should_break\<close> behind it is not reached.\<close>

fun watch_child :: "bool \<Rightarrow> monitor_round list \<Rightarrow> nat option" where
  "watch_child should_break [] = None"
| "watch_child should_break (r # rs) =
     (let should_break = (should_break \<or> kills r)
      in case mr_wait r of
           None \<Rightarrow> map_option Suc (watch_child should_break rs)
         | Some WCONTINUED_child \<Rightarrow> map_option Suc (watch_child should_break rs)
         | Some WSTOPPED_child \<Rightarrow> map_option Suc (watch_child should_break rs)
         | Some WSIGNALED_child \<Rightarrow> Some 0
         | Some WEXITED_child \<Rightarrow> Some 0
         | Some WUNKNOWN_child \<Rightarrow> Some 0)"

definition gone :: "monitor_round \<Rightarrow> bool" where
  "gone r \<longleftrightarrow> mr_wait r \<noteq> None \<and> mr_wait r \<noteq> Some WCONTINUED_child \<and> mr_wait r \<noteq> Some WSTOPPED_child"

lemma watch_child_cons:
  "watch_child sb (r # rs) = (if gone r then Some 0 else map_option Suc (watch_child (sb \<or> kills r) rs))"
  by (auto simp: gone_def Let_def split: option.split child_status.split)

lemma watch_child_first_gone:
  "watch_child sb rs = (if \<exists>r\<in>set rs. gone r then Some (length (takeWhile (\<lambda>r. \<not> gone r) rs)) else None)"
proof (induction rs arbitrary: sb)
  case (Cons r rs)
  show ?case unfolding watch_child_cons Cons.IH by auto
qed simp

subsection \<open>Properties\<close>

text \<open>The memory check of the alarm handler: it returns exactly when the resident memory after the
  release of free memory is within the limit and the allowance, and then the handler has done the purge
  and nothing else to the proxy's tables.\<close>

theorem AlarmHandler_memory_bound:
  assumes "smb_proxy_check_memory_usage (e_flags E)" "e_rlimit_rss E (world (AlarmPurge E S)) = Some lim"
  shows "(AlarmHandler E S \<noteq> None \<longleftrightarrow>
       GetCurrentResidentMemory E (e_release_memory E (world (AlarmPurge E S))) \<le>
         sint lim + gpl_util_memory_usage_additional_allowance_MB (e_flags E) * 1024 * 1024) \<and>
    (\<forall>T. AlarmHandler E S = Some T \<longrightarrow>
       task_cache_map T = task_cache_map (AlarmPurge E S) \<and> tasks T = tasks (AlarmPurge E S) \<and>
       conns T = conns (AlarmPurge E S) \<and> file_handles_map T = file_handles_map (AlarmPurge E S))"
  using assms
  by (auto simp: AlarmHandler_def CheckMemoryUsage_def GetResidentMemoryLimit_def Let_def CHECK_def abort_simps
      split: if_splits)

theorem AlarmHandler_memory_bound_witness:
  "smb_proxy_check_memory_usage (e_flags sample_env) \<and> AlarmHandler sample_env (proxy_init sample_world) \<noteq> None"
proof -
  have a: "smb_proxy_check_memory_usage (e_flags sample_env)" by (simp add: sample_env_def default_flags_def)
  have r: "e_rlimit_rss sample_env (world (AlarmPurge sample_env (proxy_init sample_world))) = Some 4294967296"
    by (simp add: sample_env_def)
  have b: "GetCurrentResidentMemory sample_env
      (e_release_memory sample_env (world (AlarmPurge sample_env (proxy_init sample_world)))) \<le>
      sint (4294967296 :: uint64) + gpl_util_memory_usage_additional_allowance_MB (e_flags sample_env) * 1024 * 1024"
    by (simp add: GetCurrentResidentMemory_def sample_env_def default_flags_def)
  from AlarmHandler_memory_bound[OF a r] a b show ?thesis by blast
qed

text \<open>Without a limit on the resident memory (\<^verbatim>\<open>RLIM_INFINITY\<close>, all ones, which becomes \<open>-1\<close>) and
  without an extra allowance, the check of the alarm handler takes every process down that has any
  resident memory.\<close>

theorem AlarmHandler_no_limit_aborts:
  assumes "smb_proxy_check_memory_usage (e_flags E)" "gpl_util_memory_usage_additional_allowance_MB (e_flags E) = 0"
    "e_rlimit_rss E (world (AlarmPurge E S)) = Some (2 ^ 64 - 1)"
    "e_statm_pages E (e_release_memory E (world (AlarmPurge E S))) = Some n" "0 \<le> n" "0 < e_page_size E"
  shows "AlarmHandler E S = None"
proof -
  have m: "sint (- 1 :: uint64) = - 1" by simp
  have "- 1 < n * e_page_size E" using assms(5,6) by (simp add: order.strict_trans2[of _ 0])
  with assms m show ?thesis
    by (simp add: AlarmHandler_def CheckMemoryUsage_def GetResidentMemoryLimit_def GetCurrentResidentMemory_def
        Let_def CHECK_def)
qed

theorem AlarmHandler_no_limit_aborts_witness:
  "AlarmHandler (sample_env\<lparr>e_rlimit_rss := \<lambda>_. Some (2 ^ 64 - 1)\<rparr>) (proxy_init sample_world) = None"
  by (rule AlarmHandler_no_limit_aborts[where n = 100]) (simp_all add: sample_env_def default_flags_def)

end
