(* ===== verification/Service.thy ===== *)
theory Service
  imports Request_Frame Self_Monitor
begin

text \<open>
  The service as its clients see it: the methods \<open>RegisterRpcMethods\<close> announces (\<open>smb_proxy.cc\<close>), one
  request served after the other. The lemmas say what a request leaves behind in the connection pool. Requests
  that delete directories have \<open>dirs_kept\<close> as a premise, which \<open>Delete_Returns\<close> discharges.
\<close>

subsection \<open>The methods\<close>

datatype request =
    CreateEntityRpc SmbProxyBaseArg EntityType string
  | DeleteEntityRpc SmbProxyBaseArg string EntityType bool
  | GetRootMetadataRpc SmbProxyBaseArg string
  | GetStatusInfoRpc
  | FetchChildrenMetadataRpc SmbProxyFetchChildrenMetadataArg
  | FetchFileDataRpc SmbProxyFetchFileDataArg
  | PurgeTaskRpc string
  | WriteFileDataRpc SmbProxyWriteFileDataArg
  | CreateRestoreFilesRpc SmbProxyCreateRestoreFilesArg
  | WriteFilesDataRpc SmbProxyBaseArg "WriteFilesEntity list"
  | FinalizeRestoreFilesRpc SmbProxyFinalizeRestoreFilesArg
  | CreateSymlinkRpc SmbProxyBaseArg string string bool EntityType
  | RenameEntityRpc SmbProxyBaseArg string string "EntityType option" bool
  | VerifyShareRpc SmbProxyBaseArg

datatype response =
    ErrorReply "Error option"
  | RootMetadataReply SmbProxyGetRootMetadataResult
  | StatusInfoReply
  | ChildrenReply SmbProxyFetchChildrenMetadataResult
  | FileDataReply SmbProxyFetchFileDataResult
  | CreateRestoreFilesReply SmbProxyCreateRestoreFilesResult
  | EntitiesReply "Error option" "Error list"
  | VerifyShareReply "Error + SmbProxyVerifyShareResult"

fun serve :: "'w smb_env \<Rightarrow> request \<Rightarrow> 'w proxy \<Rightarrow> (response \<times> 'w proxy) option" where
  "serve E (CreateEntityRpc h ty path) S = map_option (map_prod ErrorReply id) (SmbProxyCreateEntity E h ty path S)"
| "serve E (DeleteEntityRpc h path ty excl) S =
     map_option (map_prod ErrorReply id) (SmbProxyDeleteEntity E h path ty excl S)"
| "serve E (GetRootMetadataRpc h path) S =
     map_option (map_prod RootMetadataReply id) (SmbProxyGetRootMetadata E h path S)"
| "serve E GetStatusInfoRpc S = Some (StatusInfoReply, S)"
| "serve E (FetchChildrenMetadataRpc arg) S =
     map_option (map_prod ChildrenReply id) (SmbProxyFetchChildrenMetadata E arg S)"
| "serve E (FetchFileDataRpc arg) S = map_option (map_prod FileDataReply id) (SmbProxyFetchFileData E arg S)"
| "serve E (PurgeTaskRpc key) S = Some (map_prod ErrorReply id (SmbProxyPurgeTask E key S))"
| "serve E (WriteFileDataRpc arg) S = map_option (map_prod ErrorReply id) (SmbProxyWriteFileData E arg S)"
| "serve E (CreateRestoreFilesRpc arg) S =
     map_option (map_prod CreateRestoreFilesReply id) (SmbProxyCreateRestoreFiles E arg S)"
| "serve E (WriteFilesDataRpc h ents) S =
     map_option (map_prod (case_prod EntitiesReply) id) (SmbProxyWriteFilesData E h ents S)"
| "serve E (FinalizeRestoreFilesRpc arg) S =
     map_option (map_prod (case_prod EntitiesReply) id) (SmbProxyFinalizeRestoreFiles E arg S)"
| "serve E (CreateSymlinkRpc h path target del ty) S =
     map_option (map_prod ErrorReply id) (SmbProxyCreateSymlink E h path target del ty S)"
| "serve E (RenameEntityRpc h existing target ty replace) S =
     Some (map_prod ErrorReply id (SmbProxyRenameEntity E h existing target ty replace S))"
| "serve E (VerifyShareRpc h) S = map_option (map_prod VerifyShareReply id) (SmbProxyVerifyShare E h S)"

text \<open>Requests that delete a directory with what is in it.\<close>

fun deletes_dir :: "request \<Rightarrow> bool" where
  "deletes_dir (DeleteEntityRpc h path ty excl) \<longleftrightarrow> ty = kDirectory"
| "deletes_dir (CreateSymlinkRpc h path target del ty) \<longleftrightarrow> del \<and> ty = kDirectory"
| "deletes_dir (CreateRestoreFilesRpc arg) \<longleftrightarrow> (\<exists>ent\<in>set (crf_entity_metadata_vec arg). replaces_dir ent)"
| "deletes_dir (FinalizeRestoreFilesRpc arg) \<longleftrightarrow> (\<exists>ent\<in>set (frf_entities_vec arg). md_type (fe_md ent) = MdDirectory)"
| "deletes_dir _ \<longleftrightarrow> False"

text \<open>Requests whose connection stays in use after the response: a page of a listing with a cookie, and
  the creation of an entity, which does not give its connection back.\<close>

fun keeps_connection :: "request \<Rightarrow> response \<Rightarrow> bool" where
  "keeps_connection (CreateEntityRpc h ty path) _ \<longleftrightarrow> True"
| "keeps_connection _ (ChildrenReply r) \<longleftrightarrow> fcm_result_cookie r \<noteq> None"
| "keeps_connection _ _ \<longleftrightarrow> False"

subsection \<open>Frames of the handlers\<close>

lemma acquire_cases:
  assumes "acquire E h hp ct cf S = Some ((po, e), T)"
  shows "GetOrCreateSmbConnection E h hp ct cf S = ((po, e), T)"
  using assms by (auto simp: acquire_def split: prod.splits if_splits)

lemma no_connection_error: "GetOrCreate E h S = ((None, e), T) \<Longrightarrow> \<not> Ok e"
  by (auto simp: GetOrCreateSmbConnection_def checkout_def activate_def create_connection_def Let_def
      split: prod.splits if_splits)

lemmas bracket_frames = bracket[OF _ kept_frame] bracket_discard[OF _ kept_frame]

lemma kept_root:
  assumes "SmbProxyGetRootMetadata E h path S = Some (r, T)"
  shows "kept E S T"
  using assms
  by (auto simp: SmbProxyGetRootMetadata_def Let_def split: if_splits bind_splits option.splits prod.splits
      dest!: acquire_cases frame_on_conn elim!: kept_no_connection bracket_frames)

lemma kept_fetch_file:
  assumes "SmbProxyFetchFileData E arg S = Some (r, T)"
  shows "kept E S T"
  using assms
  by (auto simp: SmbProxyFetchFileData_def Let_def split: if_splits bind_splits option.splits
      dest!: acquire_cases frame_read_all elim!: kept_no_connection bracket_frames)

lemma kept_write_file:
  assumes "SmbProxyWriteFileData E arg S = Some (r, T)"
  shows "kept E S T"
  using assms
  by (auto simp: SmbProxyWriteFileData_def Let_def split: if_splits bind_splits option.splits
      dest!: acquire_cases frame_write_helper elim!: kept_no_connection bracket_frames)

lemma kept_create_restore:
  assumes "SmbProxyCreateRestoreFiles E arg S = Some (r, T)"
    "(\<exists>ent\<in>set (crf_entity_metadata_vec arg). replaces_dir ent) \<longrightarrow> dirs_kept E"
  shows "kept E S T"
  using assms(1) kept_create_entities[OF _ assms(2)]
  by (auto simp: SmbProxyCreateRestoreFiles_def Let_def split: if_splits bind_splits option.splits prod.splits
      elim!: kept_no_connection elim: bracket)

lemma kept_rename:
  assumes "SmbProxyRenameEntity E h existing target ty replace S = (r, T)"
  shows "kept E S T"
proof -
  have "rename_attempt E h ex tg smb_ty replace p path S = (r, T) \<Longrightarrow> pool_frame S T" for ex tg smb_ty p path S r T
    by (auto simp: rename_attempt_def Let_def split: if_splits prod.splits dest!: frame_on_conn)
  from kept_retry_loop[OF this] assms show ?thesis
    by (auto simp: SmbProxyRenameEntity_def Let_def split: if_splits)
qed

lemma kept_symlink:
  assumes "SmbProxyCreateSymlink E h path target del ty S = Some (r, T)" "del \<and> ty = kDirectory \<longrightarrow> dirs_kept E"
  shows "kept E S T"
proof -
  have "symlink_attempt E ex tg p path S = (r, T) \<Longrightarrow> pool_frame S T" for ex tg p path S r T
    by (auto simp: symlink_attempt_def Let_def split: if_splits prod.splits dest!: frame_on_conn)
  note l = kept_retry_loop[OF this]
  have op: "CreateSymlinkOp_Start E h path target S = (r, T) \<Longrightarrow> kept E S T" for S r T
    using l by (auto simp: CreateSymlinkOp_Start_def Let_def split: if_splits)
  from assms show ?thesis
    by (auto simp: SmbProxyCreateSymlink_def split: if_splits bind_splits dest!: kept_delete_op op
        intro: kept_trans)
qed

lemma kept_verify_addresses: "verify_addresses E h as error S = (r, T) \<Longrightarrow> kept E S T"
proof (induction as arbitrary: error S)
  case (Cons a as)
  obtain po e S1 where g: "GetOrCreate E (h\<lparr>server := a\<rparr>) S = ((po, e), S1)" by (rule pair_fstE)
  show ?case
  proof (cases po)
    case None
    with Cons.prems Cons.IH g kept_no_connection[OF g[unfolded None]] kept_trans show ?thesis by fastforce
  next
    case (Some p)
    obtain si S2 where c: "on_conn p (e_get_share_size_info E p) S1 = (si, S2)" by (rule prod.exhaust)
    have d: "kept E S (discard_connection E (h\<lparr>server := a\<rparr>) p S2)"
      by (rule bracket_discard[OF g[unfolded Some] kept_frame[OF frame_on_conn[OF c]]])
    from Cons.prems g Some c Cons.IH kept_trans[OF d] d show ?thesis
      by (auto simp: Let_def split: if_splits)
  qed
qed simp

lemma kept_verify_rounds: "verify_rounds E h as n error S = (r, T) \<Longrightarrow> kept E S T"
  by (induction n arbitrary: error S)
     (auto split: prod.splits option.splits dest!: kept_verify_addresses intro: kept_trans)

lemma kept_verify_share:
  assumes "SmbProxyVerifyShare E h S = Some (r, T)"
  shows "kept E S T"
proof -
  have w: "kept E (S\<lparr>world := w\<rparr>) T \<Longrightarrow> kept E S T" for w
    by (rule kept_trans[OF kept_frame]) simp_all
  from assms show ?thesis
    by (auto simp: SmbProxyVerifyShare_def Let_def split: if_splits bind_splits prod.splits option.splits
        dest!: kept_verify_rounds intro: w)
qed

subsection \<open>Directory listings\<close>

lemma frame_children:
  "dirplus_children E arg ii entries cs S = Some (r, T) \<Longrightarrow> pool_frame S T"
  by (induction entries arbitrary: ii cs S)
     (auto simp: touch_task_def Let_def split: bind_splits if_splits)

lemma frame_named_children:
  "named_children E p arg ii names cs S = Some (r, T) \<Longrightarrow> pool_frame S T"
  by (induction names arbitrary: ii cs S)
     (auto simp: touch_task_def named_child_def Let_def
      split: bind_splits if_splits prod.splits dest!: frame_on_conn)

text \<open>Opening a directory on a connection in use.\<close>

lemma pool_ok_open_dir:
  assumes ok: "pool_ok E S" and p: "p \<notin> idle_conns S"
    and f: "\<And>c. creation_time_usecs (f c) = creation_time_usecs c"
  shows "pool_ok E (upd_conn p f S)"
proof -
  have "task_ok E (upd_conn p f S) (tasks S t)" if t: "(k, t) \<in> set (task_cache_map S)" for k t
  proof -
    have "p \<notin> set (inactive_connection_list (tasks S t))" using p t by (force simp: idle_conns_def)
    then show ?thesis using pool_okD(6)[OF ok t] f by (auto simp: task_ok_def upd_conn_def)
  qed
  then show ?thesis using ok by (auto simp: pool_ok_def pool_conns_def upd_conn_def)
qed

text \<open>What serving a page leaves behind, for the connection it works on.\<close>

definition page_served :: "'w smb_env \<Rightarrow> addr \<Rightarrow> 'w proxy \<Rightarrow> SmbProxyFetchChildrenMetadataResult \<Rightarrow> 'w proxy \<Rightarrow> bool" where
  "page_served E p S r T \<longleftrightarrow>
     pool_ok E T \<and> active_conns T \<subseteq> active_conns S \<and> (fcm_result_cookie r = None \<longrightarrow> p \<notin> active_conns T)"

lemma page_served_frame: "pool_frame S S1 \<Longrightarrow> page_served E p S1 r T \<Longrightarrow> page_served E p S r T"
  by (simp add: page_served_def pool_frame_same(3)[of S S1])

lemma page_served_free: "page_served E p S r T \<Longrightarrow> page_served E p S r (free_mem E m T)"
  using pool_frame_same(1)[of T "free_mem E m T" E] pool_frame_same(3)[of T "free_mem E m T"]
  by (simp add: page_served_def)

lemma page_served_release:
  assumes "pool_ok E S" "releasable S (task_key h) p"
  shows "page_served E p S r (ReleaseSmbConnection E h p reuse S)"
  using release_active[OF assms, of reuse] Release_pool_ok[OF assms, of reuse] by (auto simp: page_served_def)

lemma page_served_discard:
  assumes "pool_ok E S" "releasable S (task_key h) p"
  shows "page_served E p S r (discard_connection E h p S)"
proof -
  have f: "pool_frame S (ShutdownSmbConnection E p S)" by (rule pool_frame_quiet[OF quiet_shutdown])
  show ?thesis unfolding discard_connection_def
    by (rule page_served_frame[OF f page_served_release]) (use assms pool_frame_same[OF f] in simp_all)
qed

lemma page_served_done:
  assumes ok: "pool_ok E S" and p: "releasable S (task_key (fcm_header arg)) p"
    and d: "children_done E arg p fnum n children error S = (r, T)"
  shows "page_served E p S r T"
proof -
  have ni: "p \<notin> idle_conns S"
    using pool_usable_not_idle[OF ok, of "(fcm_header arg, [])" p] p by (simp add: pool_usable_def)
  let ?D = "upd_conn p (\<lambda>c. c\<lparr>dir_handle := fnum\<rparr>) S"
  let ?K = "upd_conn p (\<lambda>c. c\<lparr>dir_handle := fnum, children_fetched := children_fetched c + int n\<rparr>) S"
  have o: "pool_ok E ?D" "pool_ok E ?K" by (auto intro: pool_ok_open_dir[OF ok ni])
  have s: "active_conns ?D = active_conns S" "active_conns ?K = active_conns S"
    "releasable ?D k q = releasable S k q" for k q
    by (simp_all add: active_conns_def releasable_def pool_conns_def upd_conn_def)
  have disc: "page_served E p S r (discard_connection E (fcm_header arg) p ?D)" for r
    using page_served_discard[OF o(1), of "fcm_header arg" p r] p s by (simp add: page_served_def)
  have keep: "page_served E p S r ?K" if "fcm_result_cookie r \<noteq> None" for r
    using o(2) s that by (auto simp: page_served_def)
  from d disc keep page_served_release[OF ok p] show ?thesis
    by (auto simp: children_done_def Let_def PackToCookie_def split: if_splits)
qed

lemma page_served_fetch:
  assumes ok: "pool_ok E S" and p: "releasable S (task_key (fcm_header arg)) p"
    and f: "fetch_children E arg p list_exp m S = Some (r, T)"
  shows "page_served E p S r T"
proof -
  obtain names entries fnum S1 where l: "list_children E p arg list_exp S = ((names, entries, fnum), S1)"
    by (metis prod.exhaust)
  have f1: "pool_frame S S1"
    using l by (auto simp: list_children_def Let_def split: if_splits prod.splits dest!: frame_on_conn)
  have listed: "page_served E p S r T"
    if w: "pool_frame S1 S2" and d: "children_done E arg p fnum n cs error S2 = (r, T1)" and T: "T = free_mem E m T1"
    for S2 n cs error T1
  proof -
    have f2: "pool_frame S S2" using f1 w by simp
    have "page_served E p S2 r T1"
      by (rule page_served_done[OF _ _ d]) (use ok p pool_frame_same[OF f2] in simp_all)
    then show ?thesis unfolding T by (intro page_served_free page_served_frame[OF f2])
  qed
  have failed: "page_served E p S r T"
    if d: "list_failed E arg p list_exp S1 = (r, T1)" and T: "T = free_mem E m T1" for T1
  proof -
    have "page_served E p S1 r T1"
      using d page_served_release[of E S1 "fcm_header arg" p] page_served_discard[of E S1 "fcm_header arg" p]
        ok p pool_frame_same[OF f1] by (auto simp: list_failed_def Let_def split: if_splits)
    then show ?thesis unfolding T by (intro page_served_free page_served_frame[OF f1])
  qed
  show ?thesis
    using f l listed failed
    by (fastforce simp: fetch_children_def Let_def split: option.splits bind_splits prod.splits
        dest: frame_named_children frame_children)
qed

text \<open>Taking the connection for a page, with or without a cookie.\<close>

lemma take_any:
  assumes ok: "pool_ok E S" and g: "GetOrCreateSmbConnection E h hp ct cf S = ((po, e), T)"
  shows "pool_ok E T \<and> active_conns T \<subseteq> active_conns S \<union> set_option po \<and>
    (\<forall>p. po = Some p \<longrightarrow> releasable T (task_key h) p)"
proof (cases "ct = -1")
  case True
  with take_connection_facts[OF ok g[unfolded True]] take_active[OF ok g[unfolded True]] show ?thesis by blast
next
  case False
  obtain t S1 where t: "find_task E h S = (t, S1)" by (rule prod.exhaust)
  note F = find_task_facts[OF ok t]
  have c: "checkout E h hp ct cf t S1 = ((po, e), T)" using g t by (simp add: GetOrCreateSmbConnection_def)
  note C = checkout_cookie_facts[OF F(1) live_task[OF F(2)] False c]
  have sub: "set (active_connection_map (tasks T u)) \<subseteq> set (active_connection_map (tasks S1 u))" for u
    using c False by (auto simp: checkout_def Let_def upd_task_def upd_conn_def GetNowInUsecs_def quietD[OF quiet_shutdown]
        split: option.splits if_splits prod.splits)
  have "active_conns T \<subseteq> active_conns S1" using sub C(2) by (force elim!: active_connsE intro: active_connsI)
  moreover have "releasable T (task_key h) p" if "po = Some p" for p
  proof -
    from that C(4) have m: "(ct, p) \<in> set (active_connection_map (tasks T t))" "tasks T = tasks S1"
      by (auto dest: map_of_SomeD)
    moreover have "p \<in> set (pool_conns T)"
      using m(1) C(2) F(2) live_task[OF F(2)] by (force simp: pool_conns_def task_conns_def)
    ultimately show ?thesis using C(1,2) F(2) pool_okD(5)[OF C(1)] by (force simp: releasable_def)
  qed
  ultimately show ?thesis using C(1) find_task_active[OF ok t] by blast
qed

lemma page_request:
  assumes ok: "pool_ok E S" and f: "SmbProxyFetchChildrenMetadata E arg S = Some (r, T)"
  shows "pool_ok E T \<and> (fcm_result_cookie r = None \<longrightarrow> active_conns T \<subseteq> active_conns S)"
proof (cases "Ok (ValidateSmbProxyBaseArg (fcm_header arg))")
  case False
  with f ok show ?thesis by (auto simp: SmbProxyFetchChildrenMetadata_def Let_def)
next
  case True
  note unfold = SmbProxyFetchChildrenMetadata_def Let_def
  from f True obtain ct cf where u: "UnpackFromCookie E (fcm_cookie arg) = Some (ct, cf)"
    by (auto simp: unfold split: bind_splits)
  from f True u obtain po e S1 where a: "acquire E (fcm_header arg) [] ct cf S = Some ((po, e), S1)"
    by (auto simp: unfold split: bind_splits)
  note g = acquire_cases[OF a]
  have cont: "T = S1" if "po = None" using f True u a that by (simp add: unfold)
  have page: "(\<exists>w. T = ReleaseSmbConnection E (fcm_header arg) p True (S1\<lparr>world := w\<rparr>)) \<or>
       (\<exists>w le m. fetch_children E arg p le m (S1\<lparr>world := w\<rparr>) = Some (r, T))" if "po = Some p" for p
    using f True u a that by (auto simp: unfold split: option.splits prod.splits)
  note A = take_any[OF ok g]
  show ?thesis
  proof (cases po)
    case None
    with cont A show ?thesis by auto
  next
    case (Some p)
    have w: "pool_frame S1 (S1\<lparr>world := w\<rparr>)" for w by simp
    have "page_served E p (S1\<lparr>world := w\<rparr>) r (ReleaseSmbConnection E (fcm_header arg) p True (S1\<lparr>world := w\<rparr>))" for w
      by (rule page_served_release) (use A Some pool_frame_same[OF w] in simp_all)
    moreover have "fetch_children E arg p le m (S1\<lparr>world := w\<rparr>) = Some (r, T) \<Longrightarrow> page_served E p (S1\<lparr>world := w\<rparr>) r T" for le m w
      by (rule page_served_fetch) (use A Some pool_frame_same[OF w] in simp_all)
    ultimately have "page_served E p S1 r T"
      using page[OF Some] page_served_frame[OF w] by blast
    with A Some show ?thesis by (auto simp: page_served_def)
  qed
qed

subsection \<open>Properties\<close>

lemma CreateEntity_pool:
  assumes ok: "pool_ok E S" and f: "SmbProxyCreateEntity E h ty path S = Some (r, T)"
  shows "pool_ok E T"
proof -
  have "pool_ok E T" if "acquire E h [] (-1) 0 S = Some ((Some p, e), S1)" "pool_frame S1 T" for p e S1
    using take_any[OF ok acquire_cases[OF that(1)]] pool_frame_same(1)[OF that(2)] by simp
  moreover have "pool_ok E T" if "acquire E h [] (-1) 0 S = Some ((None, e), T)" for e
    using take_any[OF ok acquire_cases[OF that]] by simp
  ultimately show ?thesis
    using f ok by (auto simp: SmbProxyCreateEntity_def Let_def split: if_splits bind_splits option.splits prod.splits
        dest!: frame_on_conn)
qed

lemma PurgeTask_active: "active_conns (snd (SmbProxyPurgeTask E key S)) \<subseteq> active_conns S"
proof -
  have "active_conns T \<subseteq> active_conns S"
    if p: "PurgeTaskAndAllConnections E t False (S\<lparr>task_cache_map := AList.delete key (task_cache_map S)\<rparr>) = (e, T)" for t e T
    using Purge_shape(2)[OF p] quietD(1)[OF Purge_shape(1)[OF p]]
    by (force elim!: active_connsE intro: active_connsI split: if_splits)
  then show ?thesis by (auto simp: SmbProxyPurgeTask_def Let_def split: option.splits prod.splits)
qed

text \<open>What every request leaves behind; the property is in \<open>Delete_Returns\<close>.\<close>

lemma serve_kept:
  assumes "pool_ok E S" "deletes_dir r \<longrightarrow> dirs_kept E" "serve E r S = Some (resp, T)"
  shows "pool_ok E T \<and> (keeps_connection r resp \<or> active_conns T \<subseteq> active_conns S)"
proof -
  have k: "pool_ok E T \<and> active_conns T \<subseteq> active_conns S" if "kept E S T"
    using that assms(1) by (simp add: kept_def)
  show ?thesis
  proof (cases r)
    case (CreateEntityRpc h ty path)
    with assms CreateEntity_pool show ?thesis by auto
  next
    case (FetchChildrenMetadataRpc arg)
    with assms page_request[OF assms(1), of arg] show ?thesis by auto
  next
    case (PurgeTaskRpc key)
    with assms have "T = snd (SmbProxyPurgeTask E key S)" by (cases "SmbProxyPurgeTask E key S") auto
    with PurgeTask_pool_ok[OF assms(1)] PurgeTask_active[of E key S] show ?thesis by simp
  next
    case (DeleteEntityRpc h path ty excl)
    with assms have "kept E S T" by (auto simp: SmbProxyDeleteEntity_def split: bind_splits dest!: kept_delete_op)
    with k show ?thesis by simp
  next
    case (FinalizeRestoreFilesRpc arg)
    with assms have "kept E S T"
      by (auto simp: SmbProxyFinalizeRestoreFiles_def intro: kept_run_entities[rotated] kept_next_finalize)
    with k show ?thesis by simp
  next
    case (WriteFilesDataRpc h ents)
    with assms have "kept E S T"
      by (auto simp: SmbProxyWriteFilesData_def intro: kept_run_entities[rotated] kept_frame frame_next_write)
    with k show ?thesis by simp
  next
    case (RenameEntityRpc h existing target ty replace)
    with assms have "kept E S T"
      by (cases "SmbProxyRenameEntity E h existing target ty replace S") (auto dest: kept_rename)
    with k show ?thesis by simp
  qed (use assms in \<open>auto dest!: kept_root kept_fetch_file kept_write_file kept_create_restore kept_symlink
         kept_verify_share k\<close>)
qed

end
