(* ===== verification/State_Invariants.thy ===== *)
theory State_Invariants
  imports Service
begin

text \<open>
  Invariants of the whole proxy. The locale \<open>op_invariant\<close> collects what a predicate on the state has to
  survive: the elementary changes the code makes to it, except to locks, which \<open>proxy_invariant\<close> adds. Inside the locale every operation of the proxy and
  of \<open>gpl_util/smb/ops\<close> is shown to keep such a predicate, deletion of directories included, so that an
  invariant of the service only has to be checked on the elementary changes. The locales are interpreted on
  the handle caches of the connections, the file caches of the tasks and the locks of paths.
\<close>

subsection \<open>The running service\<close>

text \<open>The states of the service: started, after requests and alarms, while the world outside changes.\<close>

inductive service_state :: "'w smb_env \<Rightarrow> 'w \<Rightarrow> 'w proxy \<Rightarrow> bool" for E w where
  service_started: "service_state E w (proxy_init w)"
| service_request: "service_state E w S \<Longrightarrow> serve E r S = Some (resp, T) \<Longrightarrow> service_state E w T"
| service_alarm: "service_state E w S \<Longrightarrow> service_state E w (AlarmPurge E S)"
| service_world: "service_state E w S \<Longrightarrow> service_state E w (S\<lparr>world := w'\<rparr>)"

subsection \<open>What an invariant of the proxy has to survive\<close>

locale op_invariant =
  fixes E :: "'w smb_env" and I :: "'w proxy \<Rightarrow> bool"
  assumes I_world [simp]: "I (S\<lparr>world := w\<rparr>) = I S"
    and I_tasks [simp]: "I (S\<lparr>tasks := x\<rparr>) = I S"
    and I_task_next [simp]: "I (S\<lparr>task_next := n\<rparr>) = I S"
    and I_task_cache_map [simp]: "I (S\<lparr>task_cache_map := m\<rparr>) = I S"
    and I_conn: "(\<And>c. fh_lru_list (f c) = fh_lru_list c \<and> fh_lru_map (f c) = fh_lru_map c \<and>
        fh_next_node (f c) = fh_next_node c) \<Longrightarrow> I (upd_conn p f S) = I S"
    and I_clear: "I S \<Longrightarrow> I (upd_conn p (\<lambda>c. c\<lparr>fh_lru_list := [], fh_lru_map := []\<rparr>) S)"
    and I_forget: "I S \<Longrightarrow> I (upd_conn p (forget_handle path) S)"
    and I_update: "UpdateFileHandle E path fnum p S = Some T \<Longrightarrow> I S \<Longrightarrow> I T"
    and I_new_conn: "I S \<Longrightarrow> I (S\<lparr>conns := (conns S)(conn_next S := new_SmbConnection E), conn_next := Suc (conn_next S)\<rparr>)"
    and I_touch: "I S \<Longrightarrow> I (S\<lparr>fhes := (fhes S)(a := (fhes S a)\<lparr>fhs_last_access_time_usecs := t\<rparr>)\<rparr>)"
    and I_lookup: "I S \<Longrightarrow> I (upd_fhe a (\<lambda>e. e\<lparr>fh_cache := snd (LRUCache_Lookup k (fh_cache (fhes S a)))\<rparr>) S)"
    and I_insert: "I S \<Longrightarrow> I (upd_fhe a (\<lambda>e. e\<lparr>fh_cache := LRUCache_Insert k v (fh_cache e)\<rparr>) S)"
    and I_new_entry: "new_FileHandlesEntry E = Some e \<Longrightarrow> I S \<Longrightarrow>
        I (S\<lparr>fhes := (fhes S)(fhe_next S := e), fhe_next := Suc (fhe_next S),
             file_handles_map := emplace key (fhe_next S) (file_handles_map S)\<rparr>)"
    and I_drop_entries: "I S \<Longrightarrow> I (S\<lparr>file_handles_map := filter P (file_handles_map S)\<rparr>)"
begin

lemma I_upd_task [simp]: "I (upd_task t f S) = I S"
  by (simp add: upd_task_def)

lemma I_context [simp]: "I (upd_conn p (\<lambda>c. c\<lparr>conn_context := x\<rparr>) S) = I S"
  by (rule I_conn) simp

lemma I_times [simp]:
  "I (upd_conn p (\<lambda>c. c\<lparr>conn_last_access_time_usecs := t\<rparr>) S) = I S"
  "I (upd_conn p (\<lambda>c. c\<lparr>creation_time_usecs := u, conn_last_access_time_usecs := t\<rparr>) S) = I S"
  "I (upd_conn p (\<lambda>c. c\<lparr>dir_handle := d, children_fetched := n\<rparr>) S) = I S"
  "I (upd_conn p (\<lambda>c. c\<lparr>dir_handle := d\<rparr>) S) = I S"
  "I (upd_conn p (\<lambda>c. c\<lparr>dir_handle := d, children_fetched := children_fetched c + m\<rparr>) S) = I S"
  by (rule I_conn; simp)+

lemma I_put_sess [simp]: "I (put_sess p s S) = I S"
  by (simp add: put_sess_def)

lemma I_on_conn_snd [simp]: "I (snd (on_conn p f S)) = I S"
  by (simp add: on_conn_def split: prod.split)

lemma I_on_conn: "on_conn p f S = (r, T) \<Longrightarrow> I T = I S"
  by (auto simp: on_conn_def split: prod.splits)

lemma I_try_conn: "try_conn p f S = Some (r, T) \<Longrightarrow> I T = I S"
  by (auto simp: try_conn_def split: bind_splits)

lemma I_now: "GetNowInUsecs E' S = (t, T) \<Longrightarrow> I T = I S"
  by (auto simp: GetNowInUsecs_def split: prod.splits)

lemma I_free_mem [simp]: "I (free_mem E' m S) = I S"
  by (simp add: free_mem_def)

lemmas I_calls = I_on_conn I_try_conn I_now

text \<open>Connections.\<close>

lemma I_close_handles [simp]: "I (close_handles E' p fs S) = I S"
  by (induction fs arbitrary: S) simp_all

lemma I_shutdown: "I S \<Longrightarrow> I (ShutdownSmbConnection E' p S)"
  by (simp add: ShutdownSmbConnection_def Let_def I_clear)

lemma I_release [simp]: "I (ReleaseSmbConnection E' h p reuse S) = I S"
  by (auto simp: ReleaseSmbConnection_def Let_def split: option.split prod.split dest!: I_now)

lemma I_discard: "I S \<Longrightarrow> I (discard_connection E' h p S)"
  by (simp add: discard_connection_def I_shutdown)

lemma I_find_task: "find_task E' h S = (t, T) \<Longrightarrow> I T = I S"
  by (auto simp: find_task_def Let_def split: option.splits prod.splits dest!: I_now)

lemma I_create_connection: "create_connection E h t S = (r, T) \<Longrightarrow> I S \<longrightarrow> I T"
  using I_new_conn[of S]
  by (auto simp: create_connection_def Let_def split: prod.splits if_splits dest!: I_on_conn I_now)

lemma I_take: "GetOrCreateSmbConnection E h hp ct cf S = (r, T) \<Longrightarrow> I S \<longrightarrow> I T"
  by (auto simp: GetOrCreateSmbConnection_def checkout_def activate_def Let_def I_shutdown
      split: prod.splits if_splits option.splits dest!: I_find_task I_now I_create_connection)

lemma I_acquire: "acquire E h hp ct cf S = Some (r, T) \<Longrightarrow> I S \<longrightarrow> I T"
  by (auto simp: acquire_def split: prod.splits if_splits dest!: I_take)

lemma I_shutdown_all: "I S \<Longrightarrow> I (shutdown_all E' ps S)"
  by (induction ps arbitrary: S) (simp_all add: I_shutdown)

lemma I_purge: "PurgeTaskAndAllConnections E' t force S = (r, T) \<Longrightarrow> I S \<longrightarrow> I T"
  by (auto simp: PurgeTaskAndAllConnections_def Let_def I_shutdown_all split: if_splits)

lemma I_purge_task: "SmbProxyPurgeTask E' key S = (r, T) \<Longrightarrow> I S \<longrightarrow> I T"
  by (auto simp: SmbProxyPurgeTask_def Let_def split: if_splits option.splits prod.splits dest!: I_purge)

lemma I_access_time [simp]: "I (UpdateTaskAccessTime E' key S) = I S"
  by (auto simp: UpdateTaskAccessTime_def split: option.split prod.split dest!: I_now)

lemma I_purge_idle: "purge_idle E' now ps S = (r, T) \<Longrightarrow> I S \<longrightarrow> I T"
  by (induction ps arbitrary: S r T) (fastforce simp: I_shutdown split: if_splits prod.splits)+

lemma I_maybe_purge: "I S \<Longrightarrow> I (MaybePurgeTaskIdleConnections E' t S)"
  by (auto simp: MaybePurgeTaskIdleConnections_def split: prod.split dest!: I_now I_purge_idle)

lemma I_alarm_tasks: "alarm_tasks E' now ts S = (r, T) \<Longrightarrow> I S \<longrightarrow> I T"
proof (induction ts arbitrary: S r T)
  case (Cons kt ts)
  obtain k t where kt: "kt = (k, t)" by (rule prod.exhaust)
  obtain e U where p: "PurgeTaskAndAllConnections E' t True S = (e, U)" by (rule prod.exhaust)
  show ?case
    using Cons.prems Cons.IH I_purge[OF p] p I_maybe_purge[of S E' t]
    by (fastforce simp: kt split: if_splits prod.splits)
qed simp

lemma I_drop: "I S \<Longrightarrow> I (S\<lparr>task_cache_map := m, file_handles_map := filter P (file_handles_map S)\<rparr>)"
  using I_drop_entries[of "S\<lparr>task_cache_map := m\<rparr>" P] by simp

lemma I_alarm: "I S \<Longrightarrow> I (AlarmPurge E' S)"
  by (auto simp: AlarmPurge_def alarm_fhes_def split: prod.splits dest!: I_now I_alarm_tasks intro!: I_drop)

text \<open>File handles, reading and writing.\<close>

lemma I_purge_conn: "I S \<Longrightarrow> I (purge_conn_file_handle E' path p S)"
  by (simp add: purge_conn_file_handle_def I_forget split: option.split)

lemma I_fold_purge: "I S \<Longrightarrow> I (fold (purge_conn_file_handle E' path) ps S)"
  by (induction ps arbitrary: S) (simp_all add: I_purge_conn)

lemma I_purge_handle: "I S \<Longrightarrow> I (PurgeFileHandle E' key path S)"
  by (simp add: PurgeFileHandle_def Let_def I_fold_purge split: option.split)

lemma I_keep_handle: "keep_handle E path v fnum p S = Some T \<Longrightarrow> I S \<longrightarrow> I T"
  by (auto simp: keep_handle_def split: option.splits if_splits dest: I_update)

lemma I_read_once: "read_once E' path sp p off sz pos fnum buf S = Some (r, T) \<Longrightarrow> I T = I S"
  by (auto simp: read_once_def Let_def split: prod.splits option.splits if_splits bind_splits dest!: I_on_conn)

lemma I_read_loop: "read_loop E' path sp p off sz pos n fnum buf S = Some (r, T) \<Longrightarrow> I T = I S"
  by (induction n arbitrary: fnum buf S) (auto split: prod.splits if_splits bind_splits dest!: I_read_once)

lemma I_read_bytes: "ReadBytesFromOffset E path p off sz buf boff cache S = Some (r, T) \<Longrightarrow> I S \<longrightarrow> I T"
  by (auto simp: ReadBytesFromOffset_def split: prod.splits bind_splits dest!: I_read_loop I_keep_handle)

lemma I_read_all_all:
  "\<forall>E' path p off cache requested mx todo got buf S y.
     read_all E' path p off cache requested mx todo got buf S = Some y \<longrightarrow> E' = E \<longrightarrow> I S \<longrightarrow> I (snd y)"
proof (rule read_all.fixp_induct, goal_cases)
  case 1
  show ?case unfolding curry_def by (intro admissible_all admissible_point)
next
  case (3 f)
  then show ?case by (fastforce split: if_splits bind_splits dest!: I_read_bytes)
qed simp

lemma I_read_all: "read_all E path p off cache requested mx todo got buf S = Some (r, T) \<Longrightarrow> I S \<longrightarrow> I T"
  using I_read_all_all by fastforce

lemma I_write_once: "write_once E' path sp p off sz dptr fnum error S = Some (r, T) \<Longrightarrow> I T = I S"
  by (auto simp: write_once_def Let_def split: prod.splits option.splits if_splits bind_splits dest!: I_on_conn)

lemma I_write_loop: "write_loop E' path sp p off sz dptr n fnum error S = Some (r, T) \<Longrightarrow> I T = I S"
  by (induction n arbitrary: fnum error S) (auto split: prod.splits if_splits bind_splits dest!: I_write_once)

lemma I_write_bytes: "WriteBytesToOffset E path p off sz dptr cache S = Some (r, T) \<Longrightarrow> I S \<longrightarrow> I T"
  by (auto simp: WriteBytesToOffset_def split: prod.splits bind_splits dest!: I_write_loop I_keep_handle)

lemma I_write_all_all:
  "\<forall>E' path p x off cache requested mx todo got S y.
     write_all E' path p x off cache requested mx todo got S = Some y \<longrightarrow> E' = E \<longrightarrow> I S \<longrightarrow> I (snd y)"
proof (rule write_all.fixp_induct, goal_cases)
  case 1
  show ?case unfolding curry_def by (intro admissible_all admissible_point)
next
  case (3 f)
  then show ?case by (fastforce split: if_splits bind_splits dest!: I_write_bytes)
qed simp

lemma I_write_helper: "WriteFileDataHelper E path p x sz off cache stub S = Some (r, T) \<Longrightarrow> I S \<longrightarrow> I T"
  using I_write_all_all by (fastforce simp: WriteFileDataHelper_def Let_def split: bind_splits)

text \<open>Listing.\<close>

lemma I_dirplus: "dirplus_children E' arg ii entries cs S = Some (r, T) \<Longrightarrow> I T = I S"
  by (induction entries arbitrary: ii cs S) (auto simp: touch_task_def Let_def split: bind_splits if_splits)

lemma I_named: "named_children E' p arg ii names cs S = Some (r, T) \<Longrightarrow> I T = I S"
  by (induction names arbitrary: ii cs S)
     (auto simp: touch_task_def named_child_def Let_def split: bind_splits if_splits prod.splits dest!: I_on_conn)

lemma I_children_done: "children_done E' arg p fnum n cs error S = (r, T) \<Longrightarrow> I S \<longrightarrow> I T"
  by (auto simp: children_done_def Let_def I_discard split: if_splits)

lemma I_list_failed: "list_failed E' arg p le S = (r, T) \<Longrightarrow> I S \<longrightarrow> I T"
  by (auto simp: list_failed_def Let_def I_discard split: if_splits)

lemma I_list_children: "list_children E' p arg le S = (r, T) \<Longrightarrow> I T = I S"
  by (auto simp: list_children_def Let_def split: if_splits prod.splits dest!: I_on_conn)

lemma I_fetch_children: "fetch_children E' arg p le m S = Some (r, T) \<Longrightarrow> I S \<longrightarrow> I T"
  by (auto simp: fetch_children_def Let_def split: option.splits bind_splits prod.splits
      dest!: I_list_children I_named I_dirplus I_children_done I_list_failed)

lemma I_fetch_page: "SmbProxyFetchChildrenMetadata E arg S = Some (r, T) \<Longrightarrow> I S \<longrightarrow> I T"
  by (auto simp: SmbProxyFetchChildrenMetadata_def Let_def split: if_splits bind_splits option.splits prod.splits
      dest!: I_acquire I_fetch_children)

text \<open>Deletion, of directories too.\<close>

lemma I_delete_file: "DeleteFile E' p path S = (r, T) \<Longrightarrow> I T = I S"
  by (auto simp: DeleteFile_def DeleteFileHelper_def ClearFileAttributes_def Let_def
      split: prod.splits if_splits dest!: I_on_conn)

lemma I_delete_empty: "DeleteEmptyDir E' p path S = (r, T) \<Longrightarrow> I T = I S"
  by (auto simp: DeleteEmptyDir_def Let_def split: prod.splits dest!: I_on_conn)

lemma I_delete_dir_all:
  "\<forall>E' h p work cookies S y.
     DeleteDir E' h p work cookies S = Some y \<longrightarrow> E' = E \<longrightarrow> I S \<longrightarrow> I (snd y)"
proof (rule DeleteDir.fixp_induct, goal_cases)
  case 1
  show ?case unfolding curry_def by (intro admissible_all admissible_point)
next
  case (3 f)
  then show ?case
    by (fastforce split: if_splits bind_splits delete_work.splits list.splits option.splits prod.splits
        dest!: I_fetch_page I_delete_file I_delete_empty)
qed simp

lemma I_delete_dir: "DeleteDir E h p work cookies S = Some (r, T) \<Longrightarrow> I S \<longrightarrow> I T"
  using I_delete_dir_all by fastforce

lemma I_delete_by_type: "delete_by_type E h p path ty excl S = Some (r, T) \<Longrightarrow> I S \<longrightarrow> I T"
  by (auto simp: delete_by_type_def DeleteEntity_def Let_def
      split: EntityType.splits prod.splits if_splits bind_splits dest!: I_on_conn I_delete_file I_delete_dir)

lemma I_delete_op: "DeleteEntityOp_Execute E h path ty excl external S = Some (r, T) \<Longrightarrow> I S \<longrightarrow> I T"
  by (auto simp: DeleteEntityOp_Execute_def Let_def split: if_splits bind_splits option.splits prod.splits
      dest!: I_take I_delete_by_type)

text \<open>The cache of opened files and the lock of a path.\<close>

lemma I_lookup_handle: "LookupFileHandle E' a path S = (r, T) \<Longrightarrow> I S \<longrightarrow> I T"
  using I_lookup[of S a path]
  by (auto simp: LookupFileHandle_def IsErrorStale_def Let_def
      split: prod.splits option.splits if_splits dest!: I_now)

lemma I_add_cache: "I S \<Longrightarrow> I (AddToLRUCache E' a path error S)"
  by (auto simp: AddToLRUCache_def Let_def split: prod.splits if_splits dest!: I_now intro: I_insert)

lemma I_open_or_create: "open_or_create E' p path S = (r, T) \<Longrightarrow> I T = I S"
  by (auto simp: open_or_create_def Let_def split: prod.splits if_splits dest!: I_on_conn)

lemma I_fetch_locked: "FetchFileHandleLocked E' p a path cr S = Some (r, T) \<Longrightarrow> I S \<longrightarrow> I T"
  by (auto simp: FetchFileHandleLocked_def Let_def I_add_cache
      split: prod.splits option.splits if_splits bind_splits dest!: I_lookup_handle I_try_conn I_open_or_create)

lemma I_handles_entry: "GetFileHandlesEntry E key S = Some (r, T) \<Longrightarrow> I S \<longrightarrow> I T"
  by (auto simp: GetFileHandlesEntry_def Let_def split: prod.splits option.splits bind_splits
      dest!: I_now I_new_entry[of _ S key] intro!: I_touch)

text \<open>The operations of a restore.\<close>

lemma I_hardlink: "CreateHardlink E' arg ent p vol S = Some (r, T) \<Longrightarrow> I T = I S"
  by (auto simp: CreateHardlink_def Let_def split: prod.splits if_splits bind_splits dest!: I_on_conn)

lemma I_regular_file: "CreateRegularFile E' arg ent p S = Some (r, T) \<Longrightarrow> I T = I S"
  by (auto simp: CreateRegularFile_def Let_def split: prod.splits if_splits dest!: I_on_conn I_hardlink)

lemma I_create_entity: "CreateEntity E' arg ent p S = Some (r, T) \<Longrightarrow> I T = I S"
  by (auto simp: CreateEntity_def DoCreateEntity_def Let_def
      split: prod.splits if_splits bind_splits MdEntityType.splits dest!: I_try_conn I_regular_file)

lemma I_links: "IsHardlinksToEachOther E' p x y S = (r, T) \<Longrightarrow> I T = I S"
  by (auto simp: IsHardlinksToEachOther_def Let_def split: prod.splits if_splits dest!: I_on_conn)

lemma I_delete_new: "DeleteNewEntity E' arg ent p S = Some (r, T) \<Longrightarrow> I S \<longrightarrow> I T"
  by (auto simp: DeleteNewEntity_def Let_def I_purge_handle
      split: prod.splits if_splits dest!: I_on_conn I_links I_create_entity)

lemma I_delete_tmp: "DeleteTmpEntity E' arg ent p S = Some (r, T) \<Longrightarrow> I S \<longrightarrow> I T"
  by (auto simp: DeleteTmpEntity_def Let_def I_purge_handle
      split: prod.splits if_splits dest!: I_on_conn I_delete_new)

lemma I_delete_create: "DeleteAndCreateEntity E' arg ent p S = Some (r, T) \<Longrightarrow> I S \<longrightarrow> I T"
  by (auto simp: DeleteAndCreateEntity_def Let_def
      split: if_splits dest!: I_create_entity I_delete_tmp I_delete_new)

lemma I_handle_entity: "HandleEntity E arg ent p S = Some (r, T) \<Longrightarrow> I S \<longrightarrow> I T"
  by (auto simp: HandleEntity_def DeleteExistingEntity_def Let_def
      split: if_splits option.splits bind_splits dest!: I_delete_create I_delete_op)

lemma I_set_attribute: "SetEntityAttribute E' arg ent p S = (r, T) \<Longrightarrow> I T = I S"
  by (auto simp: SetEntityAttribute_def Let_def split: prod.splits if_splits dest!: I_on_conn I_now)

lemma I_drop_tmp: "drop_tmp E' p tmp path error S = (r, T) \<Longrightarrow> I T = I S"
  by (auto simp: drop_tmp_def Let_def split: prod.splits if_splits dest!: I_on_conn)

lemma I_rename_uptier: "rename_uptier E' arg ent p tmp path S = Some (r, T) \<Longrightarrow> I T = I S"
  by (auto simp: rename_uptier_def Let_def
      split: prod.splits if_splits bind_splits dest!: I_on_conn I_drop_tmp I_set_attribute)

lemma I_rename_found: "rename_found E' arg ent p tmp path S = Some (r, T) \<Longrightarrow> I S \<longrightarrow> I T"
  by (auto simp: rename_found_def rename_plain_def Let_def I_purge_handle
      split: prod.splits if_splits dest!: I_on_conn I_rename_uptier I_set_attribute)

lemma I_rename_entity: "RenameEntity E' arg ent p S = Some (r, T) \<Longrightarrow> I S \<longrightarrow> I T"
  by (auto simp: RenameEntity_def Let_def I_purge_handle
      split: prod.splits option.splits bind_splits dest!: I_rename_found)

lemma I_next_finalize: "HandleNextEntity_finalize E arg ent p S = Some (r, T) \<Longrightarrow> I S \<longrightarrow> I T"
  by (auto simp: HandleNextEntity_finalize_def Let_def I_purge_handle
      split: prod.splits if_splits bind_splits dest!: I_on_conn I_set_attribute I_rename_entity I_delete_op)

lemma I_next_write: "HandleNextEntity_write E p ent S = Some (r, T) \<Longrightarrow> I S \<longrightarrow> I T"
  by (auto simp: HandleNextEntity_write_def Let_def split: bind_splits dest!: I_write_helper)

text \<open>Requests.\<close>

lemma I_entity_loop:
  assumes "\<And>ent S r T. step ent S = Some (r, T) \<Longrightarrow> I S \<longrightarrow> I T"
  shows "entity_loop step ents first retry S = Some (r, T) \<Longrightarrow> I S \<longrightarrow> I T"
  by (induction ents arbitrary: first retry S r T)
     (fastforce simp: Let_def split: option.splits bind_splits dest!: assms)+

lemma I_run_entities:
  assumes "\<And>p ent S r T. step p ent S = Some (r, T) \<Longrightarrow> I S \<longrightarrow> I T"
  shows "run_entities E h step ents S = Some (r, T) \<Longrightarrow> I S \<longrightarrow> I T"
proof -
  have l: "entity_loop (step p) ents first retry S = Some (r, T) \<Longrightarrow> I S \<longrightarrow> I T" for p first retry S r T
    by (rule I_entity_loop) (rule assms)
  show "run_entities E h step ents S = Some (r, T) \<Longrightarrow> I S \<longrightarrow> I T"
    by (auto simp: run_entities_def Let_def I_discard split: if_splits bind_splits option.splits prod.splits
        dest!: I_take l)
qed

lemma I_retry_loop:
  assumes "\<And>p path S r T. attempt p path S = (r, T) \<Longrightarrow> I S \<longrightarrow> I T"
  shows "retry_loop E h attempt n error path S = (r, T) \<Longrightarrow> I S \<longrightarrow> I T"
proof (induction n arbitrary: error path S)
  case (Suc n)
  obtain po e S1 where g: "GetOrCreate E h S = ((po, e), S1)" by (rule pair_fstE)
  note take = I_take[OF g]
  show ?case
  proof (cases po)
    case (Some p)
    obtain ro path' S2 where a: "attempt p path S1 = ((ro, path'), S2)" by (rule pair_fstE)
    from Suc.prems Suc.IH g Some a take assms[OF a] I_discard[of S2 E h p] show ?thesis
      by (auto split: option.splits if_splits)
  qed (use Suc.prems g take in auto)
qed simp

lemma I_rename: "SmbProxyRenameEntity E h existing target ty replace S = (r, T) \<Longrightarrow> I S \<longrightarrow> I T"
proof -
  have "rename_attempt E h ex tg smb_ty replace p path S = (r, T) \<Longrightarrow> I S \<longrightarrow> I T" for ex tg smb_ty p path S r T
    by (auto simp: rename_attempt_def Let_def I_purge_handle split: if_splits prod.splits dest!: I_on_conn)
  from I_retry_loop[OF this] show "SmbProxyRenameEntity E h existing target ty replace S = (r, T) \<Longrightarrow> I S \<longrightarrow> I T"
    by (auto simp: SmbProxyRenameEntity_def Let_def split: if_splits)
qed

lemma I_symlink: "SmbProxyCreateSymlink E h path target del ty S = Some (r, T) \<Longrightarrow> I S \<longrightarrow> I T"
proof -
  have "symlink_attempt E ex tg p path S = (r, T) \<Longrightarrow> I S \<longrightarrow> I T" for ex tg p path S r T
    by (auto simp: symlink_attempt_def Let_def split: if_splits prod.splits dest!: I_on_conn)
  from I_retry_loop[OF this] have "CreateSymlinkOp_Start E h path target S = (r, T) \<Longrightarrow> I S \<longrightarrow> I T" for S r T
    by (auto simp: CreateSymlinkOp_Start_def Let_def split: if_splits)
  then show "SmbProxyCreateSymlink E h path target del ty S = Some (r, T) \<Longrightarrow> I S \<longrightarrow> I T"
    by (auto simp: SmbProxyCreateSymlink_def split: if_splits bind_splits dest!: I_delete_op)
qed

lemma I_verify_addresses: "verify_addresses E h as error S = (r, T) \<Longrightarrow> I S \<longrightarrow> I T"
  by (induction as arbitrary: error S)
     (fastforce simp: Let_def I_discard split: option.splits prod.splits if_splits dest!: I_take I_on_conn)+

lemma I_verify_rounds: "verify_rounds E h as n error S = (r, T) \<Longrightarrow> I S \<longrightarrow> I T"
  by (induction n arbitrary: error S) (fastforce split: prod.splits option.splits dest!: I_verify_addresses)+

lemma I_verify_share: "SmbProxyVerifyShare E h S = Some (r, T) \<Longrightarrow> I S \<longrightarrow> I T"
  by (auto simp: SmbProxyVerifyShare_def Let_def split: if_splits bind_splits prod.splits option.splits
      dest!: I_verify_rounds)

lemma I_root: "SmbProxyGetRootMetadata E h path S = Some (r, T) \<Longrightarrow> I S \<longrightarrow> I T"
  by (auto simp: SmbProxyGetRootMetadata_def Let_def I_discard split: if_splits bind_splits option.splits prod.splits
      dest!: I_acquire I_on_conn)

lemma I_fetch_file: "SmbProxyFetchFileData E arg S = Some (r, T) \<Longrightarrow> I S \<longrightarrow> I T"
  by (auto simp: SmbProxyFetchFileData_def Let_def I_discard split: if_splits bind_splits option.splits
      dest!: I_acquire I_read_all)

lemma I_write_file: "SmbProxyWriteFileData E arg S = Some (r, T) \<Longrightarrow> I S \<longrightarrow> I T"
  by (auto simp: SmbProxyWriteFileData_def Let_def I_discard split: if_splits bind_splits option.splits
      dest!: I_acquire I_write_helper)

lemma I_new_object: "SmbProxyCreateEntity E h ty path S = Some (r, T) \<Longrightarrow> I S \<longrightarrow> I T"
  by (auto simp: SmbProxyCreateEntity_def Let_def split: if_splits bind_splits option.splits prod.splits
      dest!: I_acquire I_on_conn)

lemma I_finalize: "SmbProxyFinalizeRestoreFiles E arg S = Some (r, T) \<Longrightarrow> I S \<longrightarrow> I T"
  unfolding SmbProxyFinalizeRestoreFiles_def by (rule I_run_entities) (rule I_next_finalize)

lemma I_write_files: "SmbProxyWriteFilesData E h ents S = Some (r, T) \<Longrightarrow> I S \<longrightarrow> I T"
  unfolding SmbProxyWriteFilesData_def by (rule I_run_entities) (rule I_next_write)

lemma I_delete_entity: "SmbProxyDeleteEntity E h path ty excl S = Some (r, T) \<Longrightarrow> I S \<longrightarrow> I T"
  by (auto simp: SmbProxyDeleteEntity_def split: bind_splits dest!: I_delete_op)

end

text \<open>The lock of a path is taken and given back within the creation of a file. A family of predicates, one for
  each lock that may be held, is kept by the operations that do not touch locks and moves with the lock;
  between requests none is held.\<close>

locale proxy_invariant =
  fixes E :: "'w smb_env" and I :: "string option \<Rightarrow> 'w proxy \<Rightarrow> bool"
  assumes frame: "op_invariant E (I held)"
    and I_lock: "I None S \<Longrightarrow> I (Some path) (lock_path path S)"
    and I_unlock: "I (Some path) S \<Longrightarrow> I None (unlock_path path S)"
begin

sublocale idle: op_invariant E "I None"
  by (rule frame)

lemma I_release_op: "I held S \<Longrightarrow> I None (release_op held S)"
  by (auto simp: release_op_def I_unlock split: option.split)

lemma I_fetch_handle:
  assumes f: "FetchFileHandleOp_Execute E p key path cr S = Some ((error, cached, held), T)" and i: "I None S"
  shows "I held T"
proof -
  note locked = op_invariant.I_fetch_locked[OF frame]
  from f i obtain a fp S1 where g: "I None S1" "FetchFileHandle E p a fp cr S1 = Some ((error, cached, held), T)"
    by (auto simp: FetchFileHandleOp_Execute_def Let_def split: bind_splits dest!: idle.I_handles_entry)
  obtain r S2 where l: "LookupFileHandle E a fp S1 = (r, S2)" by (rule prod.exhaust)
  with g(1) have "I None S2" by (auto dest!: idle.I_lookup_handle)
  with g(2) l locked[of E p a fp cr "lock_path fp S2" _ T "Some fp"] I_lock[of S2 fp] show ?thesis
    by (auto simp: FetchFileHandle_def split: option.splits bind_splits)
qed

lemma I_next_create:
  assumes h: "HandleNextEntity_create E arg ent p S = Some (r, T)" and i: "I None S"
  shows "I None T"
proof (cases "crf_overwrite_existing_tmp arg \<or> \<not> NeedTmpFile (handle_md ent) True")
  case True
  with h i show ?thesis by (auto simp: HandleNextEntity_create_def dest!: idle.I_handle_entity)
next
  case False
  with h obtain error cached held S1 where
    f: "FetchFileHandleOp_Execute E p (task_key (crf_header arg)) (root_dir (crf_header arg) @ handle_tmp_path ent) True S =
        Some ((error, cached, held), S1)"
    by (auto simp: HandleNextEntity_create_def split: bind_splits)
  with h False obtain e S2 where
    w: "(if \<not> Ok error then Some (error, S1) else if cached \<and> \<not> IsTargetFileHardlink (handle_md ent) then Some (no_error, S1)
         else HandleEntity E arg ent p S1) = Some (e, S2)" and T: "T = release_op held S2"
    by (auto simp: HandleNextEntity_create_def split: bind_splits)
  have "I held S2"
    using w I_fetch_handle[OF f i] op_invariant.I_handle_entity[OF frame] by (auto split: if_splits)
  then show ?thesis unfolding T by (rule I_release_op)
qed

lemma I_create_entities: "create_entities E arg ents p S = Some (r, T) \<Longrightarrow> I None S \<Longrightarrow> I None T"
proof (induction ents arbitrary: S r T)
  case (Cons ent ents)
  then obtain e S1 es where "HandleNextEntity_create E arg ent p S = Some (e, S1)" "create_entities E arg ents p S1 = Some (es, T)"
    by (auto split: bind_splits)
  with Cons.IH Cons.prems(2) I_next_create show ?case by blast
qed simp

lemma I_create_restore: "SmbProxyCreateRestoreFiles E arg S = Some (r, T) \<Longrightarrow> I None S \<longrightarrow> I None T"
  by (auto simp: SmbProxyCreateRestoreFiles_def Let_def split: if_splits bind_splits option.splits prod.splits
      dest!: idle.I_take dest: I_create_entities idle.I_discard)

lemma serve_keeps: "serve E r S = Some (resp, T) \<Longrightarrow> I None S \<Longrightarrow> I None T"
  by (cases r)
     (auto simp: map_prod_def split: prod.splits
      dest!: idle.I_new_object idle.I_delete_entity idle.I_root idle.I_fetch_page idle.I_fetch_file idle.I_purge_task
        idle.I_write_file I_create_restore idle.I_write_files idle.I_finalize idle.I_symlink idle.I_rename
        idle.I_verify_share)

lemma service_keeps: "service_state E w S \<Longrightarrow> I None (proxy_init w) \<Longrightarrow> I None S"
  by (induction rule: service_state.induct) (auto intro: serve_keeps idle.I_alarm)

end

subsection \<open>The handle caches of the connections\<close>

definition handles_bounded :: "'w smb_env \<Rightarrow> 'w proxy \<Rightarrow> bool" where
  "handles_bounded E S \<longleftrightarrow> (\<forall>q<conn_next S. fh_inv E (conns S q))"

definition files_view ::
  "'w proxy \<Rightarrow> (addr \<Rightarrow> FileHandlesEntry) \<times> addr \<times> (string, addr) umap \<times> string IDLocker" where
  "files_view S = (fhes S, fhe_next S, file_handles_map S, id_locker S)"

lemma evict_others:
  "evict_handles E p n S = Some T \<Longrightarrow>
     handles_only p S T \<and> files_view T = files_view S"
proof (induction n arbitrary: S)
  case (Suc n)
  show ?case
  proof (cases "length (fh_lru_list (conns S p)) > fh_max E")
    case True
    let ?h = "snd (hd (fh_lru_list (conns S p)))"
    obtain r U where U: "on_conn p (e_close_fnum E (fh_fnum ?h) p) S = (r, U)" by (rule prod.exhaust)
    from Suc.prems True U have "evict_handles E p n (upd_conn p pop_handle U) = Some T"
      by (auto simp: Let_def split: bind_splits)
    note IH = Suc.IH[OF this]
    have "handles_only p S T"
      by (rule handles_only_trans[OF handles_only_on_conn[OF U] handles_only_trans[OF handles_only_pop]]) (use IH in simp)
    moreover have "files_view U = files_view S"
      using U by (auto simp: on_conn_def put_sess_def files_view_def upd_conn_def split: prod.splits)
    ultimately show ?thesis using IH by (simp add: files_view_def upd_conn_def)
  qed (use Suc.prems in \<open>auto simp: handles_only_def quiet_refl\<close>)
qed (simp add: handles_only_def quiet_refl)

lemma UpdateFileHandle_others:
  assumes "UpdateFileHandle E path fnum p S = Some T"
  shows "handles_only p S T" "files_view T = files_view S"
proof -
  note e = evict_others[OF assms[unfolded UpdateFileHandle_def Let_def]]
  show "handles_only p S T" using handles_only_trans[OF handles_only_push] e by blast
  show "files_view T = files_view S" using e by (simp add: files_view_def upd_conn_def)
qed

lemma handles_bounded_upd:
  assumes "handles_bounded E S" "\<And>c. fh_inv E c \<Longrightarrow> fh_inv E (f c)"
  shows "handles_bounded E (upd_conn p f S)"
  using assms by (simp add: handles_bounded_def upd_conn_def)

lemma handles_bounded_update:
  assumes u: "UpdateFileHandle E path fnum p S = Some T" and b: "handles_bounded E S"
  shows "handles_bounded E T"
  unfolding handles_bounded_def
proof (intro allI impI)
  fix q
  assume "q < conn_next T"
  then have q: "q < conn_next S" using UpdateFileHandle_others(1)[OF u] by (auto simp: handles_only_def dest: quietD)
  then have inv: "fh_inv E (conns S q)" using b by (simp add: handles_bounded_def)
  show "fh_inv E (conns T q)"
  proof (cases "q = p")
    case True
    with inv have a: "fh_agree (conns S p)" by (simp add: fh_inv_def)
    obtain x where "conns T p = (remember_handle E path fnum (conns S p))\<lparr>conn_context := x\<rparr>"
      using UpdateFileHandle_facts[OF a, of E path fnum] u by auto
    with True remember_facts(1)[OF a] show ?thesis by simp
  next
    case False
    with inv UpdateFileHandle_others(1)[OF u] show ?thesis by (simp add: handles_only_def)
  qed
qed

lemma fh_inv_empty: "fh_lru_list c = [] \<Longrightarrow> fh_lru_map c = [] \<Longrightarrow> fh_inv E c"
  by (simp add: fh_inv_def fh_agree_def index_ok_empty)

lemma fh_inv_cong:
  "fh_lru_list d = fh_lru_list c \<Longrightarrow> fh_lru_map d = fh_lru_map c \<Longrightarrow> fh_next_node d = fh_next_node c \<Longrightarrow>
   fh_inv E d = fh_inv E c"
  by (simp add: fh_inv_def fh_agree_def)

interpretation handles: op_invariant E "handles_bounded E" for E :: "'w smb_env"
proof (unfold_locales, goal_cases)
  case (5 f p S)
  then have "fh_inv E (f (conns S p)) = fh_inv E (conns S p)" by (intro fh_inv_cong) simp_all
  then show ?case by (auto simp: handles_bounded_def upd_conn_def)
next
  case (6 S p)
  then show ?case by (auto intro!: handles_bounded_upd fh_inv_empty)
next
  case (7 S p path)
  then show ?case
    using forget_facts by (fastforce intro!: handles_bounded_upd simp: fh_inv_def intro: order.trans)
next
  case (8 path fnum p S T)
  then show ?case by (rule handles_bounded_update)
next
  case (9 S)
  then show ?case by (auto simp: handles_bounded_def new_SmbConnection_def less_Suc_eq intro: fh_inv_empty)
qed (simp_all add: handles_bounded_def upd_fhe_def)

lemma handles_bounded_locker [simp]: "handles_bounded E (S\<lparr>id_locker := L\<rparr>) = handles_bounded E S"
  by (simp add: handles_bounded_def)

interpretation handles_inv: proxy_invariant E "\<lambda>_. handles_bounded E" for E :: "'w smb_env"
  by (unfold_locales) (simp_all add: lock_path_def unlock_path_def split: prod.split)

subsection \<open>The file caches of the tasks\<close>

abbreviation file_cache_size :: "'w smb_env \<Rightarrow> int" where
  "file_cache_size E \<equiv> smb_proxy_task_file_handles_cache_size (e_flags E)"

definition files_ok :: "'w smb_env \<Rightarrow> 'w proxy \<Rightarrow> bool" where
  "files_ok E S \<longleftrightarrow>
     (file_cache_size E < 2 ^ 63 \<longrightarrow>
        (\<forall>a<fhe_next S. lru_inv (fh_cache (fhes S a)) \<and> lru_cap (fh_cache (fhes S a)) = nat (file_cache_size E))) \<and>
     (\<forall>ka\<in>set (file_handles_map S). snd ka < fhe_next S)"

lemma files_ok_view: "files_view T = files_view S \<Longrightarrow> files_ok E T = files_ok E S"
  by (simp add: files_ok_def files_view_def)

lemma files_ok_upd:
  assumes "files_ok E S"
    "\<And>e. e = fhes S a \<Longrightarrow> lru_inv (fh_cache e) \<Longrightarrow>
       lru_inv (fh_cache (f e)) \<and> lru_cap (fh_cache (f e)) = lru_cap (fh_cache e)"
  shows "files_ok E (upd_fhe a f S)"
  using assms by (auto simp: files_ok_def upd_fhe_def)

lemma new_entry_ok:
  assumes "new_FileHandlesEntry E = Some e" "file_cache_size E < 2 ^ 63"
  shows "lru_inv (fh_cache e) \<and> lru_cap (fh_cache e) = nat (file_cache_size E)"
proof -
  have "0 < file_cache_size E"
    using assms(1) by (auto simp: new_FileHandlesEntry_def LRUCache_new_def split: bind_splits if_splits)
  with lru_new_inv[OF this assms(2)] assms(1) show ?thesis
    by (auto simp: new_FileHandlesEntry_def LRUCache_new_def)
qed

interpretation files: op_invariant E "files_ok E" for E :: "'w smb_env"
proof (unfold_locales, goal_cases)
  case (8 path fnum p S T)
  then show ?case using files_ok_view[OF UpdateFileHandle_others(2)] by metis
next
  case (10 S a t)
  then show ?case
    using files_ok_upd[of E S a "\<lambda>e. e\<lparr>fhs_last_access_time_usecs := t\<rparr>"] by (simp add: upd_fhe_def)
next
  case (11 S a k)
  then show ?case by (rule files_ok_upd) (simp add: Lookup_facts cap_frame)
next
  case (12 S a k v)
  then show ?case by (rule files_ok_upd) (simp add: Insert_facts cap_frame)
next
  case (13 e S key)
  then show ?case
    using new_entry_ok[of E e] by (fastforce simp: files_ok_def less_Suc_eq set_emplace split: if_splits)
qed (auto simp: files_ok_def upd_conn_def)

lemma files_ok_locker [simp]: "files_ok E (S\<lparr>id_locker := L\<rparr>) = files_ok E S"
  by (simp add: files_ok_def)

interpretation files_inv: proxy_invariant E "\<lambda>_. files_ok E" for E :: "'w smb_env"
  by (unfold_locales) (simp_all add: lock_path_def unlock_path_def split: prod.split)

subsection \<open>The locks of paths\<close>

text \<open>Which lock is held: the entry of the path with one writer, and nothing else.\<close>

definition locker_holds :: "string option \<Rightarrow> string IDLocker \<Rightarrow> bool" where
  "locker_holds held L \<longleftrightarrow>
     (case held of
        None \<Rightarrow> id_map L = []
      | Some path \<Rightarrow>
          \<exists>a. id_map L = [(path, a)] \<and> reader_count (id_states L a) = 0 \<and> writer_count (id_states L a) = 1)"

definition locks_held :: "string option \<Rightarrow> 'w proxy \<Rightarrow> bool" where
  "locks_held held S \<longleftrightarrow> locker_holds held (id_locker S)"

lemma locks_frame: "op_invariant E (locks_held held)"
proof (unfold_locales, goal_cases)
  case (8 path fnum p S T)
  then show ?case using UpdateFileHandle_others(2)[of E path fnum p S T] by (auto simp: files_view_def locks_held_def)
qed (simp_all add: locks_held_def upd_conn_def upd_fhe_def)

interpretation locks: proxy_invariant E locks_held for E :: "'w smb_env"
proof (rule proxy_invariant.intro)
  show "op_invariant E (locks_held held)" for held by (rule locks_frame)
  show "locks_held None S \<Longrightarrow> locks_held (Some path) (lock_path path S)" for S :: "'w proxy" and path
    by (simp add: locks_held_def locker_holds_def lock_path_def AcquireExclusiveLock_def lock_exclusive_def id_ref_def upd_state_def
        emplace_def new_IDState_def)
  show "locks_held (Some path) S \<Longrightarrow> locks_held None (unlock_path path S)" for S :: "'w proxy" and path
    by (auto simp: locks_held_def locker_holds_def unlock_path_def ReleaseExclusiveLock_def MaybeCleanupIDStateLocked_def id_ref_def
        upd_state_def Let_def)
qed

subsection \<open>Properties\<close>

text \<open>C4. The caches of the service are always well formed. In every state the service reaches by requests
  (deletions of directories included), alarms and changes of the world, the handle cache of every
  connection has a list and a map that agree and holds at most \<open>smb_proxy_max_fh_cache_size\<close> handles;
  every entry of \<open>file_handles_map\<close> is an allocated file cache which satisfies the invariant of the LRU
  cache and holds at most \<open>smb_proxy_task_file_handles_cache_size\<close> files.\<close>

theorem service_caches_ok:
  assumes "service_state E w S" "file_cache_size E < 2 ^ 63"
  shows "(\<forall>q<conn_next S. fh_agree (conns S q) \<and> length (fh_lru_list (conns S q)) \<le> fh_max E) \<and>
    (\<forall>key a. map_of (file_handles_map S) key = Some a \<longrightarrow>
       lru_inv (fh_cache (fhes S a)) \<and> int (length (lru_abs (fh_cache (fhes S a)))) \<le> file_cache_size E)"
proof -
  have "handles_bounded E S" by (rule handles_inv.service_keeps[OF assms(1)]) (simp add: handles_bounded_def proxy_init_def)
  moreover have f: "files_ok E S" by (rule files_inv.service_keeps[OF assms(1)]) (simp add: files_ok_def proxy_init_def)
  have "lru_inv (fh_cache (fhes S a)) \<and> int (length (lru_abs (fh_cache (fhes S a)))) \<le> file_cache_size E"
    if "map_of (file_handles_map S) key = Some a" for key a
  proof -
    from f map_of_SomeD[OF that] assms(2)
    have "lru_inv (fh_cache (fhes S a))" "lru_cap (fh_cache (fhes S a)) = nat (file_cache_size E)"
      by (fastforce simp: files_ok_def)+
    then show ?thesis by (auto simp: lru_inv_def lru_abs_def lru_cap_def)
  qed
  ultimately show ?thesis by (simp add: handles_bounded_def fh_inv_def)
qed

lemma sample_served:
  obtains resp T where "serve sample_env (CreateEntityRpc sample_arg kFile ''/x'') (proxy_init sample_world) = Some (resp, T)"
    "service_state sample_env sample_world T" "conn_next T = 1"
proof -
  let ?f = "SmbProxyCreateEntity sample_env sample_arg kFile ''/x'' (proxy_init sample_world)"
  have "map_option (\<lambda>(_, T). conn_next T) ?f = Some 1" by code_simp
  then obtain e T where f: "?f = Some (e, T)" and n: "conn_next T = 1" by auto
  then have s: "serve sample_env (CreateEntityRpc sample_arg kFile ''/x'') (proxy_init sample_world) = Some (ErrorReply e, T)"
    by simp
  show ?thesis by (rule that[OF s service_request[OF service_started s] n])
qed

theorem service_caches_ok_witness:
  "\<exists>resp T. serve sample_env (CreateEntityRpc sample_arg kFile ''/x'') (proxy_init sample_world) = Some (resp, T) \<and>
     conn_next T = 1 \<and> fh_agree (conns T 0) \<and> length (fh_lru_list (conns T 0)) \<le> fh_max sample_env"
proof -
  obtain resp T where s: "serve sample_env (CreateEntityRpc sample_arg kFile ''/x'') (proxy_init sample_world) = Some (resp, T)"
    "service_state sample_env sample_world T" "conn_next T = 1" by (rule sample_served)
  have "file_cache_size sample_env < 2 ^ 63" by code_simp
  from service_caches_ok[OF s(2) this] s show ?thesis by auto
qed

text \<open>C20. No request leaves a path locked: in every state the service reaches by requests, alarms and changes of the world,
  the locker of the proxy has no entry, so that destroying it has nothing to report, and every later
  request finds the lock of its path free.\<close>

theorem service_no_lock_left:
  assumes "service_state E w S"
  shows "id_map (id_locker S) = [] \<and> IDLocker_dtor prt (id_locker S) = []"
proof -
  have "locks_held None S" by (rule locks.service_keeps[OF assms]) (simp add: locks_held_def locker_holds_def proxy_init_def IDLocker_new_def)
  then show ?thesis by (simp add: locks_held_def locker_holds_def IDLocker_dtor_def)
qed

theorem service_no_lock_left_witness:
  "\<exists>resp T. serve sample_env (CreateEntityRpc sample_arg kFile ''/x'') (proxy_init sample_world) = Some (resp, T) \<and>
     id_map (id_locker T) = [] \<and> id_map (id_locker (lock_path ''/x'' T)) \<noteq> []"
proof -
  obtain resp T where s: "serve sample_env (CreateEntityRpc sample_arg kFile ''/x'') (proxy_init sample_world) = Some (resp, T)"
    "service_state sample_env sample_world T" by (rule sample_served)
  have "id_map (id_locker (lock_path ''/x'' T)) \<noteq> []" if "id_map (id_locker T) = []"
    using that by (simp add: lock_path_def AcquireExclusiveLock_def lock_exclusive_def id_ref_def upd_state_def emplace_def)
  with service_no_lock_left[OF s(2)] s(1) show ?thesis by blast
qed

end
