(* ===== verification/Http_Server.thy ===== *)
theory Http_Server
  imports Smb_Proxy_Rpc Net_Util
begin

text \<open>
  The HTTP pages of the proxy: the handlers of \<open>apache_util/http_server/common_http_server.cc\<close> (compiled
  with the heap profiler) and the page \<open>RegisterHTTPHandlers\<close> of \<open>smb_proxy.cc\<close> adds. The web server is a
  library: it parses the query string, of which the handlers see whether it is empty and the value of a
  field, and it chooses the handler by the path; its table is the association list \<open>resource\<close>. The flag
  library and the allocator are parameters.
\<close>

subsection \<open>Reading a number\<close>

text \<open>\<^verbatim>\<open>std::stoi\<close>: leading white space, a sign, digits, and anything behind them; \<open>None\<close> is an exception (no digits, or
  a value outside the range of \<^verbatim>\<open>int\<close>).\<close>

definition is_space :: "char \<Rightarrow> bool" where
  "is_space c \<longleftrightarrow> of_char c \<in> {9 .. 13 :: nat} \<or> c = CHR '' ''"

definition is_digit :: "char \<Rightarrow> bool" where
  "is_digit c \<longleftrightarrow> of_char c \<in> {48 .. 57 :: nat}"

definition digits_value :: "string \<Rightarrow> int" where
  "digits_value ds = foldl (\<lambda>v c. 10 * v + (of_char c - 48)) 0 ds"

definition stoi :: "string \<Rightarrow> int option" where
  "stoi s =
     (let t = dropWhile is_space s;
          negative = (t \<noteq> [] \<and> hd t = CHR ''-'');
          t = (if t \<noteq> [] \<and> (hd t = CHR ''-'' \<or> hd t = CHR ''+'') then tl t else t);
          ds = takeWhile is_digit t;
          v = (if negative then - digits_value ds else digits_value ds)
      in if ds = [] \<or> v < - (2 ^ 31) \<or> 2 ^ 31 \<le> v then None else Some v)"

subsection \<open>Handlers\<close>

record CommandLineFlagInfo =
  flag_name :: string
  flag_current_value :: string
  flag_default_value :: string
  flag_is_default :: bool

text \<open>A request as a handler sees it.\<close>

record http_request =
  rq_query_empty :: bool
  rq_find :: "string \<Rightarrow> string option"

record http_env =
  h_all_flags :: "CommandLineFlagInfo list"
  h_heap_sample :: string
  h_stats :: "nat \<Rightarrow> string"
    \<comment> \<open>what the allocator leaves in a buffer of the given size\<close>

definition kDefaultTcmallocSampleParameter :: int where
  "kDefaultTcmallocSampleParameter = 524288"

definition pre :: "string \<Rightarrow> string" where
  "pre text = ''<pre>'' @ text @ ''</pre>''"

definition flag_line :: "CommandLineFlagInfo \<Rightarrow> string" where
  "flag_line flag =
     ''--'' @ flag_name flag @ ''='' @ flag_current_value flag @
     (if flag_is_default flag then [] else '' [default='' @ flag_default_value flag @ '']'') @ nl"

text \<open>Nothing is written for a request with a query.\<close>

definition FlagzHandler :: "http_env \<Rightarrow> http_request \<Rightarrow> string" where
  "FlagzHandler H request =
     (if rq_query_empty request then concat (map flag_line (h_all_flags H)) else [])"

text \<open>The state of the handler is the flag \<^verbatim>\<open>tcmalloc_sample_parameter\<close>.\<close>

definition PprofHeapHandler :: "http_env \<Rightarrow> http_request \<Rightarrow> int \<Rightarrow> string \<times> int" where
  "PprofHeapHandler H request parameter =
     (case rq_find request ''TCMALLOC_SAMPLE_PARAMETER'' of
        Some value \<Rightarrow>
          if value = ''default'' then (''Ok'', kDefaultTcmallocSampleParameter)
          else (case stoi value of
                  Some n \<Rightarrow> (''Ok'', n)
                | None \<Rightarrow> (''Invalid value '' @ value, parameter))
      | None \<Rightarrow> (pre (h_heap_sample H), parameter))"

definition HeapstatsHandler :: "http_env \<Rightarrow> string" where
  "HeapstatsHandler H = pre (c_str (h_stats H 4096))"

subsection \<open>The server\<close>

datatype http_handler = HealthzPage | FlagzPage | PprofHeapPage | HeapstatsPage | TaskPage

record HttpServer =
  http_port :: int
  http_resource :: "(string, http_handler) umap"

text \<open>Creating the server also resets the flag.\<close>

definition CreateCommonHttpServer :: "int \<Rightarrow> HttpServer \<times> int" where
  "CreateCommonHttpServer port =
     (\<lparr>http_port = port,
       http_resource =
         AList.update ''^/pprof/heapstats$'' HeapstatsPage
        (AList.update ''^/pprof/heap$'' PprofHeapPage
        (AList.update ''^/flagz$'' FlagzPage
        (AList.update ''^/healthz$'' HealthzPage [])))\<rparr>,
      kDefaultTcmallocSampleParameter)"

definition RegisterHTTPHandlers :: "HttpServer \<Rightarrow> HttpServer" where
  "RegisterHTTPHandlers srv =
     srv\<lparr>http_resource := AList.update ''^/$'' TaskPage (http_resource srv)\<rparr>"

definition not_found :: string where
  "not_found = ''HTTP/1.1 404 Not Found'' @ [CHR 0x0D, CHR 0x0A] @ ''Content-Length: 0'' @
     [CHR 0x0D, CHR 0x0A, CHR 0x0D, CHR 0x0A]"

text \<open>The answer to a GET request for the resource \<open>uri\<close>.\<close>

definition http_get ::
  "http_env \<Rightarrow> 'w smb_env \<Rightarrow> HttpServer \<Rightarrow> 'w proxy \<Rightarrow> string \<Rightarrow> http_request \<Rightarrow> int \<Rightarrow> string \<times> int" where
  "http_get H E srv S uri request parameter =
     (case map_of (http_resource srv) uri of
        Some HealthzPage \<Rightarrow> (''Ok'', parameter)
      | Some FlagzPage \<Rightarrow> (FlagzHandler H request, parameter)
      | Some PprofHeapPage \<Rightarrow> PprofHeapHandler H request parameter
      | Some HeapstatsPage \<Rightarrow> (HeapstatsHandler H, parameter)
      | Some TaskPage \<Rightarrow> (pre (TaskCacheMapString E S), parameter)
      | None \<Rightarrow> (not_found, parameter))"

subsection \<open>Numbers survive printing and reading\<close>

lemma of_char_digit: "d < 10 \<Longrightarrow> (of_char (digit_char d) :: nat) = 48 + d"
  by (simp add: digit_char_def)

lemma digit_char_cases:
  assumes "d < 10"
  shows "is_digit (digit_char d)" "\<not> is_space (digit_char d)" "digit_char d \<noteq> CHR ''-''" "digit_char d \<noteq> CHR ''+''"
proof -
  have c: "(of_char (digit_char d) :: nat) = 48 + d" by (rule of_char_digit[OF assms])
  show "is_digit (digit_char d)" using assms by (simp add: is_digit_def c)
  have "digit_char d \<noteq> CHR '' ''" using c by auto
  then show "\<not> is_space (digit_char d)" by (simp add: is_space_def c)
  show "digit_char d \<noteq> CHR ''-''" "digit_char d \<noteq> CHR ''+''" using c by auto
qed

lemma dec_nat_all_digits: "c \<in> set (dec_nat n) \<Longrightarrow> is_digit c \<and> \<not> is_space c \<and> c \<noteq> CHR ''-'' \<and> c \<noteq> CHR ''+''"
proof -
  assume "c \<in> set (dec_nat n)"
  then obtain d where "d < 10" "c = digit_char d" using dec_nat_digit by blast
  with digit_char_cases[of d] show ?thesis by simp
qed

lemma dec_nat_nonempty [simp]: "dec_nat n \<noteq> []"
  by (simp add: dec_nat.simps[of n])

lemma digits_value_dec [simp]: "digits_value (dec_nat n) = int n"
proof (induction n rule: dec_nat.induct)
  case (1 n)
  have c: "(of_char (digit_char d) :: int) = 48 + int d" if "d < 10" for d
    using of_char_digit[OF that] by (metis of_nat_add of_nat_numeral of_nat_of_char)
  show ?case
  proof (cases "n < 10")
    case True
    then show ?thesis by (simp add: dec_nat.simps[of n] digits_value_def c)
  next
    case False
    then have "digits_value (dec_nat n) = 10 * digits_value (dec_nat (n div 10)) + (of_char (digit_char (n mod 10)) - 48)"
      by (simp add: dec_nat.simps[of n] digits_value_def)
    then have "digits_value (dec_nat n) = 10 * int (n div 10) + int (n mod 10)"
      using 1[OF False] c[of "n mod 10"] by simp
    also have "\<dots> = int n" using mult_div_mod_eq[of 10 n] by linarith
    finally show ?thesis .
  qed
qed

lemma stoi_to_string:
  assumes "- (2 ^ 31) \<le> n" "n < 2 ^ 31"
  shows "stoi (to_string n) = Some n"
proof -
  have t: "takeWhile is_digit (dec_nat k) = dec_nat k" for k
    using dec_nat_all_digits by (simp add: takeWhile_eq_all_conv)
  have h: "is_digit (hd (dec_nat k)) \<and> \<not> is_space (hd (dec_nat k)) \<and> hd (dec_nat k) \<noteq> CHR ''-'' \<and> hd (dec_nat k) \<noteq> CHR ''+''" for k
    by (rule dec_nat_all_digits[of _ k]) simp
  have d: "dropWhile is_space (dec_nat k) = dec_nat k" for k
    using h[of k] by (cases "dec_nat k") simp_all
  have m: "\<not> is_space (CHR ''-'')" by code_simp
  show ?thesis
  proof (cases "n < 0")
    case True
    with assms show ?thesis by (simp add: to_string_def stoi_def Let_def m t)
  next
    case False
    with assms show ?thesis by (simp add: to_string_def stoi_def Let_def d h t)
  qed
qed

subsection \<open>Properties\<close>



end
