(* ===== verification/Proxy_Lifecycle.thy ===== *)
theory Proxy_Lifecycle
  imports State_Invariants Http_Server
begin

text \<open>
  The life of an \<open>SmbProxy\<close> object (\<open>smb_proxy.cc\<close>): \<open>Start\<close>, the thread that sleeps and runs the alarm handler, the
  requests the polling threads serve, and the destructor, step by step. The destructor sets a flag, stops
  the HTTP server, shuts the Samba client down, waits for the thread pool with the members of the object, and
  only then does the base class stop the gRPC server. The steps interleave.
\<close>

datatype alarm_phase = NotQueued | Checking | Sleeping | Alarming | AlarmEnded

datatype dtor_phase = NotDestroyed | StopFlagSet | HttpStopped | SambaDestroyed | PoolJoined | GrpcStopped

text \<open>The fields of the object that outlive a request, the positions of the alarm thread and of the destructor, and
  the number of alarms that have run since the destructor began.\<close>

record 'w lifecycle =
  lc_proxy :: "'w proxy"
  lc_http :: "HttpServer option"
  lc_sample_parameter :: int
  is_stopped :: bool
  samba_ready :: bool
  alarm_at :: alarm_phase
  dtor_at :: dtor_phase
  late_alarms :: nat

text \<open>The constructor: the RPC port must not be negative; \<open>parameter\<close> is the sampling flag of the allocator.\<close>

definition new_SmbProxy :: "int \<Rightarrow> int \<Rightarrow> 'w \<Rightarrow> 'w lifecycle option" where
  "new_SmbProxy rpc_port parameter w =
     do { CHECK (rpc_port \<ge> 0);
          Some \<lparr>lc_proxy = proxy_init w, lc_http = None, lc_sample_parameter = parameter, is_stopped = False,
                samba_ready = True, alarm_at = NotQueued, dtor_at = NotDestroyed, late_alarms = 0\<rparr> }"

text \<open>\<open>Start\<close>, after the gRPC server has been started.\<close>

definition SmbProxy_Start :: "int \<Rightarrow> 'w lifecycle \<Rightarrow> 'w lifecycle" where
  "SmbProxy_Start port L =
     (let (srv, parameter) = CreateCommonHttpServer port
      in L\<lparr>lc_http := Some (RegisterHTTPHandlers srv), lc_sample_parameter := parameter, alarm_at := Checking\<rparr>)"

text \<open>The alarm thread: the test of the loop, and one run of the handler.\<close>

definition alarm_check :: "'w lifecycle \<Rightarrow> 'w lifecycle" where
  "alarm_check L = L\<lparr>alarm_at := if is_stopped L then AlarmEnded else Sleeping\<rparr>"

definition alarm_run :: "'w smb_env \<Rightarrow> 'w lifecycle \<Rightarrow> 'w lifecycle option" where
  "alarm_run E L =
     do { S \<leftarrow> AlarmHandler E (lc_proxy L);
          Some (L\<lparr>lc_proxy := S, alarm_at := Checking,
                  late_alarms := if is_stopped L then Suc (late_alarms L) else late_alarms L\<rparr>) }"

text \<open>The destructor; stopping the HTTP server dereferences its pointer.\<close>

definition dtor_step :: "'w lifecycle \<Rightarrow> 'w lifecycle option" where
  "dtor_step L =
     (case dtor_at L of
        NotDestroyed \<Rightarrow> Some (L\<lparr>is_stopped := True, dtor_at := StopFlagSet\<rparr>)
      | StopFlagSet \<Rightarrow> if lc_http L = None then None else Some (L\<lparr>dtor_at := HttpStopped\<rparr>)
      | HttpStopped \<Rightarrow> Some (L\<lparr>samba_ready := False, dtor_at := SambaDestroyed\<rparr>)
      | SambaDestroyed \<Rightarrow> if alarm_at L = AlarmEnded then Some (L\<lparr>dtor_at := PoolJoined\<rparr>) else None
      | PoolJoined \<Rightarrow> Some (L\<lparr>dtor_at := GrpcStopped\<rparr>)
      | GrpcStopped \<Rightarrow> None)"

text \<open>The steps. The gRPC server still accepts requests when the members of the object are gone; such a request
  has no defined behaviour and no step.\<close>

inductive lifecycle_step :: "'w smb_env \<Rightarrow> 'w lifecycle \<Rightarrow> 'w lifecycle \<Rightarrow> bool" for E where
  lc_start: "alarm_at L = NotQueued \<Longrightarrow> dtor_at L = NotDestroyed \<Longrightarrow> lifecycle_step E L (SmbProxy_Start port L)"
| lc_check: "alarm_at L = Checking \<Longrightarrow> lifecycle_step E L (alarm_check L)"
| lc_wake: "alarm_at L = Sleeping \<Longrightarrow> lifecycle_step E L (L\<lparr>alarm_at := Alarming\<rparr>)"
| lc_alarm: "alarm_at L = Alarming \<Longrightarrow> alarm_run E L = Some M \<Longrightarrow> lifecycle_step E L M"
| lc_request: "alarm_at L \<noteq> NotQueued \<Longrightarrow> dtor_at L \<notin> {PoolJoined, GrpcStopped} \<Longrightarrow> serve E r (lc_proxy L) = Some (resp, S) \<Longrightarrow>
    lifecycle_step E L (L\<lparr>lc_proxy := S\<rparr>)"
| lc_page: "lc_http L = Some srv \<Longrightarrow> dtor_at L \<in> {NotDestroyed, StopFlagSet} \<Longrightarrow>
    http_get H E srv (lc_proxy L) uri request (lc_sample_parameter L) = (page, parameter) \<Longrightarrow>
    lifecycle_step E L (L\<lparr>lc_sample_parameter := parameter\<rparr>)"
| lc_destroy: "dtor_step L = Some M \<Longrightarrow> lifecycle_step E L M"
| lc_world: "lifecycle_step E L (L\<lparr>lc_proxy := (lc_proxy L)\<lparr>world := w\<rparr>\<rparr>)"

definition lifecycle_init :: "'w \<Rightarrow> 'w lifecycle \<Rightarrow> bool" where
  "lifecycle_init w L \<longleftrightarrow> (\<exists>port parameter. new_SmbProxy port parameter w = Some L)"

text \<open>After the stop flag, the alarm thread ends at its next test.\<close>

definition lifecycle_inv :: "'w smb_env \<Rightarrow> 'w \<Rightarrow> 'w lifecycle \<Rightarrow> bool" where
  "lifecycle_inv E w L \<longleftrightarrow>
     service_state E w (lc_proxy L) \<and>
     (is_stopped L \<longleftrightarrow> dtor_at L \<noteq> NotDestroyed) \<and>
     (samba_ready L \<longleftrightarrow> dtor_at L \<in> {NotDestroyed, StopFlagSet, HttpStopped}) \<and>
     (dtor_at L \<in> {PoolJoined, GrpcStopped} \<longrightarrow> alarm_at L = AlarmEnded) \<and>
     (alarm_at L = AlarmEnded \<longrightarrow> is_stopped L) \<and>
     (\<not> is_stopped L \<longrightarrow> late_alarms L = 0) \<and>
     (is_stopped L \<longrightarrow> late_alarms L = 0 \<or> late_alarms L = 1 \<and> alarm_at L \<in> {Checking, AlarmEnded})"

lemma service_alarm_handler:
  assumes "service_state E w S" "AlarmHandler E S = Some T"
  shows "service_state E w T"
  using assms service_alarm[OF assms(1)] service_world[OF service_alarm[OF assms(1)]]
  by (auto simp: AlarmHandler_def Let_def split: if_splits bind_splits)

interpretation lifecycle: inductive_invariant "lifecycle_init w" "lifecycle_step E" "lifecycle_inv E w"
  for w :: 'w and E :: "'w smb_env"
proof
  fix L :: "'w lifecycle"
  assume "lifecycle_init w L"
  then show "lifecycle_inv E w L"
    by (auto simp: lifecycle_init_def new_SmbProxy_def lifecycle_inv_def service_started split: bind_splits)
next
  fix L M :: "'w lifecycle"
  assume inv: "lifecycle_inv E w L" and step: "lifecycle_step E L M"
  from step show "lifecycle_inv E w M"
  proof (cases rule: lifecycle_step.cases)
    case lc_alarm
    with inv show ?thesis
      by (auto simp: lifecycle_inv_def alarm_run_def intro: service_alarm_handler split: bind_splits)
  next
    case lc_destroy
    with inv show ?thesis by (auto simp: lifecycle_inv_def dtor_step_def split: dtor_phase.splits if_splits)
  qed (use inv in \<open>auto simp: lifecycle_inv_def SmbProxy_Start_def alarm_check_def
        intro: service_request service_world split: prod.splits\<close>)
qed

subsection \<open>Properties\<close>



end
