(* ===== verification/Log_Text.thy ===== *)
theory Log_Text
  imports Prelude
begin

text \<open>
  The texts for log lines of \<open>gpl_util/base/util.cc\<close>: \<open>StringPrintf\<close>, which measures the text before it prints it, and
  \<open>NumBytesToReadableString\<close>. The numbers the latter prints are double-precision: a 64-bit size is rounded to 53
  significant bits, the division by a power of two is exact, and \<^verbatim>\<open>%.1f\<close> rounds the quotient to tenths, ties to even
  in both cases. Beside them the adapter through which gRPC logs (\<open>grpclib/grpc_async_service.cc\<close>).
\<close>

subsection \<open>Log lines of gRPC\<close>

datatype log_severity = GLOG_INFO | GLOG_WARNING | GLOG_ERROR | GLOG_FATAL

datatype gpr_log_severity = GPR_LOG_SEVERITY_DEBUG | GPR_LOG_SEVERITY_INFO | GPR_LOG_SEVERITY_ERROR

record gpr_log_func_args =
  gla_file :: string
  gla_line :: int
  gla_severity :: gpr_log_severity
  gla_message :: string

text \<open>The lines that go to the log: severity, place and message.\<close>

definition GrpcLogger :: "gpr_log_func_args \<Rightarrow> (log_severity \<times> string \<times> int \<times> string) list" where
  "GrpcLogger args =
     (case gla_severity args of
        GPR_LOG_SEVERITY_DEBUG \<Rightarrow> []
      | GPR_LOG_SEVERITY_INFO \<Rightarrow> [(GLOG_INFO, gla_file args, gla_line args, gla_message args)]
      | GPR_LOG_SEVERITY_ERROR \<Rightarrow> [(GLOG_ERROR, gla_file args, gla_line args, gla_message args)])"

subsection \<open>Printing into a buffer\<close>

text \<open>\<^verbatim>\<open>vsnprintf\<close> for a format and arguments that give \<open>text\<close>: the length of the whole text, and what is in a buffer
  of \<open>n\<close> bytes afterwards.\<close>

definition vsnprintf :: "nat \<Rightarrow> string \<Rightarrow> int \<times> string" where
  "vsnprintf n text = (int (length text), if n = 0 then [] else take (n - 1) text @ [CHR 0x00])"

definition StringPrintf :: "string \<Rightarrow> string option" where
  "StringPrintf text =
     (let (rv, _) = vsnprintf 0 text;
          buffer = replicate (nat (rv + 1)) (CHR 0x00);
          (rv', written) = vsnprintf (nat (rv + 1)) text
      in do { CHECK (rv' = rv); Some (butlast (written @ drop (length written) buffer)) })"

lemma StringPrintf_text: "StringPrintf text = Some text"
  by (simp add: StringPrintf_def vsnprintf_def CHECK_def nat_add_distrib)

subsection \<open>Double-precision numbers\<close>

definition round_half_even :: "int \<Rightarrow> int \<Rightarrow> int" where
  "round_half_even a b =
     (let q = a div b; r = a mod b in if 2 * r < b \<or> 2 * r = b \<and> even q then q else q + 1)"

fun bit_length :: "nat \<Rightarrow> nat" where
  "bit_length n = (if n = 0 then 0 else Suc (bit_length (n div 2)))"

declare bit_length.simps [simp del]

text \<open>The value of the double a 64-bit number is converted to.\<close>

definition to_double :: "int \<Rightarrow> int" where
  "to_double u = (let s = bit_length (nat \<bar>u\<bar>) - 53 in sgn u * round_half_even \<bar>u\<bar> (2 ^ s) * 2 ^ s)"

text \<open>\<^verbatim>\<open>%.1f\<close> of the quotient of a double by a power of two.\<close>

definition format_1f :: "int \<Rightarrow> int \<Rightarrow> string" where
  "format_1f d unit =
     (let t = round_half_even (\<bar>d\<bar> * 10) unit
      in (if d < 0 then ''-'' else []) @ to_string (t div 10) @ ''.'' @ to_string (t mod 10))"

subsection \<open>Readable sizes\<close>

text \<open>\<^verbatim>\<open>std::abs\<close> of the least 64-bit number overflows; the result is then undefined.\<close>

definition NumBytesToReadableString :: "int \<Rightarrow> string option" where
  "NumBytesToReadableString usage =
     (let kNumBytesInKB = 1024;
          kNumBytesInMB = 1024 * kNumBytesInKB;
          kNumBytesInGB = 1024 * kNumBytesInMB;
          kNumBytesInTB = 1024 * kNumBytesInGB
      in if usage = - (2 ^ 63) then None
         else if to_double \<bar>usage\<bar> \<ge> kNumBytesInTB then StringPrintf (format_1f (to_double usage) kNumBytesInTB @ '' TB'')
         else if to_double \<bar>usage\<bar> \<ge> kNumBytesInGB then StringPrintf (format_1f (to_double usage) kNumBytesInGB @ '' GB'')
         else if to_double \<bar>usage\<bar> \<ge> kNumBytesInMB then StringPrintf (format_1f (to_double usage) kNumBytesInMB @ '' MB'')
         else if to_double \<bar>usage\<bar> \<ge> kNumBytesInKB then StringPrintf (format_1f (to_double usage) kNumBytesInKB @ '' KB'')
         else StringPrintf (to_string usage @ ''B''))"

subsection \<open>Accuracy\<close>

lemma round_half_even_near:
  assumes "0 < b"
  shows "2 * \<bar>round_half_even a b * b - a\<bar> \<le> b"
proof -
  have a: "a = a div b * b + a mod b" by simp
  have m: "0 \<le> a mod b" "a mod b < b" using assms by simp_all
  show ?thesis
  proof (cases "2 * (a mod b) < b \<or> 2 * (a mod b) = b \<and> even (a div b)")
    case True
    then have "round_half_even a b = a div b" by (simp add: round_half_even_def)
    then have "round_half_even a b * b - a = - (a mod b)" using a by (simp add: algebra_simps)
    with True m show ?thesis by auto
  next
    case False
    then have "round_half_even a b = a div b + 1" by (auto simp: round_half_even_def Let_def)
    then have "round_half_even a b * b - a = b - a mod b" using a by (simp add: algebra_simps)
    with False m show ?thesis by auto
  qed
qed

lemma bit_length_le: "n < 2 ^ k \<Longrightarrow> bit_length n \<le> k"
proof (induction n arbitrary: k rule: bit_length.induct)
  case (1 n)
  then show ?case
    by (cases k; subst bit_length.simps) (auto simp: less_mult_imp_div_less mult.commute)
qed

lemma to_double_small:
  assumes "\<bar>u\<bar> < 2 ^ 53"
  shows "to_double u = u"
proof -
  have "nat \<bar>u\<bar> < 2 ^ 53" using assms by simp
  then have "bit_length (nat \<bar>u\<bar>) - 53 = 0" using bit_length_le by simp
  then show ?thesis by (simp add: to_double_def round_half_even_def Let_def sgn_mult_abs)
qed

definition units :: "(int \<times> string) list" where
  "units = [(1024, '' KB''), (1024 ^ 2, '' MB''), (1024 ^ 3, '' GB''), (1024 ^ 4, '' TB'')]"

text \<open>A size below eight petabytes is printed in the largest unit that is not above it, off by at most a twentieth of
  the unit; a size below a kilobyte is printed exactly.\<close>

theorem NumBytesToReadableString_accurate:
  assumes "\<bar>usage\<bar> < 2 ^ 53"
  shows "\<bar>usage\<bar> < 1024 \<and> NumBytesToReadableString usage = Some (to_string usage @ ''B'') \<or>
    (\<exists>(unit, suffix)\<in>set units. \<exists>t. unit \<le> \<bar>usage\<bar> \<and> (\<bar>usage\<bar> < 1024 * unit \<or> suffix = '' TB'') \<and>
       2 * \<bar>t * unit - 10 * \<bar>usage\<bar>\<bar> \<le> unit \<and>
       NumBytesToReadableString usage =
         Some ((if usage < 0 then ''-'' else []) @ to_string (t div 10) @ ''.'' @ to_string (t mod 10) @ suffix))"
proof -
  let ?t = "\<lambda>unit. round_half_even (\<bar>usage\<bar> * 10) unit"
  have d: "to_double usage = usage" "to_double \<bar>usage\<bar> = \<bar>usage\<bar>" using assms by (auto intro: to_double_small)
  have min: "usage \<noteq> - (2 ^ 63)" using assms by auto
  have near: "2 * \<bar>?t unit * unit - 10 * \<bar>usage\<bar>\<bar> \<le> unit" if "0 < unit" for unit
    using round_half_even_near[OF that, of "\<bar>usage\<bar> * 10"] by (simp add: mult.commute)
  have shown: "NumBytesToReadableString usage =
      Some (if \<bar>usage\<bar> \<ge> 1024 ^ 4 then format_1f usage (1024 ^ 4) @ '' TB''
        else if \<bar>usage\<bar> \<ge> 1024 ^ 3 then format_1f usage (1024 ^ 3) @ '' GB''
        else if \<bar>usage\<bar> \<ge> 1024 ^ 2 then format_1f usage (1024 ^ 2) @ '' MB''
        else if \<bar>usage\<bar> \<ge> 1024 then format_1f usage 1024 @ '' KB'' else to_string usage @ ''B'')"
    using min by (simp add: NumBytesToReadableString_def StringPrintf_text d)
  consider "\<bar>usage\<bar> < 1024" | "1024 \<le> \<bar>usage\<bar>" "\<bar>usage\<bar> < 1024 ^ 2" | "1024 ^ 2 \<le> \<bar>usage\<bar>" "\<bar>usage\<bar> < 1024 ^ 3"
    | "1024 ^ 3 \<le> \<bar>usage\<bar>" "\<bar>usage\<bar> < 1024 ^ 4" | "1024 ^ 4 \<le> \<bar>usage\<bar>" by linarith
  then show ?thesis
  proof cases
    case 1
    then show ?thesis using shown by simp
  next
    case 2
    then show ?thesis using shown near[of 1024]
      by (intro disjI2 bexI[of _ "(1024, '' KB'')"]) (auto simp: units_def format_1f_def Let_def intro!: exI[of _ "?t 1024"])
  next
    case 3
    then show ?thesis using shown near[of "1024 ^ 2"]
      by (intro disjI2 bexI[of _ "(1024 ^ 2, '' MB'')"]) (auto simp: units_def format_1f_def Let_def intro!: exI[of _ "?t (1024 ^ 2)"])
  next
    case 4
    then show ?thesis using shown near[of "1024 ^ 3"]
      by (intro disjI2 bexI[of _ "(1024 ^ 3, '' GB'')"]) (auto simp: units_def format_1f_def Let_def intro!: exI[of _ "?t (1024 ^ 3)"])
  next
    case 5
    then show ?thesis using shown near[of "1024 ^ 4"]
      by (intro disjI2 bexI[of _ "(1024 ^ 4, '' TB'')"]) (auto simp: units_def format_1f_def Let_def intro!: exI[of _ "?t (1024 ^ 4)"])
  qed
qed

end
