(* ===== verification/Process_Main.thy ===== *)
theory Process_Main
  imports Self_Monitor Proxy_Lifecycle Log_Text
begin

text \<open>
  The process around the service: \<open>main\<close> of \<open>smb_proxy_exec.cc\<close>, and \<open>StartSelfMonitoring\<close> and \<open>ReinitializeChild\<close> of
  \<open>gpl_util/base/util.cc\<close>, in which the process forks children and watches them. The functions of the operating system
  and of gRPC are observed through their results; of the logging library the settings are kept that the code makes.
\<close>

subsection \<open>Names and the monitor function\<close>

definition program_name :: "string \<Rightarrow> string" where
  "program_name argv0 =
     (case rfind slash argv0 of Some last_slash \<Rightarrow> drop (Suc last_slash) argv0 | None \<Rightarrow> argv0)"

text \<open>What the monitor function sees of its call of \<open>SmbProxyGetStatusInfo\<close>.\<close>

record status_call =
  sc_has_error :: bool
  sc_status_ok :: bool

definition monitor_fn :: "status_call \<Rightarrow> bool" where
  "monitor_fn call = (if sc_has_error call then False else if \<not> sc_status_ok call then False else True)"

subsection \<open>Settings of the process\<close>

text \<open>The version text, the name the log was opened with while it is open, the names of the links to the log files,
  whether the handler for fatal signals is installed and whether the process is killed with its parent.\<close>

record process =
  ps_version :: string
  ps_log_name :: "string option"
  ps_log_symlink :: "(log_severity, string) umap"
  ps_failure_handler :: bool
  ps_death_signal :: bool

definition ShutdownGoogleLogging :: "process \<Rightarrow> process" where
  "ShutdownGoogleLogging P = P\<lparr>ps_log_name := None\<rparr>"

definition SetLogSymlink :: "log_severity \<Rightarrow> string \<Rightarrow> process \<Rightarrow> process" where
  "SetLogSymlink sev name P = P\<lparr>ps_log_symlink := AList.update sev name (ps_log_symlink P)\<rparr>"

definition InitGoogleLogging :: "string \<Rightarrow> process \<Rightarrow> process" where
  "InitGoogleLogging name P = P\<lparr>ps_log_name := Some name\<rparr>"

definition InstallFailureSignalHandler :: "process \<Rightarrow> process" where
  "InstallFailureSignalHandler P = P\<lparr>ps_failure_handler := True\<rparr>"

text \<open>The set-up of a forked child; a failing \<^verbatim>\<open>prctl\<close> aborts it.\<close>

definition ReinitializeChild :: "string \<Rightarrow> bool \<Rightarrow> process \<Rightarrow> process option" where
  "ReinitializeChild name prctl_ok P =
     (let P = ShutdownGoogleLogging P;
          P = SetLogSymlink GLOG_INFO name P;
          P = SetLogSymlink GLOG_WARNING name P;
          P = SetLogSymlink GLOG_ERROR name P;
          P = SetLogSymlink GLOG_FATAL name P;
          P = InitGoogleLogging name P;
          P = InstallFailureSignalHandler P
      in do { CHECK prctl_ok; Some (P\<lparr>ps_death_signal := True\<rparr>) })"

subsection \<open>Forking and watching\<close>

text \<open>One round of the outer loop: the fork fails; the process is the child, in which the death signal is
  set or not; or it is the parent and watches through these rounds.\<close>

datatype fork_result = ForkError | InChild bool | InParent "monitor_round list"

text \<open>How the function ends, as far as it is observed: it returns, so that the process goes on to serve; it aborts;
  or it is still watching. The number counts the children this process has started.\<close>

datatype monitor_outcome = Returned process | Aborted | Watching

fun monitor_loop :: "string \<Rightarrow> fork_result list \<Rightarrow> nat \<Rightarrow> process \<Rightarrow> monitor_outcome \<times> nat" where
  "monitor_loop name [] children P = (Watching, children)"
| "monitor_loop name (ForkError # forks) children P = (Aborted, children)"
| "monitor_loop name (InChild prctl_ok # forks) children P =
     (case ReinitializeChild name prctl_ok P of None \<Rightarrow> Aborted | Some P \<Rightarrow> Returned P, children)"
| "monitor_loop name (InParent rounds # forks) children P =
     (case watch_child False rounds of
        None \<Rightarrow> (Watching, Suc children)
      | Some _ \<Rightarrow> monitor_loop name forks (Suc children) P)"

definition StartSelfMonitoring :: "bool \<Rightarrow> string \<Rightarrow> fork_result list \<Rightarrow> process \<Rightarrow> monitor_outcome \<times> nat" where
  "StartSelfMonitoring enabled name forks P = (if \<not> enabled then (Returned P, 0) else monitor_loop name forks 0 P)"

subsection \<open>The program\<close>

text \<open>The texts the build fills in, and the flags \<open>main\<close> reads. The parent does not get past the monitoring; the
  child builds and starts the proxy and sleeps from then on.\<close>

record build_info =
  kBuildVersion :: string
  kBuildLastCommitTime :: string

record main_flags =
  gpl_util_self_monitoring_enabled :: bool
  smb_proxy_port :: int
  smb_proxy_http_server_port :: int

datatype 'w main_outcome = Serving process "'w lifecycle" | MainAborted | MainWatching

definition version_string :: "build_info \<Rightarrow> string \<Rightarrow> string" where
  "version_string B name =
     kBuildVersion B @ [CHR 0x0A] @ replicate (length name) (CHR '' '') @ ''        '' @ '' last-commit-time '' @ kBuildLastCommitTime B"

definition smb_proxy_main ::
  "build_info \<Rightarrow> main_flags \<Rightarrow> string \<Rightarrow> fork_result list \<Rightarrow> int \<Rightarrow> 'w \<Rightarrow> 'w main_outcome" where
  "smb_proxy_main B F argv0 forks parameter w =
     (let name = program_name argv0;
          P = \<lparr>ps_version = version_string B name, ps_log_name = None, ps_log_symlink = [], ps_failure_handler = False,
               ps_death_signal = False\<rparr>;
          P = InstallFailureSignalHandler (InitGoogleLogging argv0 P)
      in case fst (StartSelfMonitoring (gpl_util_self_monitoring_enabled F) name forks P) of
           Aborted \<Rightarrow> MainAborted
         | Watching \<Rightarrow> MainWatching
         | Returned P \<Rightarrow>
             (case new_SmbProxy (smb_proxy_port F) parameter w of
                None \<Rightarrow> MainAborted
              | Some L \<Rightarrow> Serving P (SmbProxy_Start (smb_proxy_http_server_port F) L)))"

subsection \<open>Lemmas\<close>

lemma monitor_loop_parent:
  "monitor_loop name (map InParent rss) n P =
     (Watching, n + length (takeWhile (\<lambda>rs. \<exists>r\<in>set rs. gone r) rss) +
        (if \<forall>rs\<in>set rss. \<exists>r\<in>set rs. gone r then 0 else 1))"
  by (induction rss arbitrary: n) (auto simp: watch_child_first_gone)

lemma monitor_loop_returns:
  "monitor_loop name forks n P = (Returned Q, m) \<Longrightarrow>
    \<exists>rss rest. forks = map InParent rss @ InChild True # rest \<and> m = n + length rss \<and>
      (\<forall>rs\<in>set rss. \<exists>r\<in>set rs. gone r) \<and> ReinitializeChild name True P = Some Q"
proof (induction name forks n P rule: monitor_loop.induct)
  case (3 name ok forks children P)
  then have "ok" "ReinitializeChild name True P = Some Q" "m = children"
    by (auto simp: ReinitializeChild_def Let_def split: option.splits bind_splits)
  then show ?case by (intro exI[of _ "[]"] exI[of _ forks]) auto
next
  case (4 name rounds forks children P)
  then obtain i where i: "watch_child False rounds = Some i" by (cases "watch_child False rounds") auto
  then have g: "\<exists>r\<in>set rounds. gone r" by (auto simp: watch_child_first_gone split: if_splits)
  from 4 i obtain rss rest where r: "forks = map InParent rss @ InChild True # rest" "m = Suc children + length rss"
    "\<forall>rs\<in>set rss. \<exists>r\<in>set rs. gone r" "ReinitializeChild name True P = Some Q"
    by fastforce
  with g show ?case by (intro exI[of _ "rounds # rss"]) auto
qed auto

lemma child_settings:
  assumes "ReinitializeChild name ok P = Some Q"
  shows "ps_log_name Q = Some name" "ps_death_signal Q" "map_of (ps_log_symlink Q) sev = Some name"
proof -
  show "ps_log_name Q = Some name" "ps_death_signal Q"
    using assms by (auto simp: ReinitializeChild_def InitGoogleLogging_def InstallFailureSignalHandler_def Let_def split: bind_splits)
  show "map_of (ps_log_symlink Q) sev = Some name"
    using assms by (cases sev) (auto simp: ReinitializeChild_def InitGoogleLogging_def InstallFailureSignalHandler_def
      SetLogSymlink_def update_conv' Let_def split: bind_splits)
qed

lemma program_name_no_slash: "slash \<notin> set (program_name argv0)"
  by (auto simp: program_name_def rfind_None dest: rfind_Some split: option.splits)

subsection \<open>Properties\<close>



end
