(* ===== verification/Fetch_Data.thy ===== *)
theory Fetch_Data
  imports Service
begin

text \<open>
  \<open>SmbProxyFetchFileData\<close> from the request to the response: the bytes the client gets are the bytes of
  the file. The server is described by the contract of \<open>File_Read\<close>; in addition, reading the clock
  changes no file, and a connection reports a maximal read size above zero.
\<close>

definition handles_agree :: "'w proxy \<Rightarrow> bool" where
  "handles_agree S \<longleftrightarrow> (\<forall>q<conn_next S. fh_agree (conns S q))"

definition fetch_contract :: "'w smb_env \<Rightarrow> ('w \<Rightarrow> string \<Rightarrow> string) \<Rightarrow> string \<Rightarrow> string \<Rightarrow> bool" where
  "fetch_contract E file path smb_path \<longleftrightarrow>
     (\<forall>p. read_contract E p file \<and> fixed_path E p path smb_path) \<and> (\<forall>w. file (snd (e_now E w)) = file w)"

text \<open>What a connection that has been taken looks like: its cache of handles is consistent.\<close>

lemma fh_agree_update:
  "fh_agree (c\<lparr>conn_last_access_time_usecs := t\<rparr>) = fh_agree c"
  "fh_agree (c\<lparr>creation_time_usecs := u\<rparr>) = fh_agree c"
  by (simp_all add: fh_agree_def)

lemma fh_agree_new: "fh_agree (new_SmbConnection E)"
  by (simp add: fh_agree_def new_SmbConnection_def index_ok_empty)

lemma take_handles:
  assumes ok: "pool_ok E S" and a: "handles_agree S"
    and g: "GetOrCreateSmbConnection E h hp (-1) 0 S = ((Some p, e), T)"
  shows "fh_agree (conns T p)"
proof -
  obtain t S1 where t: "find_task E h S = (t, S1)" by (rule prod.exhaust)
  note F = find_task_facts[OF ok t]
  have c: "checkout E h hp (-1) 0 t S1 = ((Some p, e), T)" using g t by (simp add: GetOrCreateSmbConnection_def)
  have a1: "\<forall>q<conn_next S1. fh_agree (conns S1 q)" using a F(3,4) by (simp add: handles_agree_def)
  show ?thesis
  proof (cases "inactive_connection_list (tasks S1 t) = []")
    case True
    then have "create_connection E h t S1 = ((Some p, e), T)" using c by (simp add: checkout_def)
    then show ?thesis
      by (auto simp: create_connection_def Let_def upd_conn_def upd_task_def GetNowInUsecs_def on_conn_def put_sess_def
          fh_agree_context fh_agree_update fh_agree_new split: prod.splits if_splits)
  next
    case False
    obtain q rest where pr: "pick_inactive S1 hp (inactive_connection_list (tasks S1 t)) = (q, rest)" by (rule prod.exhaust)
    obtain us vs where "inactive_connection_list (tasks S1 t) = us @ q # vs"
      using pick_inactive_split[OF False pr] by blast
    then have "q < conn_next S1"
      using pool_okD(5)[OF F(1) task_conns_pool[OF live_task[OF F(2)], of q]] by (simp add: task_conns_def)
    with a1 c False pr show ?thesis
      by (auto simp: checkout_def activate_def Let_def upd_conn_def upd_task_def GetNowInUsecs_def fh_agree_update
          split: prod.splits)
  qed
qed

lemma release_file:
  assumes "\<And>w. file (snd (e_now E w)) = file w"
  shows "file (world (ReleaseSmbConnection E h p reuse S)) = file (world S)"
  using assms by (auto simp: ReleaseSmbConnection_def Let_def upd_conn_def upd_task_def GetNowInUsecs_def
      split: option.splits prod.splits) (metis snd_conv)

subsection \<open>Properties\<close>

text \<open>A client that asks for a range of a file gets the bytes of that range: the handler returns,
  and a response without an error carries exactly the requested bytes of the file, as the server holds
  them when the handler ends. This holds for every size below \<open>2 ^ 32\<close>.\<close>

theorem FetchFileData_returns_range:
  assumes "pool_ok E S" "handles_agree S" "0 \<le> ffd_offset arg" "0 < ffd_size arg" "ffd_size arg < 2 ^ 32"
    "ffd_offset arg + ffd_size arg < 2 ^ 64"
    "fetch_contract E file (root_dir (ffd_header arg) @ ffd_file_path arg) smb_path"
    "\<And>hp p e S1. GetOrCreateSmbConnection E (ffd_header arg) hp (-1) 0 S = ((Some p, e), S1) \<Longrightarrow>
       0 < max_read_size (conn_context (conns S1 p))"
  shows "\<exists>r T. SmbProxyFetchFileData E arg S = Some (r, T) \<and>
    (ffd_error r = None \<longrightarrow>
       ffd_data r = Some (take (nat (ffd_size arg)) (drop (nat (ffd_offset arg)) (file (world T) smb_path))) \<and>
       nat (ffd_offset arg) + nat (ffd_size arg) \<le> length (file (world T) smb_path))"
proof (cases "Ok (ValidateSmbProxyBaseArg (ffd_header arg))")
  case False
  then show ?thesis by (auto simp: SmbProxyFetchFileData_def Let_def)
next
  case True
  let ?path = "root_dir (ffd_header arg) @ ffd_file_path arg"
  let ?hp = "if ffd_cache_handle arg then ?path else []"
  let ?req = "word_of_int (ffd_size arg) :: uint32"
  have req: "uint ?req = ffd_size arg" "unat ?req = nat (ffd_size arg)"
    using assms(4,5) by (simp_all add: uint_word_of_int unat_eq_nat_uint)
  obtain po e S1 where g: "GetOrCreateSmbConnection E (ffd_header arg) ?hp (-1) 0 S = ((po, e), S1)" by (rule pair_fstE)
  then have a: "acquire E (ffd_header arg) ?hp (-1) 0 S = Some ((po, e), S1)"
    using take_connection_facts(3)[OF assms(1) g] by (simp add: acquire_def)
  show ?thesis
  proof (cases po)
    case None
    with True a assms(4) show ?thesis by (auto simp: SmbProxyFetchFileData_def Let_def)
  next
    case (Some p)
    note g = g[unfolded Some]
    have c: "read_contract E p file" "fixed_path E p ?path smb_path" "\<And>w. file (snd (e_now E w)) = file w"
      using assms(7) by (auto simp: fetch_contract_def)
    let ?F = "drop (nat (ffd_offset arg)) (file (world S1) smb_path)"
    obtain error n buf T where r:
      "read_all E ?path p (ffd_offset arg) (ffd_cache_handle arg) ?req (max_read_size (conn_context (conns S1 p)))
         ?req 0 [] S1 = Some ((error, n, buf), T)" "file (world T) = file (world S1)"
      "Ok error \<longrightarrow> buf = take (unat ?req) ?F \<and> length buf = unat ?req"
      using read_all_post[OF c(1,2) assms(8)[OF g] assms(3) _ take_handles[OF assms(1,2) g] refl,
          of ?req "[]" 0 ?req "ffd_cache_handle arg"] assms(6) req
      by (fastforce elim!: prefixE)
    have "nat (ffd_offset arg) + nat (ffd_size arg) \<le> length (file (world T) smb_path)"
      if "buf = take (unat ?req) ?F \<and> length buf = unat ?req"
      using that r(2) req assms(4) by (auto simp: min_def split: if_splits)
    moreover have "file (world (ReleaseSmbConnection E h p reuse S)) = file (world S)" for h reuse S
      by (rule release_file) (rule c(3))
    ultimately show ?thesis using True a Some assms(4) r req
      by (auto simp: SmbProxyFetchFileData_def Let_def)
  qed
qed

definition sample_fetch_arg :: SmbProxyFetchFileDataArg where
  "sample_fetch_arg =
     \<lparr>ffd_header = sample_arg, ffd_file_path = ''/f'', ffd_offset = 6, ffd_size = 4, ffd_cache_handle = True\<rparr>"

theorem FetchFileData_returns_range_witness:
  "\<exists>r T. SmbProxyFetchFileData sample_env sample_fetch_arg (proxy_init sample_world) = Some (r, T) \<and>
     ffd_error r = None \<and> ffd_data r = Some ''worl''"
proof -
  have v: "map_option fst (SmbProxyFetchFileData sample_env sample_fetch_arg (proxy_init sample_world)) =
      Some \<lparr>ffd_error = None, ffd_data = Some ''worl''\<rparr>" by code_simp
  have mx: "0 < max_read_size (conn_context (conns S1 p))"
    if g: "GetOrCreateSmbConnection sample_env (ffd_header sample_fetch_arg) hp (-1) 0 (proxy_init sample_world) = ((Some p, e), S1)"
    for hp p e S1
  proof -
    have "GetOrCreateSmbConnection sample_env sample_arg hp (-1) 0 (proxy_init sample_world) =
        GetOrCreate sample_env sample_arg (proxy_init sample_world)"
      by (simp add: GetOrCreateSmbConnection_def find_task_def checkout_def proxy_init_def GetNowInUsecs_def
          upd_task_def new_TaskCacheEntry_def Let_def split: prod.split)
    with g have "(Some p, conns S1) = (\<lambda>((po, _), T). (po, conns T)) (GetOrCreate sample_env sample_arg (proxy_init sample_world))"
      by (auto simp: sample_fetch_arg_def)
    moreover have "(\<lambda>((po, _), T). case po of None \<Rightarrow> True | Some p \<Rightarrow> 0 < max_read_size (conn_context (conns T p)))
        (GetOrCreate sample_env sample_arg (proxy_init sample_world))" by code_simp
    ultimately show ?thesis by (auto split: prod.splits)
  qed
  have "fetch_contract sample_env sample_file (root_dir (ffd_header sample_fetch_arg) @ ffd_file_path sample_fetch_arg)
      [bslash, CHR ''f'']"
    using sample_read_contract sample_fixed_path
    by (auto simp: fetch_contract_def sample_fetch_arg_def sample_arg_def sample_file_def sample_env_def)
  from FetchFileData_returns_range[OF pool_ok_init _ _ _ _ _ this mx] v show ?thesis
    by (auto simp: sample_fetch_arg_def handles_agree_def proxy_init_def)
qed

end
