(* ===== verification/World_View.thy ===== *)
theory World_View
  imports State_Invariants
begin

text \<open>
  What connecting, disconnecting and listing leave alone. A view of the world, such as the contents of all
  files or the set of all objects on the server, that the calls of the wrapper for these purposes do not change
  is not changed by the operations of the proxy built on them either.
\<close>

subsection \<open>Views of the world\<close>

definition pool_quiet :: "'w smb_env \<Rightarrow> ('w \<Rightarrow> 'v) \<Rightarrow> bool" where
  "pool_quiet E view \<longleftrightarrow>
     (\<forall>w. view (snd (e_now E w)) = view w) \<and> (\<forall>h w. view (snd (e_getaddrinfo E h w)) = view w) \<and>
     (\<forall>a b c d e p s. view (snd (snd (e_create_connection E a b c d e p s))) = view (snd s)) \<and>
     (\<forall>p s. view (snd (snd (e_shutdown_connection E p s))) = view (snd s)) \<and>
     (\<forall>f p s. view (snd (snd (e_close_fnum E f p s))) = view (snd s))"

lemma pool_quietD:
  assumes "pool_quiet E view"
  shows "view (snd (e_now E w)) = view w" "view (snd (e_getaddrinfo E h w)) = view w"
    "view (snd (snd (e_create_connection E a b c d e p s))) = view (snd s)"
    "view (snd (snd (e_shutdown_connection E p s))) = view (snd s)" "view (snd (snd (e_close_fnum E f p s))) = view (snd s)"
  using assms unfolding pool_quiet_def by (simp_all del: split_paired_All)

definition list_quiet :: "'w smb_env \<Rightarrow> ('w \<Rightarrow> 'v) \<Rightarrow> bool" where
  "list_quiet E view \<longleftrightarrow>
     pool_quiet E view \<and> (\<forall>sz w. view (snd (e_talloc E sz w)) = view w) \<and> (\<forall>m w. view (e_free E m w) = view w) \<and>
     (\<forall>x f p s. view (snd (snd (e_list_dir E x f p s))) = view (snd s)) \<and>
     (\<forall>x f p s. view (snd (snd (e_list_dirplus E x f p s))) = view (snd s)) \<and>
     (\<forall>x p s. view (snd (snd (e_get_metadata E x p s))) = view (snd s)) \<and>
     (\<forall>x p s. view (snd (snd (e_read_symlink E x p s))) = view (snd s))"

lemma list_quietD:
  assumes "list_quiet E view"
  shows "pool_quiet E view" "view (snd (e_talloc E sz w)) = view w" "view (e_free E m w) = view w"
    "view (snd (snd (e_list_dir E x f p s))) = view (snd s)" "view (snd (snd (e_list_dirplus E x f p s))) = view (snd s)"
    "view (snd (snd (e_get_metadata E x p s))) = view (snd s)" "view (snd (snd (e_read_symlink E x p s))) = view (snd s)"
  using assms unfolding list_quiet_def by (simp_all del: split_paired_All)

text \<open>Updates of the proxy's own state.\<close>

lemma world_upd [simp]: "world (upd_conn p f S) = world S" "world (upd_task t g S) = world S"
  by (simp_all add: upd_conn_def upd_task_def)

lemma on_conn_view:
  assumes "on_conn p f S = (r, T)" "\<And>s. view (snd (snd (f s))) = view (snd s)"
  shows "view (world T) = view (world S)"
  using assms(2)[of "sess_of p S"] on_conn_world[OF assms(1)] by (simp add: sess_of_def)

lemma now_view: "pool_quiet E view \<Longrightarrow> GetNowInUsecs E S = (t, T) \<Longrightarrow> view (world T) = view (world S)"
  by (auto simp: GetNowInUsecs_def split: prod.splits dest!: pool_quietD(1)[where w = "world S"])

subsection \<open>The pool\<close>

lemma find_task_view: "pool_quiet E view \<Longrightarrow> find_task E h S = (t, T) \<Longrightarrow> view (world T) = view (world S)"
  by (auto simp: find_task_def Let_def split: prod.splits option.splits dest!: now_view)

lemma try_addresses_view:
  assumes "pool_quiet E view"
  shows "try_addresses E p (\<lambda>ip. e_create_connection E ip b c d e) as r0 s = (r, s') \<Longrightarrow> view (snd s') = view (snd s)"
proof (induction as arbitrary: r0 s)
  case (Cons a as)
  show ?case
  proof (cases "a = AF_OTHER \<or> e_inet_ntop E a = None")
    case True
    with Cons.prems Cons.IH[of r0 s] show ?thesis by (auto split: if_splits)
  next
    case False
    then obtain ip where ip: "e_inet_ntop E a = Some ip" by auto
    obtain q t where c: "e_create_connection E ip b c d e p s = (q, t)" by (rule prod.exhaust)
    with pool_quietD(3)[OF assms, of ip b c d e p s] have t: "view (snd t) = view (snd s)" by simp
    with Cons.prems False ip c Cons.IH[of _ t] show ?thesis by (auto split: if_splits)
  qed
qed simp

lemma resolve_view:
  assumes "pool_quiet E view" "CreateSmbConnectionByResolvingHostname E p h b c d e s = (r, s')"
  shows "view (snd s') = view (snd s)"
  using assms(2) pool_quietD(2)[OF assms(1), of h "snd s"]
  by (auto simp: CreateSmbConnectionByResolvingHostname_def split: if_splits prod.splits option.splits
      dest!: try_addresses_view[OF assms(1)])

lemma connect_loop_view:
  assumes "pool_quiet E view"
  shows "connect_loop E p arg isIp n r0 s = (r, s') \<Longrightarrow> view (snd s') = view (snd s)"
proof (induction n arbitrary: r0 s)
  case (Suc n)
  show ?case
  proof (cases "r0 = -1")
    case True
    obtain r1 s1 where h: "(if isIp then (-1, s) else CreateSmbConnectionByResolvingHostname E p (server arg) (drop 1 (share arg))
        (username arg) (password arg) (domain_name arg) s) = (r1, s1)" by (rule prod.exhaust)
    then have h1: "view (snd s1) = view (snd s)" by (auto split: if_splits dest!: resolve_view[OF assms])
    obtain r2 s2 where c: "(if r1 = -1 then e_create_connection E (server arg) (drop 1 (share arg)) (username arg)
        (password arg) (domain_name arg) p s1 else (r1, s1)) = (r2, s2)" by (rule prod.exhaust)
    have c1: "view (snd s2) = view (snd s1)"
      using c pool_quietD(3)[OF assms, of "server arg" "drop 1 (share arg)" "username arg" "password arg"
          "domain_name arg" p s1] by (auto split: if_splits)
    from Suc.prems True h c have "connect_loop E p arg isIp n r2 s2 = (r, s')" by simp
    from Suc.IH[OF this] h1 c1 show ?thesis by simp
  qed (use Suc.prems in auto)
qed auto

lemma create_connection_view:
  assumes "pool_quiet E view" "create_connection E h t S = (r, T)"
  shows "view (world T) = view (world S)"
proof -
  let ?S = "S\<lparr>conns := (conns S)(conn_next S := new_SmbConnection E), conn_next := Suc (conn_next S)\<rparr>"
  obtain ret U where c: "on_conn (conn_next S) (connect_loop E (conn_next S) h (IsIpAddress E (server h))
      (nat (smb_proxy_create_connection_retry_count (e_flags E))) (-1)) ?S = (ret, U)" by (rule prod.exhaust)
  have "view (world U) = view (world S)"
    using connect_loop_view[OF assms(1) on_conn_world[OF c]] by (simp add: sess_of_def)
  with assms c show ?thesis
    by (auto simp: create_connection_def Let_def split: if_splits prod.splits dest!: now_view[OF assms(1)])
qed

lemma close_handles_view:
  assumes "pool_quiet E view"
  shows "view (world (close_handles E p fs S)) = view (world S)"
proof (induction fs arbitrary: S)
  case (Cons f fs)
  obtain r T where "on_conn p (e_close_fnum E f p) S = (r, T)" by (rule prod.exhaust)
  with Cons.IH on_conn_view[OF this pool_quietD(5)[OF assms]] show ?case by simp
qed simp

lemma shutdown_view:
  assumes "pool_quiet E view"
  shows "view (world (ShutdownSmbConnection E p S)) = view (world S)"
proof -
  have "view (world (snd (on_conn p (e_shutdown_connection E p) U))) = view (world U)" for U
  proof -
    obtain r T where "on_conn p (e_shutdown_connection E p) U = (r, T)" by (rule prod.exhaust)
    with on_conn_view[OF this pool_quietD(4)[OF assms]] show ?thesis by simp
  qed
  then show ?thesis
    by (simp add: ShutdownSmbConnection_def Let_def close_handles_view[OF assms] del: close_handles.simps)
qed

lemma checkout_view:
  assumes "pool_quiet E view" "checkout E h hp ct cf t S = (r, T)"
  shows "view (world T) = view (world S)"
  using assms(2)
  by (auto simp: checkout_def activate_def Let_def shutdown_view[OF assms(1)] split: prod.splits option.splits if_splits
      dest!: now_view[OF assms(1)] create_connection_view[OF assms(1)])

lemma take_view:
  assumes "pool_quiet E view" "GetOrCreateSmbConnection E h hp ct cf S = (r, T)"
  shows "view (world T) = view (world S)"
  using assms(2)
  by (auto simp: GetOrCreateSmbConnection_def split: prod.splits dest!: find_task_view[OF assms(1)] checkout_view[OF assms(1)])

lemma acquire_view:
  assumes "pool_quiet E view" "acquire E h hp ct cf S = Some (r, T)"
  shows "view (world T) = view (world S)"
  using assms(2) by (auto simp: acquire_def split: prod.splits if_splits dest!: take_view[OF assms(1)])

lemma release_view:
  assumes "pool_quiet E view"
  shows "view (world (ReleaseSmbConnection E h p reuse S)) = view (world S)"
  by (auto simp: ReleaseSmbConnection_def Let_def split: option.splits prod.splits dest!: now_view[OF assms])

lemma discard_view:
  assumes "pool_quiet E view"
  shows "view (world (discard_connection E h p S)) = view (world S)"
  by (simp add: discard_connection_def release_view[OF assms] shutdown_view[OF assms])

lemma access_time_view:
  assumes "pool_quiet E view"
  shows "view (world (UpdateTaskAccessTime E key S)) = view (world S)"
  by (auto simp: UpdateTaskAccessTime_def split: option.split prod.split dest!: now_view[OF assms])

end
