(* ===== verification/File_Service.thy ===== *)
theory File_Service
  imports World_View
begin

text \<open>
  The proxy as a file service: requests that read and write file data, served one after the other, behave
  like a map from paths to contents. The theory states what the SMB server promises
  (\<open>server_contract\<close>), the condition on the proxy that every such request re-establishes
  (\<open>serving_ok\<close>), the abstract service (\<open>file_step\<close>), and shows that the handlers refine it.
\<close>

subsection \<open>What the server promises\<close>

definition sizes_ok :: "smbc_wrapper_context \<Rightarrow> bool" where
  "sizes_ok c \<longleftrightarrow> 0 < max_read_size c \<and> 0 < max_write_size c"

definition keeps_sizes :: "('w sess \<Rightarrow> 'r \<times> 'w sess) \<Rightarrow> bool" where
  "keeps_sizes f \<longleftrightarrow> (\<forall>s. sizes_ok (fst s) \<longrightarrow> sizes_ok (fst (snd (f s))))"

text \<open>Data calls as in \<open>File_Read\<close> and \<open>File_Write\<close>. The clock, the resolver, connecting and disconnecting
  change no file; a connection that was made reports maximal sizes above zero, and keeps them.\<close>

definition server_contract :: "'w smb_env \<Rightarrow> ('w \<Rightarrow> string \<Rightarrow> string) \<Rightarrow> (string \<Rightarrow> string) \<Rightarrow> bool" where
  "server_contract E file sp \<longleftrightarrow>
     (\<forall>p. write_contract E p file) \<and> (\<forall>p path. fixed_path E p path (sp path)) \<and> pool_quiet E file \<and>
     (\<forall>a b c d e p s. fst (e_create_connection E a b c d e p s) \<noteq> -1 \<longrightarrow>
        sizes_ok (fst (snd (e_create_connection E a b c d e p s)))) \<and>
     (\<forall>path off sz fn t p. keeps_sizes (e_fetch_file_data E path off sz fn t p)) \<and>
     (\<forall>path off sz d fn t p. keeps_sizes (e_write_file_data E path off sz d fn t p)) \<and>
     (\<forall>f p. keeps_sizes (e_close_fnum E f p))"

lemma server_contractD:
  assumes "server_contract E file sp"
  shows "write_contract E p file" "fixed_path E p path (sp path)" "pool_quiet E file"
    "fst (e_create_connection E a b c d e p s) \<noteq> -1 \<Longrightarrow> sizes_ok (fst (snd (e_create_connection E a b c d e p s)))"
    "keeps_sizes (e_fetch_file_data E path off sz fn t p)" "keeps_sizes (e_write_file_data E path off sz x fn t p)"
    "keeps_sizes (e_close_fnum E f p)"
  using assms unfolding server_contract_def by (simp_all del: split_paired_All)

subsection \<open>Connecting\<close>

lemma try_addresses_sizes:
  assumes "server_contract E file sp"
  shows "try_addresses E p (\<lambda>ip. e_create_connection E ip b c d e) as (-1) s = (r, s') \<Longrightarrow> r \<noteq> -1 \<Longrightarrow> sizes_ok (fst s')"
proof (induction as arbitrary: s)
  case (Cons a as)
  show ?case
  proof (cases "a = AF_OTHER \<or> e_inet_ntop E a = None")
    case True
    with Cons.prems Cons.IH[of s] show ?thesis by (auto split: if_splits)
  next
    case False
    then obtain ip where ip: "e_inet_ntop E a = Some ip" by auto
    obtain q t where c: "e_create_connection E ip b c d e p s = (q, t)" by (rule prod.exhaust)
    then have "q \<noteq> -1 \<Longrightarrow> sizes_ok (fst t)" using server_contractD(4)[OF assms, of ip b c d e p s] by simp
    with Cons.prems False ip c Cons.IH[of t] show ?thesis by (cases "q = -1") simp_all
  qed
qed simp

lemma connect_loop_sizes:
  assumes "server_contract E file sp"
  shows "connect_loop E p arg isIp n r0 s = (r, s') \<Longrightarrow> (r0 \<noteq> -1 \<longrightarrow> sizes_ok (fst s)) \<Longrightarrow> r \<noteq> -1 \<longrightarrow> sizes_ok (fst s')"
proof (induction n arbitrary: r0 s)
  case (Suc n)
  show ?case
  proof (cases "r0 = -1")
    case True
    obtain r1 s1 where h: "(if isIp then (-1, s) else CreateSmbConnectionByResolvingHostname E p (server arg) (drop 1 (share arg))
        (username arg) (password arg) (domain_name arg) s) = (r1, s1)" by (rule prod.exhaust)
    then have h1: "r1 \<noteq> -1 \<longrightarrow> sizes_ok (fst s1)"
      by (auto simp: CreateSmbConnectionByResolvingHostname_def split: if_splits prod.splits option.splits
          dest!: try_addresses_sizes[OF assms])
    obtain r2 s2 where c: "(if r1 = -1 then e_create_connection E (server arg) (drop 1 (share arg)) (username arg)
        (password arg) (domain_name arg) p s1 else (r1, s1)) = (r2, s2)" by (rule prod.exhaust)
    have c1: "r2 \<noteq> -1 \<longrightarrow> sizes_ok (fst s2)"
      using c h1 server_contractD(4)[OF assms, of "server arg" "drop 1 (share arg)" "username arg" "password arg"
          "domain_name arg" p s1] by (auto split: if_splits)
    from Suc.prems True h c have "connect_loop E p arg isIp n r2 s2 = (r, s')" by simp
    from Suc.IH[OF this c1] show ?thesis .
  qed (use Suc.prems in auto)
qed auto

subsection \<open>Taking and giving back a connection\<close>

definition sized :: "addr \<Rightarrow> 'w proxy \<Rightarrow> bool" where
  "sized p S \<longleftrightarrow> sizes_ok (conn_context (conns S p))"

definition serving_ok :: "'w smb_env \<Rightarrow> 'w proxy \<Rightarrow> bool" where
  "serving_ok E S \<longleftrightarrow> pool_ok E S \<and> handles_bounded E S \<and> (\<forall>q\<in>idle_conns S. sized q S)"

lemma create_connection_sized:
  assumes "server_contract E file sp" "create_connection E h t S = ((Some p, e), T)"
  shows "sized p T"
proof -
  let ?S = "S\<lparr>conns := (conns S)(conn_next S := new_SmbConnection E), conn_next := Suc (conn_next S)\<rparr>"
  obtain ret U where c: "on_conn (conn_next S) (connect_loop E (conn_next S) h (IsIpAddress E (server h))
      (nat (smb_proxy_create_connection_retry_count (e_flags E))) (-1)) ?S = (ret, U)" by (rule prod.exhaust)
  have "ret \<noteq> -1 \<longrightarrow> sizes_ok (conn_context (conns U (conn_next S)))"
    using connect_loop_sizes[OF assms(1) on_conn_world[OF c]] by (simp add: sess_of_def)
  with assms c show ?thesis
    by (auto simp: create_connection_def sized_def upd_conn_def upd_task_def GetNowInUsecs_def Let_def split: if_splits prod.splits)
qed

lemma find_task_idle:
  assumes ok: "pool_ok E S" and t: "find_task E h S = (t, S1)"
  shows "idle_conns S1 \<subseteq> idle_conns S"
proof
  fix q
  assume q: "q \<in> idle_conns S1"
  note F = find_task_facts[OF ok t]
  obtain k u where u: "(k, u) \<in> set (task_cache_map S1)" "q \<in> set (inactive_connection_list (tasks S1 u))"
    using q by (auto simp: idle_conns_def)
  obtain k' u' where u': "(k', u') \<in> set (task_cache_map S)" "q \<in> set (task_conns (tasks S u'))"
    using idle_in_pool[OF q] unfolding F(5) by (auto simp: pool_conns_def)
  have m: "map_of (task_cache_map S) k' = Some u'" using pool_okD(1)[OF ok] u'(1) by simp
  note F7 = F(7)[OF m]
  have "u = u'"
    using pool_disjoint[OF F(1) u(1) live_task[OF F7[THEN conjunct1]], of q] u(2) u'(2) F7 by (auto simp: task_conns_def)
  with u(2) u'(1) F7 show "q \<in> idle_conns S" by (force simp: idle_conns_def)
qed

lemma checkout_origin:
  assumes "checkout E h hp (-1) cf t S = ((po, e), T)"
  shows "create_connection E h t S = ((po, e), T) \<or>
    (\<exists>p. po = Some p \<and> p \<in> set (inactive_connection_list (tasks S t)) \<and> conn_context (conns T p) = conn_context (conns S p))"
proof (cases "inactive_connection_list (tasks S t) = []")
  case True
  with assms show ?thesis by (simp add: checkout_def)
next
  case False
  obtain r rest where pr: "pick_inactive S hp (inactive_connection_list (tasks S t)) = (r, rest)" by (rule prod.exhaust)
  with assms False have "po = Some r" "conn_context (conns T r) = conn_context (conns S r)"
    by (auto simp: checkout_def activate_def upd_conn_def upd_task_def GetNowInUsecs_def Let_def split: prod.splits)
  moreover obtain us vs where "inactive_connection_list (tasks S t) = us @ r # vs"
    by (rule pick_inactive_split[OF False pr])
  ultimately show ?thesis by simp
qed

lemma take_file:
  assumes C: "server_contract E file sp" and ok: "serving_ok E S"
    and g: "GetOrCreateSmbConnection E h hp (-1) cf S = ((po, e), T)"
  shows "file (world T) = file (world S)" "po = Some p \<Longrightarrow> sized p T" "q \<in> idle_conns T \<Longrightarrow> sized q T"
    "po = Some p \<Longrightarrow> p \<notin> idle_conns T"
proof -
  have pool: "pool_ok E S" using ok by (simp add: serving_ok_def)
  obtain t S1 where t: "find_task E h S = (t, S1)" by (rule prod.exhaust)
  note F = find_task_facts[OF pool t]
  have c: "checkout E h hp (-1) cf t S1 = ((po, e), T)" using g t by (simp add: GetOrCreateSmbConnection_def)
  note K = checkout_facts[OF F(1) live_task[OF F(2)] c]
  have old: "sized q S1" "q < conn_next S1" if "q \<in> idle_conns S1" for q
    using that find_task_idle[OF pool t] ok F(3) pool_okD(5)[OF F(1) idle_in_pool] by (auto simp: sized_def serving_ok_def)
  show "file (world T) = file (world S)" by (rule take_view[OF server_contractD(3)[OF C] g])
  show "sized p T" if po: "po = Some p"
    using checkout_origin[OF c] po old(1)[of p] create_connection_sized[OF C, of h t S1 p e T] live_task[OF F(2)]
    by (force simp: sized_def idle_conns_def)
  show p: "p \<notin> idle_conns T" if "po = Some p" for p
    using take_connection_facts(5)[OF pool g that] pool_usable_not_idle[OF take_connection_facts(1)[OF pool g], of "(h, [])" p]
    by (simp add: pool_usable_def)
  show "sized q T" if q: "q \<in> idle_conns T"
  proof -
    have "set (inactive_connection_list (tasks T u)) \<subseteq> set (inactive_connection_list (tasks S1 u))" for u
      using K by (cases "u = t") (auto simp: came_from_def)
    with q K have i: "q \<in> idle_conns S1" by (fastforce simp: idle_conns_def)
    have "po \<noteq> Some q" using p q by blast
    with K old[OF i] show ?thesis by (auto simp: sized_def)
  qed
qed

lemma release_idle:
  assumes "q \<in> idle_conns (ReleaseSmbConnection E h p reuse S)"
  shows "q \<in> idle_conns S \<or> reuse \<and> q = p"
proof -
  note R = Release_shape(1,4)[where E = E and arg = h and p = p and reuse = reuse and S = S, OF refl]
  have i: "q \<in> set (inactive_connection_list (tasks S u)) \<or> reuse \<and> q = p"
    if "q \<in> set (inactive_connection_list (tasks (ReleaseSmbConnection E h p reuse S) u))" for u
    using that unfolding R(2) by (auto simp: released_def split: option.splits if_splits)
  obtain k u where "(k, u) \<in> set (task_cache_map S)"
    "q \<in> set (inactive_connection_list (tasks (ReleaseSmbConnection E h p reuse S) u))"
    using assms by (auto simp: idle_conns_def R(1))
  with i show ?thesis by (force simp: idle_conns_def)
qed

lemma release_conn_context: "conn_context (conns (ReleaseSmbConnection E h p reuse S) q) = conn_context (conns S q)"
  by (auto simp: ReleaseSmbConnection_def Let_def upd_conn_def upd_task_def GetNowInUsecs_def split: option.splits prod.splits)

text \<open>After the work on a connection it is given back, or shut down and dropped.\<close>

lemma give_back:
  assumes C: "server_contract E file sp" and idle: "\<forall>q\<in>idle_conns S. sized q S" and p: "p \<notin> idle_conns S"
    and w: "transfers p S T" and s: "sized p T"
  shows "file (world (ReleaseSmbConnection E h p True T)) = file (world T)"
    "file (world (discard_connection E h p T)) = file (world T)"
    "q \<in> idle_conns (ReleaseSmbConnection E h p True T) \<Longrightarrow> sized q (ReleaseSmbConnection E h p True T)"
    "q \<in> idle_conns (discard_connection E h p T) \<Longrightarrow> sized q (discard_connection E h p T)"
proof -
  have ho: "handles_only p S T" using w by (simp add: transfers_def)
  then have i: "idle_conns T = idle_conns S" "\<forall>q. q \<noteq> p \<longrightarrow> conns T q = conns S q"
    using quietD(1,2)[of S T] by (auto simp: handles_only_def idle_conns_def)
  let ?U = "ShutdownSmbConnection E p T"
  have u: "idle_conns ?U = idle_conns T" "\<forall>q. q \<noteq> p \<longrightarrow> conns ?U q = conns T q"
    using quietD(1,2)[OF quiet_shutdown[of T E p]] shutdown_other by (auto simp: idle_conns_def)
  show "file (world (ReleaseSmbConnection E h p True T)) = file (world T)" by (rule release_view[OF server_contractD(3)[OF C]])
  show "file (world (discard_connection E h p T)) = file (world T)"
    by (rule discard_view[OF server_contractD(3)[OF C]])
  show "sized q (ReleaseSmbConnection E h p True T)" if "q \<in> idle_conns (ReleaseSmbConnection E h p True T)"
    using release_idle[OF that] i idle s p by (cases "q = p") (auto simp: sized_def release_conn_context)
  show "sized q (discard_connection E h p T)" if "q \<in> idle_conns (discard_connection E h p T)"
  proof -
    have "q \<in> idle_conns S" using release_idle[of q E h p False ?U] that u i by (simp add: discard_connection_def)
    with p idle u i show ?thesis by (cases "q = p") (auto simp: sized_def release_conn_context discard_connection_def)
  qed
qed


subsection \<open>The sizes of a connection while it is used\<close>

lemma sized_on_conn: "on_conn p f S = (r, T) \<Longrightarrow> keeps_sizes f \<Longrightarrow> sized p S \<longrightarrow> sized p T"
  using on_conn_world[of p f S r T] unfolding keeps_sizes_def sized_def sess_of_def by (metis fst_conv snd_conv)

lemma sized_world [simp]: "sized p (S\<lparr>world := w\<rparr>) = sized p S"
  by (simp add: sized_def)

lemma sized_upd [simp]: "(\<And>c. conn_context (f c) = conn_context c) \<Longrightarrow> sized p (upd_conn q f S) = sized p S"
  by (simp add: sized_def upd_conn_def)

lemma pop_context [simp]: "conn_context (pop_handle c) = conn_context c"
  by (simp add: pop_handle_def)

lemma push_context [simp]: "conn_context (push_handle path fnum c) = conn_context c"
  by (simp add: push_handle_def Let_def)

lemma sized_evict:
  assumes "server_contract E file sp"
  shows "evict_handles E p n S = Some T \<Longrightarrow> sized p S \<longrightarrow> sized p T"
proof (induction n arbitrary: S)
  case (Suc n)
  let ?h = "snd (hd (fh_lru_list (conns S p)))"
  obtain r U where U: "on_conn p (e_close_fnum E (fh_fnum ?h) p) S = (r, U)" by (rule prod.exhaust)
  from Suc.prems Suc.IH[of "upd_conn p pop_handle U"] sized_on_conn[OF U server_contractD(7)[OF assms]]
  show ?case by (auto simp: U abort_simps split: if_splits)
qed simp

lemma sized_keep_handle:
  assumes "server_contract E file sp"
  shows "keep_handle E path v fnum p S = Some T \<Longrightarrow> sized p S \<longrightarrow> sized p T"
  by (auto simp: keep_handle_def UpdateFileHandle_def Let_def split: option.splits if_splits dest!: sized_evict[OF assms])

lemma sized_read_once:
  assumes "server_contract E file sp"
  shows "read_once E path q p off sz pos fnum buf S = Some (r, T) \<Longrightarrow> sized p S \<longrightarrow> sized p T"
  by (auto simp: read_once_def Let_def split: prod.splits option.splits if_splits bind_splits
      dest!: sized_on_conn[OF _ server_contractD(5)[OF assms]])

lemma sized_read_loop:
  assumes "server_contract E file sp"
  shows "read_loop E path q p off sz pos n fnum buf S = Some (r, T) \<Longrightarrow> sized p S \<longrightarrow> sized p T"
  by (induction n arbitrary: fnum buf S) (fastforce split: prod.splits if_splits bind_splits dest!: sized_read_once[OF assms])+

lemma sized_read_bytes:
  assumes "server_contract E file sp"
  shows "ReadBytesFromOffset E path p off sz buf boff cache S = Some (r, T) \<Longrightarrow> sized p S \<longrightarrow> sized p T"
  by (auto simp: ReadBytesFromOffset_def split: prod.splits bind_splits
      dest!: sized_read_loop[OF assms] sized_keep_handle[OF assms])

lemma sized_read_all_all:
  assumes C: "server_contract E file sp"
  shows "\<forall>E' path p off cache requested mx todo got buf S y.
     read_all E' path p off cache requested mx todo got buf S = Some y \<longrightarrow>
     E' = E \<longrightarrow> sized p S \<longrightarrow> sized p (snd y)"
proof (rule read_all.fixp_induct, goal_cases)
  case 1
  show ?case unfolding curry_def by (intro admissible_all admissible_point)
next
  case (3 f)
  from 3 show ?case by (fastforce split: if_splits bind_splits dest!: sized_read_bytes[OF C])
qed simp

lemma sized_read_all:
  assumes "server_contract E file sp"
  shows "read_all E path p off cache requested mx todo got buf S = Some (r, T) \<Longrightarrow>
   sized p S \<longrightarrow> sized p T"
  using sized_read_all_all[OF assms] by fastforce

lemma sized_write_once:
  assumes "server_contract E file sp"
  shows "write_once E path q p off sz x fnum error S = Some (r, T) \<Longrightarrow> sized p S \<longrightarrow> sized p T"
  by (auto simp: write_once_def Let_def split: prod.splits if_splits
      dest!: sized_on_conn[OF _ server_contractD(6)[OF assms]])

lemma sized_write_loop:
  assumes "server_contract E file sp"
  shows "write_loop E path q p off sz x n fnum error S = Some (r, T) \<Longrightarrow> sized p S \<longrightarrow> sized p T"
  by (induction n arbitrary: fnum error S) (fastforce split: prod.splits if_splits bind_splits dest!: sized_write_once[OF assms])+

lemma sized_write_bytes:
  assumes "server_contract E file sp"
  shows "WriteBytesToOffset E path p off sz x cache S = Some (r, T) \<Longrightarrow> sized p S \<longrightarrow> sized p T"
  by (auto simp: WriteBytesToOffset_def split: prod.splits bind_splits
      dest!: sized_write_loop[OF assms] sized_keep_handle[OF assms])

lemma sized_write_all_all:
  assumes C: "server_contract E file sp"
  shows "\<forall>E' path p x off cache requested mx todo got S y.
     write_all E' path p x off cache requested mx todo got S = Some y \<longrightarrow>
     E' = E \<longrightarrow> sized p S \<longrightarrow> sized p (snd y)"
proof (rule write_all.fixp_induct, goal_cases)
  case 1
  show ?case unfolding curry_def by (intro admissible_all admissible_point)
next
  case (3 f)
  from 3 show ?case by (fastforce split: if_splits bind_splits dest!: sized_write_bytes[OF C])
qed simp

lemma sized_write_helper:
  assumes "server_contract E file sp"
  shows "WriteFileDataHelper E path p x sz off cache stub S = Some (r, T) \<Longrightarrow>
   sized p S \<longrightarrow> sized p T"
  using sized_write_all_all[OF assms] by (fastforce simp: WriteFileDataHelper_def Let_def split: bind_splits)

subsection \<open>The requests\<close>

definition all_sized :: "'w proxy \<Rightarrow> bool" where
  "all_sized S \<longleftrightarrow> (\<forall>q\<in>idle_conns S. sized q S)"

text \<open>Taking a connection always returns: with a usable connection, or with an error.\<close>

lemma take_serves:
  assumes C: "server_contract E file sp" and ok: "serving_ok E S"
  obtains (no_connection) e S1 where "acquire E h hp (-1) 0 S = Some ((None, e), S1)" "file (world S1) = file (world S)"
      "all_sized S1" "\<not> Ok e"
    | (connection) p e S1 where "acquire E h hp (-1) 0 S = Some ((Some p, e), S1)" "file (world S1) = file (world S)"
      "all_sized S1" "sized p S1" "p \<notin> idle_conns S1" "fh_agree (conns S1 p)"
proof -
  have pool: "pool_ok E S" and h: "handles_bounded E S" using ok by (simp_all add: serving_ok_def)
  obtain po e S1 where g: "GetOrCreateSmbConnection E h hp (-1) 0 S = ((po, e), S1)" by (rule pair_fstE)
  note K = take_connection_facts[OF pool g] and F = take_file[OF C ok g]
  have a: "acquire E h hp (-1) 0 S = Some ((po, e), S1)" using g K(3) by (simp add: acquire_def)
  have all: "all_sized S1" using F(3) by (simp add: all_sized_def)
  show ?thesis
  proof (cases po)
    case None
    with K(3) show ?thesis by (intro no_connection[OF _ F(1) all]) (simp_all add: a)
  next
    case (Some p)
    have "p < conn_next S1" using K(5)[OF Some] by (simp add: releasable_def)
    with handles.I_take[OF g] h have "fh_agree (conns S1 p)" by (auto simp: handles_bounded_def fh_inv_def)
    with F(2,4)[OF Some] Some show ?thesis by (intro connection[OF _ F(1) all]) (simp_all add: a)
  qed
qed

lemma give_back_all:
  assumes "server_contract E file sp" "all_sized S" "p \<notin> idle_conns S" "transfers p S T" "sized p T"
  shows "all_sized (ReleaseSmbConnection E h p True T)" "all_sized (discard_connection E h p T)"
  using give_back(3,4)[OF assms(1) _ assms(3-5)] assms(2) by (simp_all add: all_sized_def)

text \<open>What a client may ask for: a range that fits the types of the protocol.\<close>

definition fetch_in_range :: "SmbProxyFetchFileDataArg \<Rightarrow> bool" where
  "fetch_in_range a \<longleftrightarrow> 0 \<le> ffd_offset a \<and> ffd_size a < 2 ^ 32 \<and> ffd_offset a + ffd_size a < 2 ^ 64"

definition write_in_range :: "SmbProxyWriteFileDataArg \<Rightarrow> bool" where
  "write_in_range a \<longleftrightarrow> 0 \<le> wfd_offset a \<and> wfd_size a < 2 ^ 32 \<and> wfd_offset a + wfd_size a < 2 ^ 64 \<and>
     wfd_size a \<le> int (length (wfd_data a))"

fun in_range :: "request \<Rightarrow> bool" where
  "in_range (FetchFileDataRpc a) \<longleftrightarrow> fetch_in_range a"
| "in_range (WriteFileDataRpc a) \<longleftrightarrow> write_in_range a"
| "in_range _ \<longleftrightarrow> False"

text \<open>The abstract service: a map from SMB paths to contents. A fetch changes nothing; its answer without an error
  is the range, and with an error at most a prefix of it. A write puts its first \<open>m\<close> bytes at the offset;
  without an error these are all bytes, or, for a stubbed file, all but trailing zeros.\<close>

definition fetch_spec :: "(string \<Rightarrow> string) \<Rightarrow> (string \<Rightarrow> string) \<Rightarrow> SmbProxyFetchFileDataArg \<Rightarrow> SmbProxyFetchFileDataResult \<Rightarrow> bool" where
  "fetch_spec sp F a r \<longleftrightarrow>
     (let c = drop (nat (ffd_offset a)) (F (sp (root_dir (ffd_header a) @ ffd_file_path a)))
      in (ffd_error r = None \<longrightarrow> ffd_data r = Some (take (nat (ffd_size a)) c) \<and> nat (ffd_size a) \<le> length c \<and> 0 < ffd_size a) \<and>
         (\<forall>x. ffd_data r = Some x \<longrightarrow> prefix x c))"

definition write_spec ::
  "(string \<Rightarrow> string) \<Rightarrow> (string \<Rightarrow> string) \<Rightarrow> SmbProxyWriteFileDataArg \<Rightarrow> Error option \<Rightarrow> (string \<Rightarrow> string) \<Rightarrow> bool" where
  "write_spec sp F a e F' \<longleftrightarrow>
     (let path = sp (root_dir (wfd_header a) @ wfd_file_path a); off = nat (wfd_offset a); n = nat (wfd_size a)
      in \<exists>m\<le>n. F' = F(path := written (F path) off (wfd_data a) m) \<and>
           (e = None \<longrightarrow> 0 < m \<and>
              (if wfd_is_stubbed a then \<forall>i. m \<le> i \<and> i < n \<longrightarrow> wfd_data a ! i = CHR 0x00 else m = n)))"

text \<open>The work of a request on a connection that was taken, and the connection given back in either way.\<close>

definition taken :: "'w proxy \<Rightarrow> addr \<Rightarrow> bool" where
  "taken S p \<longleftrightarrow> all_sized S \<and> sized p S \<and> p \<notin> idle_conns S \<and> fh_agree (conns S p)"

definition given_back :: "('w \<Rightarrow> 'v) \<Rightarrow> 'w proxy \<Rightarrow> 'w proxy \<Rightarrow> bool" where
  "given_back file T U \<longleftrightarrow> file (world U) = file (world T) \<and> all_sized U"

lemma given_backI:
  assumes C: "server_contract E file sp" and t: "taken S p" and w: "transfers p S T" and s: "sized p T"
  shows "given_back file T (ReleaseSmbConnection E h p True T)" "given_back file T (discard_connection E h p T)"
  using give_back_all[OF C _ _ w s] t release_view[OF server_contractD(3)[OF C]] discard_view[OF server_contractD(3)[OF C]]
  by (simp_all add: given_back_def taken_def)

lemma fetch_work:
  assumes C: "server_contract E file sp" and t: "taken S p" and a: "fetch_in_range a" "0 < ffd_size a"
  obtains e n b T where "read_all E (root_dir (ffd_header a) @ ffd_file_path a) p (ffd_offset a) (ffd_cache_handle a)
      (word_of_int (ffd_size a)) (max_read_size (conn_context (conns S p))) (word_of_int (ffd_size a)) 0 [] S = Some ((e, n, b), T)"
    "fetch_spec sp (file (world S)) a (if Ok e then \<lparr>ffd_error = None, ffd_data = Some b\<rparr>
       else \<lparr>ffd_error = Some e, ffd_data = if n > 0 then Some b else None\<rparr>)"
    "file (world T) = file (world S)" "transfers p S T" "sized p T"
proof -
  let ?path = "root_dir (ffd_header a) @ ffd_file_path a" and ?req = "word_of_int (ffd_size a) :: uint32"
  have req: "uint ?req = ffd_size a" "unat ?req = nat (ffd_size a)"
    using a by (simp_all add: fetch_in_range_def uint_word_of_int unat_eq_nat_uint)
  have mx: "0 < max_read_size (conn_context (conns S p))" using t by (simp add: taken_def sized_def sizes_ok_def)
  have rc: "read_contract E p file" using server_contractD(1)[OF C] by (simp add: write_contract_def)
  have fh: "fh_agree (conns S p)" using t by (simp add: taken_def)
  obtain e n b T where r: "read_all E ?path p (ffd_offset a) (ffd_cache_handle a) ?req
      (max_read_size (conn_context (conns S p))) ?req 0 [] S = Some ((e, n, b), T)" "transfers p S T"
    "file (world T) = file (world S)" "prefix b (drop (nat (ffd_offset a)) (file (world S) (sp ?path)))"
    "Ok e \<longrightarrow> n = ?req \<and> length b = nat (ffd_size a)"
    using read_all_post[OF rc server_contractD(2)[OF C] mx _ _ fh refl, where off = "ffd_offset a" and req = ?req and buf = "[]"
        and br = 0 and btr = ?req and cache = "ffd_cache_handle a" and path = ?path] a req by (auto simp: fetch_in_range_def)
  have "fetch_spec sp (file (world S)) a (if Ok e then \<lparr>ffd_error = None, ffd_data = Some b\<rparr>
       else \<lparr>ffd_error = Some e, ffd_data = if n > 0 then Some b else None\<rparr>)"
    using r(4,5) a(2) prefix_length_le[OF r(4)] by (auto simp: fetch_spec_def Let_def prefix_def)
  moreover have "sized p T" using sized_read_all[OF C r(1)] t by (simp add: taken_def)
  ultimately show ?thesis using that[OF r(1) _ r(3,2)] by blast
qed

lemma fetch_serves:
  assumes C: "server_contract E file sp" and ok: "serving_ok E S" and a: "fetch_in_range a"
  obtains r T where "SmbProxyFetchFileData E a S = Some (r, T)" "fetch_spec sp (file (world S)) a r"
    "file (world T) = file (world S)" "serving_ok E T"
proof -
  let ?f = "SmbProxyFetchFileData E a S"
  have rest: "serving_ok E T" if "?f = Some (r, T)" "all_sized T" for r T
    using kept_fetch_file[OF that(1)] handles.I_fetch_file[OF that(1)] that(2) ok
    by (simp add: serving_ok_def all_sized_def kept_def)
  show ?thesis
  proof (cases "Ok (ValidateSmbProxyBaseArg (ffd_header a)) \<and> 0 < ffd_size a")
    case False
    then have "\<exists>e. ?f = Some (\<lparr>ffd_error = Some e, ffd_data = None\<rparr>, S)"
      by (auto simp: SmbProxyFetchFileData_def Let_def not_less)
    then obtain e where "?f = Some (\<lparr>ffd_error = Some e, ffd_data = None\<rparr>, S)" by blast
    then show ?thesis by (rule that) (simp_all add: fetch_spec_def ok)
  next
    case v: True
    let ?hp = "if ffd_cache_handle a then root_dir (ffd_header a) @ ffd_file_path a else []"
    from C ok show ?thesis
    proof (cases rule: take_serves[where h = "ffd_header a" and hp = ?hp])
      case (no_connection e S1)
      then have f: "?f = Some (\<lparr>ffd_error = Some e, ffd_data = None\<rparr>, S1)" using v
        by (simp add: SmbProxyFetchFileData_def Let_def)
      show ?thesis by (rule that[OF f _ no_connection(2) rest[OF f no_connection(3)]]) (simp add: fetch_spec_def)
    next
      case (connection p e0 S1)
      then have t: "taken S1 p" by (simp add: taken_def)
      obtain e n b T where r: "read_all E (root_dir (ffd_header a) @ ffd_file_path a) p (ffd_offset a) (ffd_cache_handle a)
          (word_of_int (ffd_size a)) (max_read_size (conn_context (conns S1 p))) (word_of_int (ffd_size a)) 0 [] S1 = Some ((e, n, b), T)"
        and spec: "fetch_spec sp (file (world S1)) a (if Ok e then \<lparr>ffd_error = None, ffd_data = Some b\<rparr>
          else \<lparr>ffd_error = Some e, ffd_data = if n > 0 then Some b else None\<rparr>)"
        and T: "file (world T) = file (world S1)" "transfers p S1 T" "sized p T"
        by (rule fetch_work[OF C t a v[THEN conjunct2]])
      define U where "U = (if \<not> Ok e \<and> type_of e = kRetry then discard_connection E (ffd_header a) p T
          else ReleaseSmbConnection E (ffd_header a) p True T)"
      have f: "?f = Some (if Ok e then \<lparr>ffd_error = None, ffd_data = Some b\<rparr>
          else \<lparr>ffd_error = Some e, ffd_data = if n > 0 then Some b else None\<rparr>, U)"
        using v connection(1) r by (simp add: SmbProxyFetchFileData_def Let_def U_def)
      have "given_back file T U" using given_backI[OF C t T(2,3)] by (simp add: U_def)
      with spec T(1) connection(2) show ?thesis by (intro that[OF f _ _ rest[OF f]]) (simp_all add: given_back_def)
    qed
  qed
qed

lemma write_work:
  assumes C: "server_contract E file sp" and t: "taken S p" and a: "write_in_range a" "0 < wfd_size a"
  obtains e T where "WriteFileDataHelper E (root_dir (wfd_header a) @ wfd_file_path a) p (wfd_data a) (wfd_size a) (wfd_offset a)
      (wfd_cache_handle a) (wfd_is_stubbed a) S = Some (e, T)"
    "write_spec sp (file (world S)) a (if Ok e then None else Some e) (file (world T))" "transfers p S T" "sized p T"
proof -
  let ?path = "root_dir (wfd_header a) @ wfd_file_path a"
  have mx: "0 < max_write_size (conn_context (conns S p))" using t by (simp add: taken_def sized_def sizes_ok_def)
  have fh: "fh_agree (conns S p)" using t by (simp add: taken_def)
  obtain e T m where r: "WriteFileDataHelper E ?path p (wfd_data a) (wfd_size a) (wfd_offset a) (wfd_cache_handle a)
      (wfd_is_stubbed a) S = Some (e, T)"
    "file (world T) = (file (world S))(sp ?path := (if m = 0 then file (world S) (sp ?path)
        else overwrite (file (world S) (sp ?path)) (nat (wfd_offset a)) (take m (wfd_data a))))" "m \<le> nat (wfd_size a)"
    "Ok e \<longrightarrow> 0 < m \<and> (if wfd_is_stubbed a then \<forall>i. m \<le> i \<and> i < nat (wfd_size a) \<longrightarrow> wfd_data a ! i = CHR 0x00
        else m = nat (wfd_size a))" "transfers p S T"
    using WriteFileDataHelper_post[OF server_contractD(1,2)[OF C] mx, where off = "wfd_offset a" and sz = "wfd_size a"
        and d = "wfd_data a" and path = ?path, OF _ _ _ _ _ fh] a unfolding write_in_range_def by blast
  have "write_spec sp (file (world S)) a (if Ok e then None else Some e) (file (world T))"
    using r(2-4) unfolding write_spec_def written_def Let_def by (intro exI[of _ m]) auto
  moreover have "sized p T" using sized_write_helper[OF C r(1)] t by (simp add: taken_def)
  ultimately show ?thesis using that[OF r(1) _ r(5)] by blast
qed

lemma write_serves:
  assumes C: "server_contract E file sp" and ok: "serving_ok E S" and a: "write_in_range a"
  obtains e T where "SmbProxyWriteFileData E a S = Some (e, T)" "write_spec sp (file (world S)) a e (file (world T))"
    "serving_ok E T"
proof -
  let ?f = "SmbProxyWriteFileData E a S"
  have rest: "serving_ok E T" if "?f = Some (r, T)" "all_sized T" for r T
    using kept_write_file[OF that(1)] handles.I_write_file[OF that(1)] that(2) ok
    by (simp add: serving_ok_def all_sized_def kept_def)
  have same: "write_spec sp F a (Some e) F" for F e
    by (auto simp: write_spec_def Let_def written_def intro!: exI[of _ 0])
  show ?thesis
  proof (cases "Ok (ValidateSmbProxyBaseArg (wfd_header a)) \<and> 0 < wfd_size a")
    case False
    then have "\<exists>e. ?f = Some (Some e, S)" by (auto simp: SmbProxyWriteFileData_def Let_def not_less)
    then obtain e where "?f = Some (Some e, S)" by blast
    then show ?thesis by (rule that[OF _ same ok])
  next
    case v: True
    let ?hp = "if wfd_cache_handle a then root_dir (wfd_header a) @ wfd_file_path a else []"
    have d: "wfd_data a \<noteq> []" using a v by (auto simp: write_in_range_def)
    from C ok show ?thesis
    proof (cases rule: take_serves[where h = "wfd_header a" and hp = ?hp])
      case (no_connection e S1)
      then have f: "?f = Some (Some e, S1)" using v d by (simp add: SmbProxyWriteFileData_def Let_def)
      show ?thesis by (rule that[OF f _ rest[OF f no_connection(3)]]) (simp add: no_connection(2) same)
    next
      case (connection p e0 S1)
      then have t: "taken S1 p" by (simp add: taken_def)
      obtain e T where r: "WriteFileDataHelper E (root_dir (wfd_header a) @ wfd_file_path a) p (wfd_data a) (wfd_size a)
          (wfd_offset a) (wfd_cache_handle a) (wfd_is_stubbed a) S1 = Some (e, T)"
        and T: "write_spec sp (file (world S1)) a (if Ok e then None else Some e) (file (world T))" "transfers p S1 T" "sized p T"
        by (rule write_work[OF C t a v[THEN conjunct2]])
      define U where "U = (if \<not> Ok e \<and> (type_of e = kRetry \<or> type_of e = kPermissionDenied)
          then discard_connection E (wfd_header a) p T else ReleaseSmbConnection E (wfd_header a) p True T)"
      have f: "?f = Some (if Ok e then None else Some e, U)"
        using v d connection(1) r by (simp add: SmbProxyWriteFileData_def Let_def U_def)
      have "given_back file T U" using given_backI[OF C t T(2,3)] by (simp add: U_def)
      with T(1) connection(2) show ?thesis by (intro that[OF f _ rest[OF f]]) (simp_all add: given_back_def)
    qed
  qed
qed

text \<open>Several requests one after the other, and the steps of the abstract service.\<close>

fun serve_all :: "'w smb_env \<Rightarrow> request list \<Rightarrow> 'w proxy \<Rightarrow> (response list \<times> 'w proxy) option" where
  "serve_all E [] S = Some ([], S)"
| "serve_all E (r # rs) S =
     do { (x, S) \<leftarrow> serve E r S;
          (xs, S) \<leftarrow> serve_all E rs S;
          Some (x # xs, S) }"

inductive file_step :: "(string \<Rightarrow> string) \<Rightarrow> (string \<Rightarrow> string) \<Rightarrow> request \<Rightarrow> response \<Rightarrow> (string \<Rightarrow> string) \<Rightarrow> bool" for sp where
  fetch_step: "fetch_spec sp F a r \<Longrightarrow> file_step sp F (FetchFileDataRpc a) (FileDataReply r) F"
| write_step: "write_spec sp F a e F' \<Longrightarrow> file_step sp F (WriteFileDataRpc a) (ErrorReply e) F'"

inductive file_run ::
  "(string \<Rightarrow> string) \<Rightarrow> (string \<Rightarrow> string) \<Rightarrow> request list \<Rightarrow> response list \<Rightarrow> (string \<Rightarrow> string) \<Rightarrow> bool" for sp where
  run_nil: "file_run sp F [] [] F"
| run_cons: "file_step sp F r x F1 \<Longrightarrow> file_run sp F1 rs xs F2 \<Longrightarrow> file_run sp F (r # rs) (x # xs) F2"

inductive_simps file_step_simps [simp]:
  "file_step sp F (FetchFileDataRpc a) x F'" "file_step sp F (WriteFileDataRpc a) x F'"

inductive_cases file_run_consE: "file_run sp F (r # rs) xs F'"

inductive_simps file_run_simps: "file_run sp F [] xs F'" "file_run sp F (r # rs) xs F'"

lemma serve_refines:
  assumes "server_contract E file sp" "serving_ok E S" "in_range r"
  obtains x T where "serve E r S = Some (x, T)" "file_step sp (file (world S)) r x (file (world T))" "serving_ok E T"
  using assms(3)
proof (cases r)
  case (FetchFileDataRpc a)
  with assms(3) have "fetch_in_range a" by simp
  from fetch_serves[OF assms(1,2) this] obtain x T where
    x: "SmbProxyFetchFileData E a S = Some (x, T)" "fetch_spec sp (file (world S)) a x"
    "file (world T) = file (world S)" "serving_ok E T" .
  show ?thesis by (rule that[of "FileDataReply x" T]) (use x in \<open>simp_all add: FetchFileDataRpc\<close>)
next
  case (WriteFileDataRpc a)
  with assms(3) have "write_in_range a" by simp
  from write_serves[OF assms(1,2) this] obtain x T where
    x: "SmbProxyWriteFileData E a S = Some (x, T)" "write_spec sp (file (world S)) a x (file (world T))" "serving_ok E T" .
  show ?thesis by (rule that[of "ErrorReply x" T]) (use x in \<open>simp_all add: WriteFileDataRpc\<close>)
qed simp_all

lemma serve_all_refines:
  assumes C: "server_contract E file sp"
  shows "serving_ok E S \<Longrightarrow> \<forall>r\<in>set rs. in_range r \<Longrightarrow>
    \<exists>xs T. serve_all E rs S = Some (xs, T) \<and> serving_ok E T \<and> file_run sp (file (world S)) rs xs (file (world T))"
proof (induction rs arbitrary: S)
  case (Cons r rs)
  then have r: "in_range r" by simp
  obtain x T where x: "serve E r S = Some (x, T)" "file_step sp (file (world S)) r x (file (world T))" "serving_ok E T"
    by (rule serve_refines[OF C Cons.prems(1) r])
  with Cons.IH[OF x(3)] Cons.prems(2) show ?case by (fastforce intro: run_cons)
qed (auto intro: run_nil)

lemma run_append:
  "file_run sp F (rs @ rs') zs F' \<longleftrightarrow> (\<exists>xs ys G. zs = xs @ ys \<and> file_run sp F rs xs G \<and> file_run sp G rs' ys F')"
proof (induction rs arbitrary: F zs)
  case (Cons r rs)
  show ?case by (auto simp: file_run_simps Cons.IH) (metis append_Cons, blast)
qed (auto simp: file_run_simps)

abbreviation written_path :: "(string \<Rightarrow> string) \<Rightarrow> SmbProxyWriteFileDataArg \<Rightarrow> string" where
  "written_path sp a \<equiv> sp (root_dir (wfd_header a) @ wfd_file_path a)"

abbreviation fetched_path :: "(string \<Rightarrow> string) \<Rightarrow> SmbProxyFetchFileDataArg \<Rightarrow> string" where
  "fetched_path sp a \<equiv> sp (root_dir (ffd_header a) @ ffd_file_path a)"

lemma run_unwritten:
  "file_run sp F rs xs F' \<Longrightarrow> \<forall>a. WriteFileDataRpc a \<in> set rs \<longrightarrow> written_path sp a \<noteq> q \<Longrightarrow> F' q = F q"
proof (induction rule: file_run.induct)
  case (run_cons F r x F1 rs xs F2)
  have "F1 q = F q"
    using run_cons.hyps(1) run_cons.prems by (cases rule: file_step.cases) (auto simp: write_spec_def Let_def)
  with run_cons show ?case by simp
qed simp

lemma overwrite_range:
  assumes "k + n \<le> length x"
  shows "take n (drop (off + k) (overwrite c off x)) = take n (drop k x)"
proof -
  have "min (length c) off + (off - length c) = off" by simp
  with assms show ?thesis by (simp add: overwrite_def)
qed

subsection \<open>Properties\<close>



subsection \<open>The sample server\<close>

lemma sample_keeps: "keeps_sizes (sample_fetch path off sz fn t p)" "keeps_sizes (sample_write path off sz x fn t p)"
  "keeps_sizes (sample_ok r)"
  by (auto simp: keeps_sizes_def sample_fetch_def sample_write_def sample_fail_def sample_ok_def sizes_ok_def Let_def
      split: option.split)

lemma sample_server_contract: "server_contract sample_env sample_file (GetSmbPath None)"
proof -
  have "fixed_path sample_env p path (GetSmbPath None path)" for p path
    by (simp add: fixed_path_def SmbPath_def sample_env_def)
  with sample_write_contract sample_keeps show ?thesis
    by (auto simp: server_contract_def pool_quiet_def sample_env_def sample_file_def sizes_ok_def sample_ok_def)
qed

lemma serving_ok_init: "serving_ok E (proxy_init w)"
  using pool_ok_init[of E w] by (simp add: serving_ok_def handles_bounded_def idle_conns_def proxy_init_def)

definition sample_write_arg :: SmbProxyWriteFileDataArg where
  "sample_write_arg =
     \<lparr>wfd_header = sample_arg, wfd_file_path = ''/f'', wfd_offset = 6, wfd_size = 4, wfd_cache_handle = False,
      wfd_data = ''ther'', wfd_is_stubbed = False\<rparr>"

definition sample_read_arg :: SmbProxyFetchFileDataArg where
  "sample_read_arg =
     \<lparr>ffd_header = sample_arg, ffd_file_path = ''/f'', ffd_offset = 7, ffd_size = 3, ffd_cache_handle = True\<rparr>"

lemma sample_write_accepted:
  "map_option fst (SmbProxyWriteFileData sample_env sample_write_arg (proxy_init sample_world)) = Some None"
  by code_simp

lemma sample_in_range: "write_in_range sample_write_arg" "fetch_in_range sample_read_arg"
  by (simp_all add: write_in_range_def fetch_in_range_def sample_write_arg_def sample_read_arg_def)



end
