(* ===== verification/Delete_Safety.thy ===== *)
theory Delete_Safety
  imports World_View
begin

text \<open>
  Deleting a directory removes the directory and nothing outside of it. The walk of
  \<open>ops/delete_entity_op.cc\<close> deletes what a listing names; the theory shows that every path it hands to the
  server lies below the directory of the request, whatever the server lists, and that a walk without an error
  has removed the directory.
\<close>

subsection \<open>Paths below a directory\<close>

definition below :: "string \<Rightarrow> string \<Rightarrow> bool" where
  "below dir q \<longleftrightarrow> (\<exists>rest. q = dir @ rest \<and> (rest = [] \<or> hd rest = bslash \<or> dir \<noteq> [] \<and> last dir = bslash))"

lemma below_refl [simp]: "below dir dir"
  by (simp add: below_def)

lemma below_trans:
  assumes "below a b" "below b c"
  shows "below a c"
proof -
  obtain r t where r: "b = a @ r" "r = [] \<or> hd r = bslash \<or> a \<noteq> [] \<and> last a = bslash"
    and t: "c = b @ t" "t = [] \<or> hd t = bslash \<or> b \<noteq> [] \<and> last b = bslash"
    using assms unfolding below_def by blast
  then show ?thesis by (cases "r = []") (auto simp: below_def)
qed

lemma smb_path_loop_append:
  "smb_path_loop b (xs @ ys) = smb_path_loop b xs @ smb_path_loop (if xs = [] then b else is_sep (last xs)) ys"
  by (induction b xs rule: smb_path_loop.induct) auto

text \<open>The path of a child, as the walk forms it.\<close>

lemma child_below:
  assumes "GetSmbPath None dir = dir"
  shows "below dir (GetSmbPath None (dir @ slash # name))"
proof -
  have d: "smb_path_loop False dir = dir" using assms by (simp add: GetSmbPath_def)
  then have "canonical False dir" using smb_path_loop_canonical[of False dir] by simp
  from canonical_adjacent[OF this] have "slash \<notin> set dir" by blast
  then have l: "dir \<noteq> [] \<Longrightarrow> is_sep (last dir) \<longleftrightarrow> last dir = bslash"
    using last_in_set[of dir] unfolding is_sep_def by metis
  have "is_sep slash" by (simp add: is_sep_def)
  then show ?thesis
    unfolding GetSmbPath_def option.case smb_path_loop_append d
    by (cases "dir \<noteq> [] \<and> last dir = bslash") (auto simp: below_def l)
qed

subsection \<open>What the server promises\<close>

text \<open>\<open>objs\<close> are the objects on the share. A deletion removes at most the object it names, and that one when it
  reports success; the other calls of the walk remove nothing. The share is not used through DFS.\<close>

definition removes :: "('w \<Rightarrow> string set) \<Rightarrow> string \<Rightarrow> int \<Rightarrow> 'w \<Rightarrow> 'w \<Rightarrow> bool" where
  "removes objs path ret w w' \<longleftrightarrow>
     objs w - {path} \<subseteq> objs w' \<and> objs w' \<subseteq> objs w \<and> (ret \<noteq> -1 \<longrightarrow> path \<notin> objs w')"

definition delete_contract :: "'w smb_env \<Rightarrow> ('w \<Rightarrow> string set) \<Rightarrow> bool" where
  "delete_contract E objs \<longleftrightarrow>
     list_quiet E objs \<and>
     (\<forall>path f a i md p s. objs (snd (snd (e_set_metadata E path f a i md p s))) = objs (snd s)) \<and>
     (\<forall>path p s. let (ret, s') = e_delete_object E path p s in removes objs path ret (snd s) (snd s')) \<and>
     (\<forall>path p s. let (ret, s') = e_delete_directory E path p s in removes objs path ret (snd s) (snd s')) \<and>
     (\<forall>path ty x p s. let (ret, s') = e_delete_entity E path ty x p s in removes objs path ret (snd s) (snd s')) \<and>
     (\<forall>p s path. SmbPath E p s path = GetSmbPath None path)"

lemma delete_contractD:
  assumes "delete_contract E objs"
  shows "list_quiet E objs" "objs (snd (snd (e_set_metadata E path f a i md p s))) = objs (snd s)"
    "e_delete_object E path p s = (ret, s') \<Longrightarrow> removes objs path ret (snd s) (snd s')"
    "e_delete_directory E path p s = (ret, s') \<Longrightarrow> removes objs path ret (snd s) (snd s')"
    "e_delete_entity E path ty x p s = (ret, s') \<Longrightarrow> removes objs path ret (snd s) (snd s')"
    "SmbPath E p s path = GetSmbPath None path"
proof -
  show "removes objs path ret (snd s) (snd s')" if "e_delete_object E path p s = (ret, s')"
    using assms[unfolded delete_contract_def, THEN conjunct2, THEN conjunct2, THEN conjunct1, rule_format, of path p s] that by simp
  show "removes objs path ret (snd s) (snd s')" if "e_delete_directory E path p s = (ret, s')"
    using assms[unfolded delete_contract_def, THEN conjunct2, THEN conjunct2, THEN conjunct2, THEN conjunct1, rule_format, of path p s]
      that by simp
  show "removes objs path ret (snd s) (snd s')" if "e_delete_entity E path ty x p s = (ret, s')"
    using assms[unfolded delete_contract_def, THEN conjunct2, THEN conjunct2, THEN conjunct2, THEN conjunct2, THEN conjunct1,
        rule_format, of path ty x p s] that by simp
qed (use assms in \<open>auto simp: delete_contract_def simp del: split_paired_All\<close>)

subsection \<open>Listing\<close>

lemma metadata_view:
  assumes "list_quiet E view" "GetEntityMetadata E p path tgt md s = ((e, md'), s')"
  shows "view (snd s') = view (snd s)" "md_path md' = md_path md"
proof -
  obtain x t where x: "e_get_metadata E path p s = (x, t)" by (rule prod.exhaust)
  obtain y u where y: "e_read_symlink E path p t = (y, u)" by (rule prod.exhaust)
  have "view (snd t) = view (snd s)" "view (snd u) = view (snd t)"
    using list_quietD(6)[OF assms(1), of path p s] list_quietD(7)[OF assms(1), of path p t] x y by simp_all
  with assms(2) x y show "view (snd s') = view (snd s)"
    by (auto simp: GetEntityMetadata_def Let_def split: option.splits prod.splits if_splits)
  from assms(2) show "md_path md' = md_path md"
    by (auto simp: GetEntityMetadata_def fill_metadata_def Let_def split: option.splits prod.splits if_splits)
qed

lemma named_child_view:
  assumes "list_quiet E view" "named_child E p arg path S = ((e, md), T)"
  shows "view (world T) = view (world S)" "md_path md = path"
proof -
  let ?md = "(if populate_root_dir (fcm_header arg) then empty_metadata\<lparr>md_root_dir := root_dir (fcm_header arg)\<rparr> else empty_metadata)
    \<lparr>md_path := path\<rparr>"
  let ?f = "GetEntityMetadata E p (SmbPath E p (sess_of p S) (root_dir (fcm_header arg) @ path)) (fcm_fetch_symlink_target arg) ?md"
  obtain e' md' U where c: "on_conn p ?f S = ((e', md'), U)" by (metis surj_pair)
  note m = metadata_view[OF assms(1) on_conn_world[OF c]]
  from assms(2) c have T: "T = U" "md = (if Ok e' then md' else md'\<lparr>md_error := Some e'\<rparr>)"
    by (auto simp: named_child_def Let_def)
  show "view (world T) = view (world S)" using m(1) by (simp add: T sess_of_def)
  show "md_path md = path" using m(2) by (simp add: T)
qed

lemma touch_view:
  "list_quiet E view \<Longrightarrow> touch_task E key ii S = Some T \<Longrightarrow> view (world T) = view (world S)"
  by (auto simp: touch_task_def Let_def access_time_view[OF list_quietD(1)] split: if_splits)

definition is_child :: "string \<Rightarrow> EntityMetadata \<Rightarrow> bool" where
  "is_child dir md \<longleftrightarrow> (\<exists>name. md_path md = dir @ slash # name)"

lemma named_children_view:
  assumes "list_quiet E view"
  shows "named_children E p arg ii names cs S = Some ((cs', e), T) \<Longrightarrow> \<forall>md\<in>set cs. is_child (fcm_path arg) md \<Longrightarrow>
    view (world T) = view (world S) \<and> (\<forall>md\<in>set cs'. is_child (fcm_path arg) md)"
proof (induction names arbitrary: ii cs S)
  case (Cons name names)
  obtain S1 where t: "touch_task E (task_key (fcm_header arg)) ii S = Some S1"
    using Cons.prems(1) by (auto split: bind_splits)
  note tv = touch_view[OF assms t]
  let ?path = "fcm_path arg @ [slash] @ name"
  obtain er md U where c: "named_child E p arg ?path S1 = ((er, md), U)" by (metis surj_pair)
  note cv = named_child_view[OF assms c]
  have "is_child (fcm_path arg) md" using cv(2) by (simp add: is_child_def)
  with Cons.prems Cons.IH[of "Suc ii" cs S1] Cons.IH[of "Suc ii" "cs @ [md]" U] t tv c cv(1) show ?case
    by (auto simp: Let_def split: if_splits)
qed simp

lemma dirplus_children_view:
  assumes "list_quiet E view"
  shows "dirplus_children E arg ii srcs cs S = Some ((cs', e), T) \<Longrightarrow> \<forall>md\<in>set cs. is_child (fcm_path arg) md \<Longrightarrow>
    view (world T) = view (world S) \<and> (\<forall>md\<in>set cs'. is_child (fcm_path arg) md)"
proof (induction srcs arbitrary: ii cs S)
  case (Cons src srcs)
  obtain S1 where t: "touch_task E (task_key (fcm_header arg)) ii S = Some S1"
    using Cons.prems(1) by (auto split: bind_splits)
  let ?md = "dirplus_child (fcm_header arg) (fcm_path arg @ [slash] @ rd_name src) (rd_metadata src)"
  have "is_child (fcm_path arg) ?md" by (simp add: is_child_def dirplus_child_def Let_def)
  with Cons.prems Cons.IH[of "Suc ii" cs S1] Cons.IH[of "Suc ii" "cs @ [?md]" S1] t touch_view[OF assms t] show ?case
    by (auto simp: Let_def split: if_splits)
qed simp

lemma children_done_view:
  "pool_quiet E view \<Longrightarrow> children_done E arg p fnum n cs e S = (x, T) \<Longrightarrow>
   view (world T) = view (world S) \<and> fcm_children_metadata x = cs"
  by (auto simp: children_done_def PackToCookie_def empty_children_def Let_def release_view discard_view split: if_splits)

lemma list_failed_view:
  "pool_quiet E view \<Longrightarrow> list_failed E arg p le S = (x, T) \<Longrightarrow>
   view (world T) = view (world S) \<and> fcm_children_metadata x = []"
  by (auto simp: list_failed_def empty_children_def Let_def release_view discard_view split: if_splits)

lemma list_children_view:
  assumes "list_quiet E view" "list_children E p arg le S = (x, T)"
  shows "view (world T) = view (world S)"
  using assms(2) list_quietD(4,5)[OF assms(1)]
  by (auto simp: list_children_def Let_def split: if_splits prod.splits dest!: on_conn_view[where view = view])

lemma fetch_children_view:
  assumes q: "list_quiet E view" and f: "fetch_children E arg p le m S = Some (x, T)"
  shows "view (world T) = view (world S) \<and> (\<forall>md\<in>set (fcm_children_metadata x). is_child (fcm_path arg) md)"
proof -
  note done_view = children_done_view[OF list_quietD(1)[OF q]] and failed_view = list_failed_view[OF list_quietD(1)[OF q]]
  have free: "view (world (free_mem E m U)) = view (world U)" for U
    by (simp add: free_mem_def list_quietD(3)[OF q])
  obtain ns es fn V where l: "list_children E p arg le S = ((ns, es, fn), V)" by (metis surj_pair)
  note lv = list_children_view[OF q l]
  consider names where "ns = Some names" | entries where "ns = None" "es = Some entries" | "ns = None" "es = None" by fastforce
  then show ?thesis
  proof cases
    case (1 names)
    with f l obtain cs e W where n: "named_children E p arg 0 names [] V = Some ((cs, e), W)"
      by (auto simp: fetch_children_def Let_def split: bind_splits prod.splits)
    obtain x' U where c: "children_done E arg p fn (length names) cs e W = (x', U)" by (rule prod.exhaust)
    with f l 1 n have "x' = x" "T = free_mem E m U" by (auto simp: fetch_children_def)
    with named_children_view[OF q n] done_view[OF c] lv free show ?thesis by simp
  next
    case (2 entries)
    with f l obtain cs e W where n: "dirplus_children E arg 0 entries [] V = Some ((cs, e), W)"
      by (auto simp: fetch_children_def Let_def split: bind_splits prod.splits)
    obtain x' U where c: "children_done E arg p fn (length entries) cs e W = (x', U)" by (rule prod.exhaust)
    with f l 2 n have "x' = x" "T = free_mem E m U" by (auto simp: fetch_children_def)
    with dirplus_children_view[OF q n] done_view[OF c] lv free show ?thesis by simp
  next
    case 3
    obtain x' U where c: "list_failed E arg p le V = (x', U)" by (rule prod.exhaust)
    with f l 3 have "x' = x" "T = free_mem E m U" by (auto simp: fetch_children_def)
    with failed_view[OF c] lv free show ?thesis by simp
  qed
qed

lemma fetch_page_view:
  assumes q: "list_quiet E view" and f: "SmbProxyFetchChildrenMetadata E arg S = Some (r, T)"
  shows "view (world T) = view (world S) \<and> (\<forall>md\<in>set (fcm_children_metadata r). is_child (fcm_path arg) md)"
proof -
  note pq = list_quietD(1)[OF q]
  have ta: "view w = view (world U)" if "e_talloc E sz (world U) = (x, w)" for sz U x w
    using list_quietD(2)[OF q, of sz "world U"] that by simp
  show ?thesis
    using f
    by (auto simp: SmbProxyFetchChildrenMetadata_def empty_children_def Let_def release_view[OF pq]
        split: if_splits bind_splits option.splits prod.splits dest!: acquire_view[OF pq] ta fetch_children_view[OF q])
qed

subsection \<open>The walk\<close>

text \<open>Objects are only removed, and only below the directory.\<close>

definition only_below :: "string \<Rightarrow> string set \<Rightarrow> string set \<Rightarrow> bool" where
  "only_below dir A B \<longleftrightarrow> B \<subseteq> A \<and> (\<forall>q\<in>A - B. below dir q)"

lemma only_below_refl [simp]: "only_below dir A A"
  by (simp add: only_below_def)

lemma only_below_trans: "only_below dir A B \<Longrightarrow> only_below dir B C \<Longrightarrow> only_below dir A C"
  unfolding only_below_def by blast

lemma only_below_child: "only_below d A B \<Longrightarrow> below dir d \<Longrightarrow> only_below dir A B"
  unfolding only_below_def using below_trans by blast

lemma removes_below: "removes objs path ret w w' \<Longrightarrow> below dir path \<Longrightarrow> only_below dir (objs w) (objs w')"
  unfolding removes_def only_below_def by blast

lemma empty_dir_removed:
  assumes c: "delete_contract E objs" and d: "DeleteEmptyDir E p dir S = (e, T)"
  shows "only_below dir (objs (world S)) (objs (world T))" "Ok e \<Longrightarrow> dir \<notin> objs (world T)"
proof -
  obtain ret U where r: "on_conn p (e_delete_directory E dir p) S = (ret, U)" by (rule prod.exhaust)
  have "removes objs dir ret (world S) (world U)"
    using delete_contractD(4)[OF c on_conn_world[OF r]] by (simp add: sess_of_def)
  moreover have "T = U" "Ok e \<Longrightarrow> ret \<noteq> -1" using d r by (auto simp: DeleteEmptyDir_def smb_error_def split: if_splits)
  ultimately show "only_below dir (objs (world S)) (objs (world T))" "Ok e \<Longrightarrow> dir \<notin> objs (world T)"
    using removes_below[of objs dir ret "world S" "world U" dir] by (auto simp: removes_def)
qed

lemma file_removed:
  assumes c: "delete_contract E objs" and d: "DeleteFile E p path S = (e, T)"
  shows "only_below path (objs (world S)) (objs (world T)) \<and> (Ok e \<longrightarrow> path \<notin> objs (world T))"
proof -
  have once: "only_below path (objs (world U)) (objs (world V)) \<and> (Ok r \<longrightarrow> path \<notin> objs (world V))"
    if "DeleteFileHelper E p path U = (r, V)" for U r V
  proof -
    obtain ret W where r: "on_conn p (e_delete_object E path p) U = (ret, W)" by (rule prod.exhaust)
    have "removes objs path ret (world U) (world W)"
      using delete_contractD(3)[OF c on_conn_world[OF r]] by (simp add: sess_of_def)
    with that r removes_below[of objs path ret "world U" "world W" path] show ?thesis
      by (auto simp: DeleteFileHelper_def removes_def smb_error_def)
  qed
  have clear: "objs (world V) = objs (world U)" if "ClearFileAttributes E p path U = (r, V)" for U r V
    using that delete_contractD(2)[OF c]
    by (auto simp: ClearFileAttributes_def Let_def split: prod.splits dest!: on_conn_view[where view = objs])
  show ?thesis
    using d by (auto simp: DeleteFile_def Let_def split: prod.splits if_splits dest!: once clear intro: only_below_trans)
qed

lemma entity_removed:
  assumes c: "delete_contract E objs" and d: "DeleteEntity E p path ty excl S = (e, T)"
  shows "only_below path (objs (world S)) (objs (world T)) \<and> (Ok e \<longrightarrow> path \<notin> objs (world T))"
proof -
  obtain ret U where r: "on_conn p (e_delete_entity E path (ConvertEntityTypeToSmb ty) excl p) S = (ret, U)" by (rule prod.exhaust)
  have "removes objs path ret (world S) (world U)"
    using delete_contractD(5)[OF c on_conn_world[OF r]] by (simp add: sess_of_def)
  with d r removes_below[of objs path ret "world S" "world U" path] show ?thesis
    by (auto simp: DeleteEntity_def removes_def smb_error_def)
qed

text \<open>The directory a level of the recursion works on; its children have paths the listing gave them.\<close>

primrec work_dir :: "delete_work \<Rightarrow> string" where
  "work_dir (ListDir dir) = dir"
| "work_dir (DeleteChildren dir children cookie) = dir"

primrec work_ok :: "delete_work \<Rightarrow> bool" where
  "work_ok (ListDir dir) \<longleftrightarrow> GetSmbPath None dir = dir"
| "work_ok (DeleteChildren dir children cookie) \<longleftrightarrow> GetSmbPath None dir = dir \<and> (\<forall>md\<in>set children. is_child dir md)"

definition walk_post :: "('w \<Rightarrow> string set) \<Rightarrow> delete_work \<Rightarrow> 'w proxy \<Rightarrow> (Error \<times> 'k) \<times> 'w proxy \<Rightarrow> bool" where
  "walk_post objs work S y \<longleftrightarrow>
     only_below (work_dir work) (objs (world S)) (objs (world (snd y))) \<and>
     (Ok (fst (fst y)) \<longrightarrow> work_dir work \<notin> objs (world (snd y)))"

text \<open>The child a level deletes next; \<open>f\<close> is the recursive call.\<close>

lemma walk_child:
  assumes c: "delete_contract E objs" and dir: "GetSmbPath None dir = dir" and md: "is_child dir md"
    and IH: "\<And>work k S y. f work k S = Some y \<Longrightarrow> work_ok work \<Longrightarrow> walk_post objs work S y"
    and k: "(if md_type md = MdDirectory then f (ListDir (GetSmbPath None (md_path md))) cookies S
      else case DeleteFile E p (GetSmbPath None (md_path md)) S of (error, S) \<Rightarrow> Some ((error, cookies), S)) = Some ((e, k), T)"
  shows "only_below dir (objs (world S)) (objs (world T))"
proof -
  have b: "below dir (GetSmbPath None (md_path md))" using md child_below[OF dir] by (auto simp: is_child_def)
  show ?thesis
  proof (cases "md_type md = MdDirectory")
    case True
    with k IH[of "ListDir (GetSmbPath None (md_path md))" cookies S "((e, k), T)"] only_below_child[OF _ b] show ?thesis
      by (simp add: GetSmbPath_twice walk_post_def)
  next
    case False
    with k file_removed[OF c] only_below_child[OF _ b] show ?thesis by (auto split: prod.splits)
  qed
qed

lemma walk_children:
  assumes c: "delete_contract E objs" and ok: "work_ok (DeleteChildren dir (md # rest) cookie)"
    and IH: "\<And>work k S y. f work k S = Some y \<Longrightarrow> work_ok work \<Longrightarrow> walk_post objs work S y"
    and run: "do { ((error, cookies), S) \<leftarrow>
        (if md_type md = MdDirectory then f (ListDir (GetSmbPath None (md_path md))) cookies S
         else case DeleteFile E p (GetSmbPath None (md_path md)) S of (error, S) \<Rightarrow> Some ((error, cookies), S));
      if Ok error then f (DeleteChildren dir rest cookie) cookies S else Some ((error, cookies), S) } = Some y"
  shows "walk_post objs (DeleteChildren dir (md # rest) cookie) S y"
proof -
  from run obtain e k T where k: "(if md_type md = MdDirectory then f (ListDir (GetSmbPath None (md_path md))) cookies S
      else case DeleteFile E p (GetSmbPath None (md_path md)) S of (error, S) \<Rightarrow> Some ((error, cookies), S)) = Some ((e, k), T)"
    and y: "(if Ok e then f (DeleteChildren dir rest cookie) k T else Some ((e, k), T)) = Some y"
    by (auto simp: abort_simps)
  have t: "only_below dir (objs (world S)) (objs (world T))"
    by (rule walk_child[where f = f, OF c _ _ IH k]) (use ok in simp_all)
  show ?thesis
  proof (cases "Ok e")
    case True
    with y IH[of "DeleteChildren dir rest cookie" k T y] ok have "walk_post objs (DeleteChildren dir rest cookie) T y" by simp
    then show ?thesis using only_below_trans[OF t] by (simp add: walk_post_def)
  next
    case False
    with y t show ?thesis by (auto simp: walk_post_def)
  qed
qed

lemma walk_list:
  assumes c: "delete_contract E objs" and dir: "GetSmbPath None dir = dir"
    and IH: "\<And>work k S y. f work k S = Some y \<Longrightarrow> work_ok work \<Longrightarrow> walk_post objs work S y"
    and run: "do { (result, S) \<leftarrow> SmbProxyFetchChildrenMetadata E (children_arg h dir cookie) S;
      f (DeleteChildren dir (fcm_children_metadata result) (fcm_result_cookie result)) cookies S } = Some y"
  shows "walk_post objs (ListDir dir) S y"
proof -
  from run obtain r T where r: "SmbProxyFetchChildrenMetadata E (children_arg h dir cookie) S = Some (r, T)"
    "f (DeleteChildren dir (fcm_children_metadata r) (fcm_result_cookie r)) cookies T = Some y"
    by (auto simp: abort_simps)
  have v: "objs (world T) = objs (world S)" "\<forall>md\<in>set (fcm_children_metadata r). is_child dir md"
    using fetch_page_view[OF delete_contractD(1)[OF c] r(1)] by (simp_all add: children_arg_def)
  from IH[OF r(2)] v dir show ?thesis by (simp add: walk_post_def)
qed

lemma walk_below_all:
  assumes c: "delete_contract E objs"
  shows "\<forall>E' h p work cookies S y. DeleteDir E' h p work cookies S = Some y \<longrightarrow> E' = E \<longrightarrow> work_ok work \<longrightarrow> walk_post objs work S y"
proof (rule DeleteDir.fixp_induct, goal_cases)
  case 1
  show ?case unfolding curry_def by (intro admissible_all admissible_point)
next
  case (3 f)
  note IH = 3[rule_format, OF _ refl]
  show ?case
  proof (intro allI impI, goal_cases)
    case (1 E' h p work cookies S y)
    note run = 1(1)[unfolded 1(2) delete_contractD(6)[OF c]] and ok = 1(3)
    consider (dir) dir where "work = ListDir dir" | (last) dir where "work = DeleteChildren dir [] None"
      | (page) dir k where "work = DeleteChildren dir [] (Some k)"
      | (child) dir md rest cookie where "work = DeleteChildren dir (md # rest) cookie"
      by (metis delete_work.exhaust list.exhaust option.exhaust)
    then show ?case
    proof cases
      case (dir dir)
      with run ok show ?thesis by (intro walk_list[where f = "f E h p" and dir = dir, OF c _ IH, folded dir]) simp_all
    next
      case (last dir)
      obtain e T where d: "DeleteEmptyDir E p dir S = (e, T)" by (rule prod.exhaust)
      with run last empty_dir_removed[OF c d] show ?thesis by (auto simp: walk_post_def)
    next
      case (page dir k)
      with run have "f E h p (ListDir dir) (AList.update dir k cookies) S = Some y" by simp
      from IH[OF this] ok show ?thesis by (simp add: page walk_post_def)
    next
      case (child dir md rest cookie)
      show ?thesis
      proof (cases "md_error md = None")
        case False
        with run child have "f E h p (DeleteChildren dir rest cookie) cookies S = Some y" by simp
        from IH[OF this] ok show ?thesis by (simp add: child walk_post_def)
      next
        case True
        have "work_ok (DeleteChildren dir (md # rest) cookie)" using ok by (simp add: child)
        from walk_children[where f = "f E h p" and cookies = cookies and S = S and p = p and y = y, OF c this IH] run True
        show ?thesis by (simp add: child)
      qed
    qed
  qed
qed simp

lemma delete_by_type_removes:
  assumes c: "delete_contract E objs" and d: "delete_by_type E h p path ty excl S = Some (e, T)"
  shows "only_below (GetSmbPath None path) (objs (world S)) (objs (world T)) \<and>
    (Ok e \<longrightarrow> GetSmbPath None path \<notin> objs (world T))"
proof (cases ty)
  case kDirectory
  with d delete_contractD(6)[OF c] obtain k where "DeleteDir E h p (ListDir (GetSmbPath None path)) [] S = Some ((e, k), T)"
    by (auto simp: delete_by_type_def Let_def split: bind_splits)
  with walk_below_all[OF c] have "walk_post objs (ListDir (GetSmbPath None path)) S ((e, k), T)"
    by (simp add: GetSmbPath_twice)
  then show ?thesis by (simp add: walk_post_def)
qed (use d delete_contractD(6)[OF c] file_removed[OF c] entity_removed[OF c] in \<open>auto simp: delete_by_type_def Let_def\<close>)

lemma DeleteEntity_below:
  assumes "delete_contract E objs" "SmbProxyDeleteEntity E h path ty excl S = Some (e, T)"
  shows "objs (world T) \<subseteq> objs (world S) \<and>
    (\<forall>q\<in>objs (world S) - objs (world T). below (GetSmbPath None (root_dir h @ path)) q) \<and>
    (e = None \<longrightarrow> GetSmbPath None (root_dir h @ path) \<notin> objs (world T))"
proof -
  let ?path = "root_dir h @ path"
  note pq = list_quietD(1)[OF delete_contractD(1)[OF assms(1)]]
  from assms(2) obtain r where r: "DeleteEntityOp_Execute E h ?path ty excl None S = Some (r, T)" "e = None \<longleftrightarrow> Ok r"
    by (auto simp: SmbProxyDeleteEntity_def split: bind_splits if_splits)
  consider (invalid) "T = S" "\<not> Ok r" | (lost) "GetOrCreate E h S = ((None, r), T)"
    | (work) p e0 S1 U where "GetOrCreate E h S = ((Some p, e0), S1)" "delete_by_type E h p ?path ty excl S1 = Some (r, U)"
      "T = ReleaseSmbConnection E h p True U"
    using r(1) by (auto simp: DeleteEntityOp_Execute_def Let_def split: if_splits prod.splits option.splits bind_splits)
  then have "only_below (GetSmbPath None ?path) (objs (world S)) (objs (world T)) \<and>
    (Ok r \<longrightarrow> GetSmbPath None ?path \<notin> objs (world T))"
  proof cases
    case lost
    then show ?thesis using take_view[OF pq lost] no_connection_error[OF lost] by simp
  next
    case work
    with delete_by_type_removes[OF assms(1) work(2)] take_view[OF pq work(1)] show ?thesis
      by (simp add: release_view[OF pq])
  qed simp
  with r(2) show ?thesis by (simp add: only_below_def)
qed

subsection \<open>Property\<close>

text \<open>C5. A deletion stays below the path of the request. Whatever names the server lists, however the listing is
  paged and whichever calls fail, \<open>SmbProxyDeleteEntity\<close> removes at most the object of the request and what is
  below it in the hierarchy of the share; an answer without an error means that the object itself is gone.\<close>

theorem DeleteEntity_stays_below:
  assumes "delete_contract E objs" "SmbProxyDeleteEntity E h path ty excl S = Some (e, T)"
  shows "objs (world T) \<subseteq> objs (world S) \<and>
    (\<forall>q\<in>objs (world S) - objs (world T). below (GetSmbPath None (root_dir h @ path)) q) \<and>
    (e = None \<longrightarrow> GetSmbPath None (root_dir h @ path) \<notin> objs (world T))"
  by (rule DeleteEntity_below[OF assms])

text \<open>The objects of the sample server.\<close>

definition sample_objects :: "sample \<Rightarrow> string set" where
  "sample_objects w = set (d_dirs w) \<union> fst ` set (d_files w)"

lemma sample_delete_contract: "delete_contract sample_env sample_objects"
proof -
  have f: "case sample_delete_file path p s of (ret, s') \<Rightarrow> removes sample_objects path ret (snd s) (snd s')" for path p s
    by (auto simp: sample_delete_file_def sample_fail_def removes_def sample_objects_def AList.delete_eq image_iff)
  have d: "case sample_delete_directory path p s of (ret, s') \<Rightarrow> removes sample_objects path ret (snd s) (snd s')" for path p s
    by (auto simp: sample_delete_directory_def removes_def sample_objects_def AList.delete_eq image_iff)
  have "list_quiet sample_env sample_objects"
    by (auto simp: list_quiet_def pool_quiet_def sample_env_def sample_ok_def sample_objects_def sample_get_metadata_def
        sample_fail_def split: option.split)
  moreover have "SmbPath sample_env p s path = GetSmbPath None path" for p s path by (simp add: SmbPath_def sample_env_def)
  ultimately show ?thesis
    unfolding delete_contract_def Let_def by (intro conjI allI) (use f d in \<open>simp_all add: sample_env_def sample_ok_def\<close>)
qed

lemma sample_walk:
  assumes "pool_ok sample_env S"
  obtains T where "DeleteDir sample_env h p (ListDir dir) [] S = Some ((no_error, []), T)"
proof -
  have "\<exists>r T. SmbProxyFetchChildrenMetadata sample_env (children_arg h dir None) S = Some (r, T) \<and>
      fcm_children_metadata r = [] \<and> fcm_result_cookie r = None"
  proof (cases "Ok (ValidateSmbProxyBaseArg (h\<lparr>continue_on_error := True\<rparr>))")
    case False
    then show ?thesis by (simp add: SmbProxyFetchChildrenMetadata_def children_arg_def empty_children_def Let_def)
  next
    case True
    obtain po e U where g: "GetOrCreateSmbConnection sample_env (h\<lparr>continue_on_error := True\<rparr>) [] (-1) 0 S = ((po, e), U)"
      by (rule pair_fstE)
    have a: "acquire sample_env (h\<lparr>continue_on_error := True\<rparr>) [] (-1) 0 S = Some ((po, e), U)"
      using take_connection_facts(3)[OF assms g] g by (simp add: acquire_def)
    obtain V where l: "list_children sample_env q (children_arg h dir None) le W = ((Some [], None, 65535), V q le W)" for q le W
      by (auto simp: list_children_def children_arg_def sample_env_def sample_ok_def on_conn_def split: prod.split)
    show ?thesis
    proof (cases po)
      case None
      with True a show ?thesis
        by (simp add: SmbProxyFetchChildrenMetadata_def children_arg_def UnpackFromCookie_def empty_children_def Let_def)
    next
      case (Some q)
      have t: "e_talloc sample_env sz w = (Some 0, w)" "e_invalid_fnum sample_env = 65535" for sz w by (simp_all add: sample_env_def)
      from True a Some l show ?thesis
        by (simp add: SmbProxyFetchChildrenMetadata_def fetch_children_def children_done_def UnpackFromCookie_def empty_children_def t
            Let_def children_arg_def)
    qed
  qed
  then obtain r T where r: "SmbProxyFetchChildrenMetadata sample_env (children_arg h dir None) S = Some (r, T)"
    "fcm_children_metadata r = []" "fcm_result_cookie r = None" by blast
  obtain U where "DeleteEmptyDir sample_env p dir T = (no_error, U)"
    by (auto simp: DeleteEmptyDir_def sample_env_def sample_delete_directory_def on_conn_def Let_def split: prod.split)
  with r have "DeleteDir sample_env h p (ListDir dir) [] S = Some ((no_error, []), U)"
    by (subst DeleteDir.simps) (simp add: DeleteDir.simps)
  then show ?thesis by (rule that)
qed

text \<open>The sample server has the directory \<open>d\<close> and the file \<open>f\<close> beside it.\<close>

theorem DeleteEntity_stays_below_witness:
  "\<exists>T. SmbProxyDeleteEntity sample_env sample_arg ''/d'' kDirectory False (proxy_init sample_world) = Some (None, T) \<and>
     bslash # ''d'' \<in> sample_objects sample_world \<and> bslash # ''d'' \<notin> sample_objects (world T) \<and>
     bslash # ''f'' \<in> sample_objects (world T)"
proof -
  let ?S = "proxy_init sample_world"
  have "fst (fst (GetOrCreate sample_env sample_arg ?S)) = Some 0" by code_simp
  then obtain e S1 where g: "GetOrCreate sample_env sample_arg ?S = ((Some 0, e), S1)" by (metis prod.collapse)
  note S1 = take_connection_facts(1)[OF pool_ok_init g]
  have p: "GetSmbPath None (root_dir sample_arg @ ''/d'') = bslash # ''d''" by code_simp
  have v: "Ok (ValidateSmbProxyBaseArg sample_arg)" by code_simp
  obtain U where "DeleteDir sample_env sample_arg 0 (ListDir (bslash # ''d'')) [] S1 = Some ((no_error, []), U)"
    by (rule sample_walk[OF S1])
  then obtain T where d: "SmbProxyDeleteEntity sample_env sample_arg ''/d'' kDirectory False ?S = Some (None, T)"
    using g v p delete_contractD(6)[OF sample_delete_contract]
    by (simp add: SmbProxyDeleteEntity_def DeleteEntityOp_Execute_def delete_by_type_def Let_def)
  have w: "bslash # ''d'' \<in> sample_objects (world ?S)" "bslash # ''f'' \<in> sample_objects (world ?S)"
    "\<not> below (bslash # ''d'') (bslash # ''f'')"
    by (simp_all add: sample_objects_def sample_world_def proxy_init_def below_def)
  from DeleteEntity_stays_below[OF sample_delete_contract d, unfolded p] d w show ?thesis
    by (auto simp: proxy_init_def)
qed

end
