(* ===== verification/Delete_Returns.thy ===== *)
theory Delete_Returns
  imports Delete_Safety
begin

text \<open>
  The walk of \<open>ops/delete_entity_op.cc\<close> comes to an end. It recurses into every directory a listing names, so
  it ends where directories are nested finitely deep. The theory shows this for servers that accept paths up to
  some length and return a directory in one page, and that the walk, and with it every request of the service,
  gives back the connections it takes.
\<close>

subsection \<open>What the server promises\<close>

text \<open>A name in a listing is a single component of a path, and a path longer than \<open>n\<close> is no directory. The share is
  not used through DFS.\<close>

definition name_ok :: "string \<Rightarrow> bool" where
  "name_ok name \<longleftrightarrow> name \<noteq> [] \<and> list_all (\<lambda>c. \<not> is_sep c) name"

definition bounded_paths :: "'w smb_env \<Rightarrow> nat \<Rightarrow> bool" where
  "bounded_paths E n \<longleftrightarrow>
     (\<forall>x f p s. case e_list_dir E x f p s of ((names, fnum), s') \<Rightarrow> pred_option (list_all name_ok) names) \<and>
     (\<forall>path p s. case e_get_metadata E path p s of (md, s') \<Rightarrow>
        n < length path \<longrightarrow> pred_option (\<lambda>md. sm_attributes md AND kSmbAttrDirectory = 0) md) \<and>
     (\<forall>p s path. SmbPath E p s path = GetSmbPath None path) \<and>
     (word_of_int (smb_proxy_fetch_children_update_task_threshold (e_flags E)) :: uint32) \<noteq> 0"

text \<open>The server closes a directory with its first page.\<close>

definition single_page :: "'w smb_env \<Rightarrow> bool" where
  "single_page E \<longleftrightarrow> (\<forall>x f p s. case e_list_dir E x f p s of ((names, fnum), s') \<Rightarrow> fnum = e_invalid_fnum E)"

lemma bounded_pathsD:
  assumes "bounded_paths E n"
  shows "e_list_dir E x f p s = ((Some ns, fnum), s') \<Longrightarrow> list_all name_ok ns"
    "e_get_metadata E path p s = (Some md, s') \<Longrightarrow> sm_attributes md AND kSmbAttrDirectory \<noteq> 0 \<Longrightarrow> length path \<le> n"
    "SmbPath E p s path = GetSmbPath None path"
    "(word_of_int (smb_proxy_fetch_children_update_task_threshold (e_flags E)) :: uint32) \<noteq> 0"
proof -
  note b = assms[unfolded bounded_paths_def]
  show "list_all name_ok ns" if "e_list_dir E x f p s = ((Some ns, fnum), s')"
    using b[THEN conjunct1, rule_format, of x f p s] that by simp
  show "length path \<le> n" if "e_get_metadata E path p s = (Some md, s')" "sm_attributes md AND kSmbAttrDirectory \<noteq> 0"
    using b[THEN conjunct2, THEN conjunct1, rule_format, of path p s] that by (auto simp: not_less)
qed (use assms in \<open>auto simp: bounded_paths_def simp del: split_paired_All\<close>)

lemma single_pageD: "single_page E \<Longrightarrow> e_list_dir E x f p s = ((names, fnum), s') \<Longrightarrow> fnum = e_invalid_fnum E"
  unfolding single_page_def by (metis (mono_tags, lifting) case_prod_conv)

subsection \<open>Lengths of paths\<close>

lemma smb_path_loop_shorter: "length (smb_path_loop False p) \<le> Suc (length (smb_path_loop True p))"
  by (cases p) auto

lemma smb_path_loop_plain: "list_all (\<lambda>c. \<not> is_sep c) p \<Longrightarrow> smb_path_loop b p = p"
  by (induction p arbitrary: b) auto

text \<open>A child has a longer path than its directory, and no longer one than with the root directory before it.\<close>

lemma child_longer:
  assumes "GetSmbPath None dir = dir" "name_ok name"
  shows "length dir < length (GetSmbPath None (dir @ slash # name))"
proof -
  have "is_sep slash" by (simp add: is_sep_def)
  moreover have "smb_path_loop b name = name" for b
    using assms(2) by (intro smb_path_loop_plain) (simp add: name_ok_def)
  ultimately show ?thesis
    using assms by (simp add: GetSmbPath_def smb_path_loop_append name_ok_def)
qed

lemma prepended_longer: "length (GetSmbPath None p) \<le> length (GetSmbPath None (r @ p))"
proof (cases "r = [] \<or> \<not> is_sep (last r)")
  case True
  then show ?thesis by (auto simp: GetSmbPath_def smb_path_loop_append)
next
  case False
  have "length (smb_path_loop False r) \<noteq> 0" using False by (cases r) auto
  then have "length (smb_path_loop False p) \<le> length (smb_path_loop False r) + length (smb_path_loop True p)"
    using smb_path_loop_shorter[of p] by linarith
  with False show ?thesis by (simp add: GetSmbPath_def smb_path_loop_append)
qed

subsection \<open>One page\<close>

text \<open>A child the walk descends into: its path has room for one level less.\<close>

definition descends :: "nat \<Rightarrow> string \<Rightarrow> EntityMetadata \<Rightarrow> bool" where
  "descends n dir md \<longleftrightarrow>
     (md_error md = None \<and> md_type md = MdDirectory \<longrightarrow>
        length dir < length (GetSmbPath None (md_path md)) \<and> length (GetSmbPath None (md_path md)) \<le> n)"

lemma GetEntityMetadata_type:
  assumes "GetEntityMetadata E p path tgt md s = ((e, md'), s')" "Ok e" "md_type md' = MdDirectory"
  obtains src t where "e_get_metadata E path p s = (Some src, t)" "sm_attributes src AND kSmbAttrDirectory \<noteq> 0"
  using assms by (auto simp: GetEntityMetadata_def fill_metadata_def Let_def split: option.splits prod.splits if_splits)

lemma named_child_descends:
  assumes b: "bounded_paths E n" and dir: "GetSmbPath None dir = dir" and nm: "name_ok name"
    and c: "named_child E p (children_arg h dir k) (dir @ [slash] @ name) S = ((e, md), T)"
  shows "descends n dir md"
proof -
  let ?path = "dir @ [slash] @ name"
  let ?md = "(if populate_root_dir h then empty_metadata\<lparr>md_root_dir := root_dir (h\<lparr>continue_on_error := True\<rparr>)\<rparr>
    else empty_metadata)\<lparr>md_path := ?path\<rparr>"
  let ?f = "GetEntityMetadata E p (GetSmbPath None (root_dir h @ ?path)) False ?md"
  obtain e' md' U where g: "on_conn p ?f S = ((e', md'), U)" by (metis surj_pair)
  from c g have md: "md = (if Ok e' then md' else md'\<lparr>md_error := Some e'\<rparr>)"
    by (auto simp: named_child_def children_arg_def bounded_pathsD(3)[OF b] Let_def)
  have path: "md_path md = ?path"
    using on_conn_world[OF g] by (auto simp: md GetEntityMetadata_def fill_metadata_def Let_def
      split: option.splits prod.splits if_splits)
  show ?thesis
  proof (cases "Ok e' \<and> md_type md' = MdDirectory")
    case True
    then obtain src t where "e_get_metadata E (GetSmbPath None (root_dir h @ ?path)) p (sess_of p S) = (Some src, t)"
        "sm_attributes src AND kSmbAttrDirectory \<noteq> 0"
      using GetEntityMetadata_type[OF on_conn_world[OF g]] by blast
    then have "length (GetSmbPath None (root_dir h @ ?path)) \<le> n" by (rule bounded_pathsD(2)[OF b])
    with prepended_longer[of ?path "root_dir h"] child_longer[OF dir nm] path show ?thesis by (simp add: descends_def)
  qed (auto simp: descends_def md)
qed

lemma named_children_returns:
  assumes b: "bounded_paths E n" and dir: "GetSmbPath None dir = dir"
  shows "list_all name_ok names \<Longrightarrow> \<forall>md\<in>set cs. descends n dir md \<Longrightarrow>
    \<exists>cs' T. named_children E p (children_arg h dir k) ii names cs S = Some ((cs', None), T) \<and>
      (\<forall>md\<in>set cs'. descends n dir md)"
proof (induction names arbitrary: ii cs S)
  case (Cons name names)
  obtain S1 where t: "touch_task E (task_key h) ii S = Some S1"
    using bounded_pathsD(4)[OF b] by (auto simp: touch_task_def Let_def)
  obtain e md U where c: "named_child E p (children_arg h dir k) (dir @ [slash] @ name) S1 = ((e, md), U)" by (metis surj_pair)
  have "descends n dir md" using named_child_descends[OF b dir _ c] Cons.prems(1) by simp
  then have "\<forall>md\<in>set (cs @ [md]). descends n dir md" using Cons.prems(2) by auto
  with Cons.IH[of cs "Suc ii" S1] Cons.IH[of "cs @ [md]" "Suc ii" U] Cons.prems t c show ?case
    by (simp add: children_arg_def Let_def)
qed simp

definition page_ok :: "'w smb_env \<Rightarrow> nat \<Rightarrow> string \<Rightarrow> 'w proxy \<Rightarrow> SmbProxyFetchChildrenMetadataResult \<times> 'w proxy \<Rightarrow> bool" where
  "page_ok E n dir S y \<longleftrightarrow>
     fcm_result_cookie (fst y) = None \<and> (\<forall>md\<in>set (fcm_children_metadata (fst y)). descends n dir md) \<and> kept E S (snd y)"

lemma kept_free: "kept E S T \<Longrightarrow> kept E S (free_mem E m T)"
  by (rule kept_trans[OF _ kept_frame]) simp_all

lemma fetch_children_returns:
  fixes h :: SmbProxyBaseArg
  defines "h' \<equiv> h\<lparr>continue_on_error := True\<rparr>"
  assumes b: "bounded_paths E n" and sp: "single_page E" and dir: "GetSmbPath None dir = dir"
    and g: "GetOrCreate E h' S = ((Some p, e), S1)" and w: "pool_frame S1 S2"
  shows "\<exists>y. fetch_children E (children_arg h dir None) p le m S2 = Some y \<and> page_ok E n dir S y"
proof -
  let ?arg = "children_arg h dir None"
  have arg: "fcm_header ?arg = h'" "fcm_fetch_acls ?arg" by (simp_all add: children_arg_def h'_def)
  obtain names fnum S3 where l: "on_conn p (e_list_dir E le (dir_handle (conns S2 p)) p) S2 = ((names, fnum), S3)"
    by (metis surj_pair)
  note L = on_conn_world[OF l]
  have f: "pool_frame S1 S3" using w frame_on_conn[OF l] by simp
  show ?thesis
  proof (cases names)
    case None
    have "kept E S (discard_connection E h' p S3)" "kept E S (ReleaseSmbConnection E h' p True S3)"
      by (rule bracket_frames[OF g f])+
    then show ?thesis
      using None l arg by (auto simp: fetch_children_def list_children_def list_failed_def page_ok_def empty_children_def
        kept_free Let_def)
  next
    case (Some ns)
    obtain cs T where n: "named_children E p ?arg 0 ns [] S3 = Some ((cs, None), T)" "\<forall>md\<in>set cs. descends n dir md"
      using named_children_returns[OF b dir bounded_pathsD(1)[OF b L[unfolded Some]], of "[]" p h None 0 S3] by auto
    have "pool_frame S1 T" using f frame_named_children[OF n(1)] by simp
    then have "kept E S (ReleaseSmbConnection E h' p True T)" by (rule bracket_frames(1)[OF g])
    with Some l arg n single_pageD[OF sp L] show ?thesis
      by (simp add: fetch_children_def list_children_def children_done_def page_ok_def empty_children_def kept_free Let_def)
  qed
qed

lemma page_returns:
  assumes b: "bounded_paths E n" and sp: "single_page E" and dir: "GetSmbPath None dir = dir" and ok: "pool_ok E S"
  obtains y where "SmbProxyFetchChildrenMetadata E (children_arg h dir None) S = Some y" "page_ok E n dir S y"
proof -
  let ?h = "h\<lparr>continue_on_error := True\<rparr>" and ?arg = "children_arg h dir None"
  have arg: "fcm_header ?arg = ?h" "fcm_cookie ?arg = None" by (simp_all add: children_arg_def)
  note unfold = SmbProxyFetchChildrenMetadata_def UnpackFromCookie_def arg Let_def
  obtain po e S1 where g: "GetOrCreate E ?h S = ((po, e), S1)" by (rule pair_fstE)
  have a: "acquire E ?h [] (-1) 0 S = Some ((po, e), S1)"
    using take_connection_facts(3)[OF ok g] g by (simp add: acquire_def)
  have "\<exists>y. SmbProxyFetchChildrenMetadata E ?arg S = Some y \<and> page_ok E n dir S y"
  proof (cases "Ok (ValidateSmbProxyBaseArg ?h)")
    case False
    then show ?thesis by (simp add: unfold page_ok_def empty_children_def)
  next
    case valid: True
    show ?thesis
    proof (cases po)
      case None
      with valid a kept_no_connection g show ?thesis by (auto simp: unfold page_ok_def empty_children_def)
    next
      case (Some p)
      obtain x w where t: "e_talloc E (4 * kNumBytesInMB) (world S1) = (x, w)" by (rule prod.exhaust)
      have f: "pool_frame S1 (S1\<lparr>world := w\<rparr>)" by simp
      note g' = g[unfolded Some]
      show ?thesis
      proof (cases x)
        case None
        with valid a Some t bracket_frames(1)[OF g' f] show ?thesis
          by (simp add: unfold page_ok_def empty_children_def)
      next
        case (Some m)
        with valid a \<open>po = Some p\<close> t fetch_children_returns[OF b sp dir g' f] show ?thesis by (simp add: unfold)
      qed
    qed
  qed
  then show ?thesis using that by blast
qed

subsection \<open>The walk\<close>

definition walk_returns :: "'w smb_env \<Rightarrow> SmbProxyBaseArg \<Rightarrow> addr \<Rightarrow> delete_work \<Rightarrow> bool" where
  "walk_returns E h p work \<longleftrightarrow>
     (\<forall>S. pool_ok E S \<longrightarrow> (\<exists>e T. DeleteDir E h p work [] S = Some ((e, []), T) \<and> kept E S T))"

lemma walk_returnsE:
  assumes "walk_returns E h p work" "pool_ok E S"
  obtains e T where "DeleteDir E h p work [] S = Some ((e, []), T)" "kept E S T" "pool_ok E T"
  using assms unfolding walk_returns_def kept_def by blast

lemma children_return:
  assumes b: "bounded_paths E n"
    and dirs: "\<And>md. md \<in> set children \<Longrightarrow> md_error md = None \<Longrightarrow> md_type md = MdDirectory \<Longrightarrow>
      walk_returns E h p (ListDir (GetSmbPath None (md_path md)))"
  shows "walk_returns E h p (DeleteChildren dir children None)"
  using dirs
proof (induction children)
  case Nil
  show ?case unfolding walk_returns_def
  proof (intro allI impI)
    fix S
    obtain e T where d: "DeleteEmptyDir E p dir S = (e, T)" by (rule prod.exhaust)
    then have "pool_frame S T" by (auto simp: DeleteEmptyDir_def Let_def split: prod.splits dest!: frame_on_conn)
    with d show "\<exists>e T. DeleteDir E h p (DeleteChildren dir [] None) [] S = Some ((e, []), T) \<and> kept E S T"
      by (subst DeleteDir.simps) (simp add: kept_frame)
  qed
next
  case (Cons md rest)
  have rest: "walk_returns E h p (DeleteChildren dir rest None)" using Cons by simp
  show ?case unfolding walk_returns_def
  proof (intro allI impI)
    fix S
    assume ok: "pool_ok E S"
    let ?path = "GetSmbPath None (md_path md)"
    let ?child = "if md_type md = MdDirectory then DeleteDir E h p (ListDir ?path) [] S
      else case DeleteFile E p ?path S of (error, S) \<Rightarrow> Some ((error, []), S)"
    show "\<exists>e T. DeleteDir E h p (DeleteChildren dir (md # rest) None) [] S = Some ((e, []), T) \<and> kept E S T"
    proof (cases "md_error md = None")
      case False
      obtain e T where "DeleteDir E h p (DeleteChildren dir rest None) [] S = Some ((e, []), T)" "kept E S T"
        by (rule walk_returnsE[OF rest ok])
      with False show ?thesis by (subst DeleteDir.simps) simp
    next
      case True
      obtain e T where c: "?child = Some ((e, []), T)" "kept E S T" "pool_ok E T"
      proof (cases "md_type md = MdDirectory")
        case dir: True
        with Cons.prems[of md] True have "walk_returns E h p (ListDir ?path)" by simp
        with dir that show ?thesis by (auto elim: walk_returnsE[OF _ ok])
      next
        case False
        obtain e T where d: "DeleteFile E p ?path S = (e, T)" by (rule prod.exhaust)
        have "kept E S T" by (rule kept_frame[OF frame_delete_file[OF d]])
        with False d that ok show ?thesis by (simp add: kept_def)
      qed
      obtain e' T' where r: "DeleteDir E h p (DeleteChildren dir rest None) [] T = Some ((e', []), T')" "kept E T T'"
        by (rule walk_returnsE[OF rest c(3)])
      have "DeleteDir E h p (DeleteChildren dir (md # rest) None) [] S = Some (if Ok e then ((e', []), T') else ((e, []), T))"
        using True c(1) r(1) by (subst DeleteDir.simps) (auto simp: bounded_pathsD(3)[OF b] split: if_splits prod.splits)
      then show ?thesis using c(2) kept_trans[OF c(2) r(2)] by (cases "Ok e") simp_all
    qed
  qed
qed

lemma walk_dir_returns:
  assumes b: "bounded_paths E n" and sp: "single_page E"
  shows "GetSmbPath None dir = dir \<Longrightarrow> walk_returns E h p (ListDir dir)"
proof (induction "n - length dir" arbitrary: dir rule: less_induct)
  case less
  show ?case unfolding walk_returns_def
  proof (intro allI impI)
    fix S
    assume ok: "pool_ok E S"
    obtain r T where y: "SmbProxyFetchChildrenMetadata E (children_arg h dir None) S = Some (r, T)" "page_ok E n dir S (r, T)"
      using page_returns[OF b sp less.prems ok] by (metis surj_pair)
    have T: "kept E S T" "pool_ok E T" "fcm_result_cookie r = None" using y(2) ok by (auto simp: page_ok_def kept_def)
    have "walk_returns E h p (ListDir (GetSmbPath None (md_path md)))"
      if "md \<in> set (fcm_children_metadata r)" "md_error md = None" "md_type md = MdDirectory" for md
      using y(2) that by (intro less.hyps) (auto simp: page_ok_def descends_def GetSmbPath_twice)
    then have "walk_returns E h p (DeleteChildren dir (fcm_children_metadata r) None)" by (rule children_return[OF b])
    then obtain e U where "DeleteDir E h p (DeleteChildren dir (fcm_children_metadata r) None) [] T = Some ((e, []), U)" "kept E T U"
      by (rule walk_returnsE[OF _ T(2)])
    with y(1) T kept_trans show "\<exists>e T. DeleteDir E h p (ListDir dir) [] S = Some ((e, []), T) \<and> kept E S T"
      by (subst DeleteDir.simps) auto
  qed
qed

lemma delete_by_type_returns:
  assumes b: "bounded_paths E n" and sp: "single_page E" and ok: "pool_ok E S"
  obtains e T where "delete_by_type E h p path ty excl S = Some (e, T)" "kept E S T"
proof (cases ty)
  case kDirectory
  have "GetSmbPath None (GetSmbPath None path) = GetSmbPath None path" by (rule GetSmbPath_twice)
  then obtain e T where "DeleteDir E h p (ListDir (GetSmbPath None path)) [] S = Some ((e, []), T)" "kept E S T"
    by (rule walk_returnsE[OF walk_dir_returns[OF b sp] ok])
  with kDirectory that show ?thesis by (simp add: delete_by_type_def bounded_pathsD(3)[OF b])
next
  case kFile
  obtain e T where d: "delete_by_type E h p path ty excl S = Some (e, T)"
    by (cases "DeleteFile E p (SmbPath E p (sess_of p S) path) S") (simp add: delete_by_type_def kFile)
  from that[OF d kept_frame[OF frame_delete_by_type[OF d]]] kFile show ?thesis by simp
next
  case kSymLink
  obtain e T where d: "delete_by_type E h p path ty excl S = Some (e, T)"
    by (cases "DeleteEntity E p (SmbPath E p (sess_of p S) path) ty excl S") (simp add: delete_by_type_def kSymLink)
  from that[OF d kept_frame[OF frame_delete_by_type[OF d]]] kSymLink show ?thesis by simp
qed

lemma bounded_dirs_kept:
  assumes "bounded_paths E n" "single_page E"
  shows "dirs_kept E"
  unfolding dirs_kept_def
proof (intro allI impI)
  fix h p path excl S r T
  assume d: "delete_by_type E h p path kDirectory excl S = Some (r, T)"
  show "kept E S T"
  proof (cases "pool_ok E S")
    case True
    obtain e U where "delete_by_type E h p path kDirectory excl S = Some (e, U)" "kept E S U"
      by (rule delete_by_type_returns[OF assms True])
    with d show ?thesis by simp
  qed (simp add: kept_def)
qed

lemma delete_op_returns:
  assumes "bounded_paths E n" "single_page E" "pool_ok E S"
  obtains e T where "DeleteEntityOp_Execute E h path ty excl None S = Some (e, T)" "kept E S T"
proof -
  have "\<exists>e T. DeleteEntityOp_Execute E h path ty excl None S = Some (e, T)"
  proof (cases "Ok (ValidateSmbProxyBaseArg h)")
    case False
    then show ?thesis by (simp add: DeleteEntityOp_Execute_def Let_def)
  next
    case valid: True
    obtain po e S1 where g: "GetOrCreate E h S = ((po, e), S1)" by (rule pair_fstE)
    show ?thesis
    proof (cases po)
      case None
      with valid g show ?thesis by (auto simp: DeleteEntityOp_Execute_def Let_def)
    next
      case (Some p)
      obtain r T where "delete_by_type E h p path ty excl S1 = Some (r, T)"
        by (rule delete_by_type_returns[OF assms(1,2) take_connection_facts(1)[OF assms(3) g[unfolded Some]]])
      with valid g Some show ?thesis by (simp add: DeleteEntityOp_Execute_def Let_def)
    qed
  qed
  then show ?thesis using that kept_delete_op bounded_dirs_kept[OF assms(1,2)] by blast
qed

subsection \<open>Properties\<close>

text \<open>C2. No request corrupts the connection pool or keeps a connection: after every request the invariant of the
  pool still holds, and unless the response carries a cookie (or the request is \<open>SmbProxyCreateEntity\<close>) no
  connection is marked as in use that was not before. Where the request deletes a directory, the server accepts
  paths up to some length and lists a directory in one page: the walk stops at the first failure, and a failure
  between two pages leaves the connection of the pages in use.\<close>

theorem serve_returns_connections:
  assumes "pool_ok E S" "deletes_dir r \<longrightarrow> bounded_paths E n \<and> single_page E" "serve E r S = Some (resp, T)"
  shows "pool_ok E T \<and> (keeps_connection r resp \<or> active_conns T \<subseteq> active_conns S)"
  using serve_kept[OF assms(1) _ assms(3)] assms(2) bounded_dirs_kept by blast

text \<open>C7. A deletion returns and gives back the connections it took. On a server that accepts paths up to some
  length and lists a directory in one page, \<open>SmbProxyDeleteEntity\<close> answers every request, whichever calls fail:
  the recursion through the directories ends. The connection of the request and those of the listings are back
  in the pool, whose invariant holds.\<close>

theorem DeleteEntity_returns:
  assumes "bounded_paths E n" "single_page E" "pool_ok E S"
  shows "\<exists>e T. SmbProxyDeleteEntity E h path ty excl S = Some (e, T) \<and> pool_ok E T \<and> active_conns T \<subseteq> active_conns S"
proof -
  obtain e T where "DeleteEntityOp_Execute E h (root_dir h @ path) ty excl None S = Some (e, T)" "kept E S T"
    by (rule delete_op_returns[OF assms])
  then show ?thesis using assms(3) by (auto simp: SmbProxyDeleteEntity_def kept_def)
qed

text \<open>The sample server with listings: the names directly below the directory of the pattern. Paths end at
  255 characters.\<close>

definition tree_list :: "string \<Rightarrow> uint16 \<Rightarrow> (sample, string list option \<times> uint16) call" where
  "tree_list x f p s =
     ((Some (filter name_ok (map (drop (length x - 1))
         (filter (\<lambda>q. prefix (butlast x) q \<and> length q \<le> 255) (d_dirs (snd s) @ map fst (d_files (snd s)))))), 65535), s)"

definition tree_get_metadata :: "string \<Rightarrow> (sample, smbc_wrapper_entity_metadata option) call" where
  "tree_get_metadata path p s =
     (if 255 < length path then sample_fail kNtStatusObjectNameNotFound None s else sample_get_metadata path p s)"

definition tree_env :: "sample smb_env" where
  "tree_env = sample_env\<lparr>e_list_dir := tree_list, e_get_metadata := tree_get_metadata\<rparr>"

definition tree_world :: sample where
  "tree_world = \<lparr>d_clock = 1000, d_dirs = [bslash # ''d'', [bslash, CHR ''d'', bslash, CHR ''e'']],
     d_files = [(bslash # ''f'', ''hello''), ([bslash, CHR ''d'', bslash, CHR ''e'', bslash, CHR ''x''], [])]\<rparr>"

lemma tree_bounded: "bounded_paths tree_env 255"
proof -
  have "(word_of_int (smb_proxy_fetch_children_update_task_threshold (e_flags tree_env)) :: uint32) \<noteq> 0"
    by (simp add: tree_env_def sample_env_def default_flags_def)
  moreover have "list_all name_ok (filter name_ok ns)" for ns by (induction ns) simp_all
  moreover have "SmbPath tree_env p s path = GetSmbPath None path" for p s path
    by (simp add: SmbPath_def tree_env_def sample_env_def)
  ultimately show ?thesis
    by (simp add: bounded_paths_def) (simp add: tree_env_def tree_list_def tree_get_metadata_def sample_fail_def sample_env_def)
qed

lemma tree_single_page: "single_page tree_env"
  by (simp add: single_page_def tree_env_def tree_list_def sample_env_def)

theorem DeleteEntity_returns_witness:
  "\<exists>e T. SmbProxyDeleteEntity tree_env sample_arg ''/d'' kDirectory False (proxy_init tree_world) = Some (e, T) \<and>
     pool_ok tree_env T \<and> active_conns T = {}"
proof -
  have "active_conns (proxy_init tree_world) = {}" by (simp add: active_conns_def proxy_init_def)
  with DeleteEntity_returns[OF tree_bounded tree_single_page pool_ok_init, of sample_arg "''/d''" kDirectory False tree_world]
  show ?thesis by auto
qed

text \<open>The replacement of a directory by a symbolic link.\<close>

theorem serve_returns_connections_witness:
  "deletes_dir (CreateSymlinkRpc sample_arg ''/d'' ''/x'' True kDirectory) \<and>
   (\<exists>resp T. serve tree_env (CreateSymlinkRpc sample_arg ''/d'' ''/x'' True kDirectory) (proxy_init tree_world) = Some (resp, T) \<and>
      pool_ok tree_env T \<and> active_conns T = {})"
proof -
  let ?r = "CreateSymlinkRpc sample_arg ''/d'' ''/x'' True kDirectory" and ?S = "proxy_init tree_world"
  obtain e U where "DeleteEntityOp_Execute tree_env sample_arg (root_dir sample_arg @ ''/d'') kDirectory False None ?S = Some (e, U)"
    by (rule delete_op_returns[OF tree_bounded tree_single_page pool_ok_init])
  then have "serve tree_env ?r ?S = Some (map_prod ErrorReply id
      (if Ok e then CreateSymlinkOp_Start tree_env sample_arg ''/d'' ''/x'' U else (Some e, U)))"
    by (simp add: SmbProxyCreateSymlink_def)
  then obtain x T where s: "serve tree_env ?r ?S = Some (ErrorReply x, T)" by (metis map_prod_simp surj_pair)
  moreover have "active_conns ?S = {}" by (simp add: active_conns_def proxy_init_def)
  ultimately show ?thesis
    using serve_returns_connections[OF pool_ok_init _ s, of 255] tree_bounded tree_single_page s by auto
qed

end
