(* ===== verification/Request_Results.thy ===== *)
theory Request_Results
  imports Service
begin

text \<open>
  What the client learns: the results of the requests over several entities, of the requests that are
  retried on a new connection, of the verification of a share and of the requests about a task. Some of
  the theorems state behaviour that is surprising; the manifest lists these as findings.
\<close>

subsection \<open>Several entities on one connection\<close>

text \<open>The reference: the entities one after the other, up to and including the first that loses the
  connection.\<close>

fun until_retry ::
  "('e \<Rightarrow> 'w proxy \<Rightarrow> (Error \<times> 'w proxy) option) \<Rightarrow> 'e list \<Rightarrow> 'w proxy \<Rightarrow> (Error list \<times> 'w proxy) option" where
  "until_retry step [] S = Some ([], S)"
| "until_retry step (ent # ents) S =
     do { (e, S) \<leftarrow> step ent S;
          if type_of e = kRetry then Some ([e], S)
          else do { (es, S) \<leftarrow> until_retry step ents S; Some (e # es, S) } }"

definition reference_result :: "nat \<Rightarrow> Error list \<Rightarrow> Error list \<times> Error option \<times> Error option" where
  "reference_result n es =
     (es @ replicate (n - length es) (last es), find (\<lambda>e. type_of e \<noteq> kNoError) es,
      if es \<noteq> [] \<and> type_of (last es) = kRetry then Some (last es) else None)"

lemma entity_loop_lost:
  "entity_loop step ents first (Some e) S = Some ((replicate (length ents) e, first, Some e), S)"
  by (induction ents) simp_all

lemma until_retry_Nil: "until_retry step ents S = Some ([], T) \<Longrightarrow> ents = []"
  by (cases ents) (auto split: bind_splits if_splits)

lemma entity_loop_until:
  "entity_loop step ents first None S =
     map_option (\<lambda>(es, T). ((es @ replicate (length ents - length es) (last es),
         if first = None then find (\<lambda>e. type_of e \<noteq> kNoError) es else first,
         if es \<noteq> [] \<and> type_of (last es) = kRetry then Some (last es) else None), T))
       (until_retry step ents S)"
proof (induction ents arbitrary: first S)
  case (Cons ent ents)
  show ?case
  proof (cases "step ent S")
    case (Some eS)
    obtain e S1 where eS: "step ent S = Some (e, S1)" using Some by (cases eS) simp
    show ?thesis
    proof (cases "type_of e = kRetry")
      case True
      with eS show ?thesis by (simp add: entity_loop_lost)
    next
      case False
      show ?thesis
      proof (cases "until_retry step ents S1")
        case None
        with False eS Cons.IH show ?thesis by simp
      next
        case (Some r)
        obtain es T where r: "r = (es, T)" by (rule prod.exhaust)
        have "last (e # es) = (if es = [] then e else last es)" by simp
        with False eS Some r Cons.IH[of _ S1] until_retry_Nil[of step ents S1 T] show ?thesis
          by (cases "es = []") auto
      qed
    qed
  qed simp
qed simp

text \<open>C26. A request over several entities (\<open>SmbProxyWriteFilesData\<close>, \<open>SmbProxyFinalizeRestoreFiles\<close>) works
  on them in order and stops calling the server once the connection is lost: its loop gives the same
  result as handling the entities up to the first lost connection. There is one error per entity, the
  entities not handled get the error of the lost connection, and the error of the response is the first
  error of the vector.\<close>

theorem entity_loop_reference:
  "entity_loop step ents None None S =
     map_option (\<lambda>(es, T). (reference_result (length ents) es, T)) (until_retry step ents S)"
  unfolding entity_loop_until by (simp add: reference_result_def)

subsection \<open>Retries on a new connection\<close>

lemma retry_loop_type:
  assumes conn: "\<And>S e T. GetOrCreate E h S = ((None, e), T) \<Longrightarrow> type_of e \<noteq> kRetry"
  shows "retry_loop E h attempt n error path S = (Some e, T) \<Longrightarrow> type_of e \<noteq> kRetry"
proof (induction n arbitrary: error path S)
  case (Suc n)
  then show ?case using conn by (auto split: prod.splits option.splits if_splits)
qed auto

text \<open>Every attempt loses its connection.\<close>

definition always_lost ::
  "'w smb_env \<Rightarrow> SmbProxyBaseArg \<Rightarrow> (addr \<Rightarrow> string \<Rightarrow> 'w proxy \<Rightarrow> (Error option \<times> string) \<times> 'w proxy) \<Rightarrow> bool" where
  "always_lost E h attempt \<longleftrightarrow>
     (\<forall>S. fst (fst (GetOrCreate E h S)) \<noteq> None) \<and>
     (\<forall>p path S. \<exists>e. fst (fst (attempt p path S)) = Some e \<and> type_of e = kRetry)"

lemma retry_loop_lost:
  assumes "always_lost E h attempt"
  shows "type_of error = kRetry \<or> n > 0 \<Longrightarrow>
    \<exists>e T. retry_loop E h attempt n error path S = (Some e, T) \<and> type_of e = kTimeout"
proof (induction n arbitrary: error path S)
  case (Suc n)
  obtain po e S1 where "GetOrCreate E h S = ((po, e), S1)" by (rule pair_fstE)
  with assms obtain p where g: "GetOrCreate E h S = ((Some p, e), S1)"
    unfolding always_lost_def by (metis fst_conv not_Some_eq)
  obtain ro path' S2 where "attempt p path S1 = ((ro, path'), S2)" by (rule pair_fstE)
  with assms obtain er where a: "attempt p path S1 = ((Some er, path'), S2)" "type_of er = kRetry"
    unfolding always_lost_def by (metis fst_conv)
  from Suc.IH[of er] g a show ?case by simp
qed simp

text \<open>C29. Renaming hides lost connections from the client: unless no connection can be had at all, the answer
  of \<open>SmbProxyRenameEntity\<close> is never \<open>kRetry\<close>; and when every attempt loses its connection, the handler
  gives up after the configured number of attempts with \<open>kTimeout\<close>.\<close>

theorem RenameEntity_gives_up:
  assumes "\<And>S e T. GetOrCreate E h S = ((None, e), T) \<Longrightarrow> type_of e \<noteq> kRetry"
    "Ok (ValidateSmbProxyBaseArg h)" "existing \<noteq> []" "target \<noteq> []" "0 \<le> smb_proxy_file_max_write_retries (e_flags E)"
  shows "(\<forall>e T. SmbProxyRenameEntity E h existing target ty replace S = (Some e, T) \<longrightarrow> type_of e \<noteq> kRetry) \<and>
    (always_lost E h (rename_attempt E h (root_dir h @ existing) (root_dir h @ target)
        (case ty of None \<Rightarrow> SMBC_ENTITY_TYPE_REGULAR | Some t \<Rightarrow> ConvertEntityTypeToSmb t) replace) \<longrightarrow>
     (\<exists>e T. SmbProxyRenameEntity E h existing target ty replace S = (Some e, T) \<and> type_of e = kTimeout))"
proof -
  let ?at = "rename_attempt E h (root_dir h @ existing) (root_dir h @ target)
        (case ty of None \<Rightarrow> SMBC_ENTITY_TYPE_REGULAR | Some t \<Rightarrow> ConvertEntityTypeToSmb t) replace"
  have n: "0 < max_attempts E" using assms(5) by (simp add: max_attempts_def)
  have eq: "SmbProxyRenameEntity E h existing target ty replace S =
      retry_loop E h ?at (max_attempts E) (ValidateSmbProxyBaseArg h) [] S"
    using assms(2-4) by (simp add: SmbProxyRenameEntity_def Let_def)
  have "type_of e \<noteq> kRetry" if "retry_loop E h ?at (max_attempts E) (ValidateSmbProxyBaseArg h) [] S = (Some e, T)" for e T
    by (rule retry_loop_type[OF _ that]) (rule assms(1))
  then show ?thesis unfolding eq using retry_loop_lost n by blast
qed

text \<open>A server to which one can always connect, and on which every rename loses the connection.\<close>

definition dropping_env :: "sample smb_env" where
  "dropping_env = sample_env\<lparr>e_rename := (\<lambda>_ _ _ _ _. sample_fail kNtStatusConnectionDisconnected (-1))\<rparr>"

lemma connects:
  assumes ip: "\<And>x. e_is_ip E x" and c: "\<And>a b c d f p s. fst (e_create_connection E a b c d f p s) \<noteq> -1"
    and n: "0 < smb_proxy_create_connection_retry_count (e_flags E)"
  shows "fst (fst (GetOrCreate E h S)) \<noteq> None"
proof -
  have stop: "connect_loop E p h True k r s = (r, s)" if "r \<noteq> -1" for p k r s using that by (cases k) simp_all
  obtain k where k: "nat (smb_proxy_create_connection_retry_count (e_flags E)) = Suc k"
    using n by (cases "nat (smb_proxy_create_connection_retry_count (e_flags E))") auto
  have "fst (connect_loop E p h True (Suc k) (-1) s) \<noteq> -1" for p s
    using c[of "server h" "drop 1 (share h)" "username h" "password h" "domain_name h" p s]
    by (cases "e_create_connection E (server h) (drop 1 (share h)) (username h) (password h) (domain_name h) p s")
       (simp add: stop)
  then have "connect_loop E p h True (Suc k) (-1) s = (-1, s') \<Longrightarrow> False" for p s s' by (metis fst_conv)
  with k ip show ?thesis
    by (auto simp: GetOrCreateSmbConnection_def checkout_def activate_def create_connection_def on_conn_def
        sess_of_def IsIpAddress_def Let_def simp del: connect_loop.simps split: prod.split)
qed

lemma dropping_connects: "fst (fst (GetOrCreate dropping_env h S)) \<noteq> None"
  by (rule connects) (simp_all add: dropping_env_def sample_env_def default_flags_def)

theorem RenameEntity_gives_up_witness:
  "\<exists>e T. SmbProxyRenameEntity dropping_env sample_arg ''/x'' ''/y'' None False sample_proxy = (Some e, T) \<and>
     type_of e = kTimeout"
proof -
  have c: "GetOrCreate dropping_env sample_arg S = ((None, e), T) \<Longrightarrow> type_of e \<noteq> kRetry" for S e T
    using dropping_connects[of sample_arg S] by simp
  have v: "Ok (ValidateSmbProxyBaseArg sample_arg)" "0 \<le> smb_proxy_file_max_write_retries (e_flags dropping_env)"
    by code_simp+
  have "type_of (FromSmbErrorMessage kNtStatusConnectionDisconnected m) = kRetry" for m
    by (simp add: FromSmbErrorMessage_def IsConnectionUnusable_def nt_status)
  then have "always_lost dropping_env sample_arg (rename_attempt dropping_env sample_arg x y ty False)" for x y ty
    using dropping_connects
    by (simp add: always_lost_def rename_attempt_def Let_def on_conn_def smb_error_def dropping_env_def sample_fail_def
        put_sess_def upd_conn_def)
  with RenameEntity_gives_up[OF c v(1) _ _ v(2), where ty = None and replace = False and existing = "''/x''"
      and target = "''/y''" and S = sample_proxy] show ?thesis by simp
qed

subsection \<open>Verifying a share\<close>

lemma verify_addresses_stuck:
  assumes "\<not> Ok error"
  shows "\<exists>e T. verify_addresses E h as error S = ((None, e), T) \<and> \<not> Ok e"
  using assms
proof (induction as arbitrary: error S)
  case (Cons a as)
  obtain po e S1 where g: "GetOrCreate E (h\<lparr>server := a\<rparr>) S = ((po, e), S1)" by (rule pair_fstE)
  show ?case
  proof (cases po)
    case None
    with g Cons.IH[OF no_connection_error] show ?thesis by simp
  next
    case (Some p)
    obtain si S2 where "on_conn p (e_get_share_size_info E p) S1 = (si, S2)" by (rule prod.exhaust)
    with g Some Cons show ?thesis by (auto simp: Let_def smb_error_def FromSmb_not_Ok)
  qed
qed simp

lemma verify_rounds_stuck:
  assumes "\<not> Ok error"
  shows "\<exists>e T. verify_rounds E h as n error S = ((None, e), T)"
  using assms
proof (induction n arbitrary: error S)
  case (Suc n)
  obtain e T where "verify_addresses E h as error S = ((None, e), T)" "\<not> Ok e"
    using verify_addresses_stuck[OF Suc.prems, of E h as S] by blast
  with Suc.IH[of e T] show ?case by simp
qed simp

lemma verify_addresses_first:
  assumes "verify_addresses E h as error S = ((Some r, e), T)" "Ok error"
  shows "\<exists>a as' p e' S1 si S2. as = a # as' \<and> GetOrCreate E (h\<lparr>server := a\<rparr>) S = ((Some p, e'), S1) \<and>
    on_conn p (e_get_share_size_info E p) S1 = (si, S2) \<and> si_success si \<and> r = share_sizes a si"
proof (cases as)
  case (Cons a as')
  obtain po e' S1 where g: "GetOrCreate E (h\<lparr>server := a\<rparr>) S = ((po, e'), S1)" by (rule pair_fstE)
  show ?thesis
  proof (cases po)
    case None
    obtain x U where "verify_addresses E h as' e' S1 = ((None, x), U)"
      using verify_addresses_stuck[OF no_connection_error[OF g[unfolded None]], of E h as' S1] by blast
    with assms(1) g Cons None show ?thesis by simp
  next
    case (Some p)
    obtain si S2 where c: "on_conn p (e_get_share_size_info E p) S1 = (si, S2)" by (rule prod.exhaust)
    have "si_success si"
    proof (rule ccontr)
      assume f: "\<not> si_success si"
      let ?er = "smb_error p (\<lambda>m. ''Failed to query size info for share '' @ c_str (server h @ share h) @
          '', error msg: '' @ m) S2"
      have n: "\<not> Ok ?er" by (simp add: smb_error_def)
      obtain x U where "verify_addresses E h as' ?er (discard_connection E (h\<lparr>server := a\<rparr>) p S2) = ((None, x), U)"
        using verify_addresses_stuck[OF n] by blast
      with assms(1) g Cons Some c f n show False by (simp add: Let_def)
    qed
    with assms g Cons Some c show ?thesis by (auto simp: Let_def)
  qed
qed (use assms in simp)

lemma verify_addresses_none:
  assumes "verify_addresses E h as error S = ((None, e), T)" "as \<noteq> []"
  shows "\<not> Ok e"
proof -
  obtain a as' where as: "as = a # as'" using assms(2) by (cases as) auto
  obtain po e' S1 where g: "GetOrCreate E (h\<lparr>server := a\<rparr>) S = ((po, e'), S1)" by (rule pair_fstE)
  obtain er U where "verify_addresses E h as' er U = ((None, e), T)" "\<not> Ok er"
  proof (cases po)
    case None
    with that[of e' S1] assms(1) as g no_connection_error show ?thesis by fastforce
  next
    case (Some p)
    with that assms(1) as g show ?thesis by (auto simp: Let_def split: prod.splits if_splits)
  qed
  with verify_addresses_stuck[of er E h as' U] show ?thesis by auto
qed

text \<open>C30. \<open>SmbProxyVerifyShare\<close> accepts a share only through the first address of those its server name
  resolves to, in the order the set is visited: a response without an error names that address, and it carries the sizes the server reported for it.
  The loops over further addresses and further rounds can never succeed, since the error variable keeps
  the first failure.\<close>

theorem VerifyShare_first_address_only:
  assumes "SmbProxyVerifyShare E h S = Some (Inr r, T)"
  shows "\<exists>addrs w p e S1 si S2. MaybeResolveIPv4 (e_getaddrinfo E)
      (apache_util_net_dns_resolve_num_attempts (e_flags E)) (server h) (world S) = Some (addrs, w) \<and> addrs \<noteq> [] \<and>
    GetOrCreate E (h\<lparr>server := hd addrs\<rparr>) (S\<lparr>world := w\<rparr>) = ((Some p, e), S1) \<and>
    on_conn p (e_get_share_size_info E p) S1 = (si, S2) \<and> si_success si \<and> r = share_sizes (hd addrs) si"
proof -
  have v: "Ok (ValidateSmbProxyBaseArg h)"
    using assms by (auto simp: SmbProxyVerifyShare_def Let_def split: if_splits)
  then obtain addrs w where m: "MaybeResolveIPv4 (e_getaddrinfo E)
      (apache_util_net_dns_resolve_num_attempts (e_flags E)) (server h) (world S) = Some (addrs, w)"
    using assms by (auto simp: SmbProxyVerifyShare_def Let_def split: bind_splits)
  let ?er = "if addrs = [] then mk_error kInvalid (''Cannot resolve '' @ server h) else ValidateSmbProxyBaseArg h"
  obtain e U where l: "verify_rounds E h addrs (nat (smb_proxy_verify_share_retries (e_flags E) + 1)) ?er
      (S\<lparr>world := w\<rparr>) = ((Some r, e), U)"
    using assms v m by (auto simp: SmbProxyVerifyShare_def Let_def split: prod.splits option.splits)
  then obtain n where n: "nat (smb_proxy_verify_share_retries (e_flags E) + 1) = Suc n"
    by (cases "nat (smb_proxy_verify_share_retries (e_flags E) + 1)") auto
  have ok: "Ok ?er"
  proof (rule ccontr)
    assume "\<not> Ok ?er"
    from verify_rounds_stuck[OF this, of E h addrs _ "S\<lparr>world := w\<rparr>"] l show False by (metis fst_conv option.distinct(1))
  qed
  then have ne: "addrs \<noteq> []" by auto
  obtain ro e1 U1 where a: "verify_addresses E h addrs ?er (S\<lparr>world := w\<rparr>) = ((ro, e1), U1)" by (rule pair_fstE)
  have "ro = Some r"
  proof (cases ro)
    case None
    have "\<not> Ok e1" by (rule verify_addresses_none[OF a[unfolded None] ne])
    with verify_rounds_stuck[of e1 E h addrs n U1] l n a None show ?thesis by auto
  qed (use l n a in auto)
  from verify_addresses_first[OF a[unfolded this] ok] m ne show ?thesis by auto
qed

definition share_env :: "sample smb_env" where
  "share_env = sample_env\<lparr>e_flags := default_flags\<lparr>apache_util_net_dns_resolve_num_attempts := 1\<rparr>,
     e_getaddrinfo := (\<lambda>_ w. (Some [AF_INET (10, 0, 0, 7)], w))\<rparr>"

theorem VerifyShare_first_address_only_witness:
  "\<exists>r T. SmbProxyVerifyShare share_env sample_arg (proxy_init sample_world) = Some (Inr r, T) \<and>
     vs_first_working_ip r = ''10.0.0.7'' \<and>
     (\<exists>si. r = share_sizes ''10.0.0.7'' si)"
proof -
  have m: "MaybeResolveIPv4 (e_getaddrinfo share_env) (apache_util_net_dns_resolve_num_attempts (e_flags share_env))
      (server sample_arg) w = Some ([''10.0.0.7''], w)" for w
  proof -
    have "IPv4AddrToString (10, 0, 0, 7) = ''10.0.0.7''" by code_simp
    then show ?thesis by (simp add: share_env_def sample_env_def default_flags_def MaybeResolveIPv4_def)
  qed
  let ?S = "proxy_init sample_world" and ?h = "sample_arg\<lparr>server := ''10.0.0.7''\<rparr>"
  have v: "Ok (ValidateSmbProxyBaseArg sample_arg)" by code_simp
  have "fst (fst (GetOrCreate share_env ?h ?S)) \<noteq> None"
    by (rule connects) (simp_all add: share_env_def sample_env_def default_flags_def)
  then obtain p e S1 where g: "GetOrCreate share_env ?h ?S = ((Some p, e), S1)" by (metis prod.exhaust fst_conv not_Some_eq)
  obtain k where n: "nat (smb_proxy_verify_share_retries (e_flags share_env) + 1) = Suc k"
    by (simp add: share_env_def default_flags_def eval_nat_numeral)
  obtain si S2 where q: "on_conn p (e_get_share_size_info share_env p) S1 = (si, S2)" "si_success si"
    by (simp add: share_env_def sample_env_def on_conn_def sample_ok_def)
  have "\<exists>r T. SmbProxyVerifyShare share_env sample_arg ?S = Some (Inr r, T)"
    using v m g q n by (simp add: SmbProxyVerifyShare_def Let_def)
  then obtain r T where r: "SmbProxyVerifyShare share_env sample_arg ?S = Some (Inr r, T)" by blast
  with VerifyShare_first_address_only[OF r] m show ?thesis by (auto simp: share_sizes_def Let_def)
qed

subsection \<open>Requests that leave a connection behind\<close>

definition task_unused :: "string \<Rightarrow> 'w proxy \<Rightarrow> bool" where
  "task_unused key S \<longleftrightarrow> (\<forall>t. map_of (task_cache_map S) key = Some t \<longrightarrow> active_connection_map (tasks S t) = [])"

lemma take_only:
  assumes ok: "pool_ok E S" and i: "task_unused (task_key h) S"
    and g: "GetOrCreateSmbConnection E h hp (-1) 0 S = ((Some p, e), T)"
  shows "\<exists>t. map_of (task_cache_map T) (task_key h) = Some t \<and>
    active_connection_map (tasks T t) = [(creation_time_usecs (conns T p), p)]"
proof -
  obtain t S1 where t: "find_task E h S = (t, S1)" by (rule prod.exhaust)
  note F = find_task_facts[OF ok t]
  have c: "checkout E h hp (-1) 0 t S1 = ((Some p, e), T)" using g t by (simp add: GetOrCreateSmbConnection_def)
  have "active_connection_map (tasks S1 t) = []"
    using F(6) F(7)[of "task_key h" t] i by (auto simp: task_unused_def task_conns_def)
  with checkout_facts[OF F(1) live_task[OF F(2)] c] F(2) show ?thesis by (auto simp: emplace_def)
qed

text \<open>C31. \<open>SmbProxyCreateEntity\<close> never gives its connection back: the connection it takes for a task that uses
  no other one is in use after the response, and no other request put it there.\<close>

theorem CreateEntity_keeps_connection:
  assumes "pool_ok E S" "task_unused (task_key h) S" "Ok (ValidateSmbProxyBaseArg h)"
    "GetOrCreate E h S = ((Some p, e), S1)"
  shows "\<exists>r T. SmbProxyCreateEntity E h ty path S = Some (r, T) \<and> p \<in> active_conns T \<and> p \<notin> active_conns S"
proof -
  obtain t where t: "map_of (task_cache_map S1) (task_key h) = Some t" "(creation_time_usecs (conns S1 p), p) \<in>
      set (active_connection_map (tasks S1 t))"
    using take_only[OF assms(1,2,4)] by auto
  have a: "p \<in> active_conns S1" by (rule active_connsI[OF live_task[OF t(1)] t(2)])
  have "p \<notin> active_conns S"
  proof
    assume "p \<in> active_conns S"
    then obtain k u c where u: "(k, u) \<in> set (task_cache_map S)" "(c, p) \<in> set (active_connection_map (tasks S u))"
      by (rule active_connsE)
    have "p < conn_next S" using pool_okD(5)[OF assms(1) task_conns_pool[OF u(1)]] u(2) by (force simp: task_conns_def)
    moreover have "p \<notin> idle_conns S" by (rule active_not_idle[OF assms(1) u(1)]) (use u(2) in force)
    ultimately show False using take_connection_facts(4)[OF assms(1,4) refl] by simp
  qed
  moreover have "p \<in> active_conns T" if "pool_frame S1 T" for T using a pool_frame_same(3)[OF that] by simp
  moreover have "\<exists>r T. SmbProxyCreateEntity E h ty path S = Some (r, T) \<and> pool_frame S1 T"
    using assms(3,4) by (auto simp: SmbProxyCreateEntity_def acquire_def Let_def split: prod.split dest!: frame_on_conn)
  ultimately show ?thesis by blast
qed

theorem CreateEntity_keeps_connection_witness:
  "\<exists>r T. SmbProxyCreateEntity dropping_env sample_arg kFile ''/new'' (proxy_init sample_world) = Some (r, T) \<and>
     active_conns T \<noteq> {} \<and> active_conns (proxy_init sample_world) = {}"
proof -
  let ?S = "proxy_init sample_world"
  obtain p e S1 where g: "GetOrCreate dropping_env sample_arg ?S = ((Some p, e), S1)"
    using dropping_connects[of sample_arg ?S] by (metis prod.exhaust fst_conv not_Some_eq)
  have "task_unused (task_key sample_arg) ?S" by (simp add: task_unused_def proxy_init_def)
  moreover have "Ok (ValidateSmbProxyBaseArg sample_arg)" by code_simp
  moreover have "active_conns ?S = {}" by (simp add: active_conns_def proxy_init_def)
  ultimately show ?thesis
    using CreateEntity_keeps_connection[OF pool_ok_init _ _ g, of kFile "''/new''"] by auto
qed

subsection \<open>Purging a task that is in use\<close>

text \<open>C32. \<open>SmbProxyPurgeTask\<close> answers that a task with active connections cannot be purged, and forgets the
  task all the same: afterwards the task map has no entry for it, while none of its connections was shut
  down, so that no later request and no alarm can reach them.\<close>

theorem PurgeTask_forgets_busy_task:
  assumes "pool_ok E S" "key \<noteq> []" "map_of (task_cache_map S) key = Some t" "active_connection_map (tasks S t) \<noteq> []"
  shows "\<exists>e T. SmbProxyPurgeTask E key S = (Some e, T) \<and> type_of e = kInvalid \<and>
    map_of (task_cache_map T) key = None \<and> conns T = conns S \<and> world T = world S \<and>
    set (pool_conns T) \<inter> set (task_conns (tasks S t)) = {}"
proof -
  let ?T = "S\<lparr>task_cache_map := AList.delete key (task_cache_map S)\<rparr>"
  have T: "SmbProxyPurgeTask E key S = (Some (mk_error kInvalid msg_active), ?T)"
    using assms(2-4) by (simp add: SmbProxyPurgeTask_def PurgeTaskAndAllConnections_def)
  have "q \<notin> set (task_conns (tasks S t))" if q: "q \<in> set (pool_conns ?T)" for q
  proof -
    from q obtain k u where u: "(k, u) \<in> set (task_cache_map S)" "k \<noteq> key" "q \<in> set (task_conns (tasks S u))"
      by (force simp: pool_conns_def)
    have "u \<noteq> t"
      using u(1,2) live_task[OF assms(3)] pool_okD(2)[OF assms(1)] by (auto dest: task_key_unique)
    from pool_disjoint[OF assms(1) u(1) live_task[OF assms(3)] this[symmetric]] u(3) show ?thesis by blast
  qed
  with T show ?thesis by auto
qed

theorem PurgeTask_forgets_busy_task_witness:
  "\<exists>e T t. SmbProxyPurgeTask sample_env ''job'' sample_proxy = (Some e, T) \<and> type_of e = kInvalid \<and>
     map_of (task_cache_map sample_proxy) ''job'' = Some t \<and> map_of (task_cache_map T) ''job'' = None \<and>
     conns T = conns sample_proxy"
proof -
  have "map_option (\<lambda>t. active_connection_map (tasks sample_proxy t) \<noteq> []) (map_of (task_cache_map sample_proxy) ''job'') = Some True"
    by code_simp
  then obtain t where t: "map_of (task_cache_map sample_proxy) ''job'' = Some t" "active_connection_map (tasks sample_proxy t) \<noteq> []"
    by auto
  from PurgeTask_forgets_busy_task[OF sample_proxy_ok _ t] t(1) show ?thesis by auto
qed

subsection \<open>Sizes of 64 bits\<close>

lemma word_of_size_mod: "(word_of_int (sz mod 4294967296) :: uint32) = word_of_int sz"
  by (simp add: word_of_int_eq_iff take_bit_eq_mod)

lemma read_nothing: "read_all E path p off cache 0 mx 0 0 buf S = Some ((no_error, 0, buf), S)"
  by (subst read_all.simps) (simp add: CHECK_def)

lemma write_nothing: "write_all E path p x off cache 0 mx 0 0 S = Some (no_error, S)"
  by (subst write_all.simps) (simp add: CHECK_def)

text \<open>C37. The 64-bit size of a request for file data is cut to 32 bits. A request for \<open>sz\<close> bytes is served as one for
  \<open>sz mod 2 ^ 32\<close>; for a multiple of \<open>2 ^ 32\<close>, which passes the test that the size is above zero, the client is told
  without an error that it has read no bytes, or that it has written all of them when none were.\<close>

theorem data_size_wraps:
  assumes "0 < sz" "Ok (ValidateSmbProxyBaseArg h)" "ffd_header farg = h" "wfd_header warg = h" "wfd_data warg \<noteq> []"
    "\<not> wfd_is_stubbed warg" "\<not> ffd_cache_handle farg" "\<not> wfd_cache_handle warg" "GetOrCreate E h S = ((Some p, e), T)"
  shows "(0 < sz mod 2 ^ 32 \<longrightarrow>
       SmbProxyFetchFileData E (farg\<lparr>ffd_size := sz\<rparr>) S = SmbProxyFetchFileData E (farg\<lparr>ffd_size := sz mod 2 ^ 32\<rparr>) S \<and>
       SmbProxyWriteFileData E (warg\<lparr>wfd_size := sz\<rparr>) S = SmbProxyWriteFileData E (warg\<lparr>wfd_size := sz mod 2 ^ 32\<rparr>) S) \<and>
    (sz mod 2 ^ 32 = 0 \<longrightarrow>
       SmbProxyFetchFileData E (farg\<lparr>ffd_size := sz\<rparr>) S =
         Some (\<lparr>ffd_error = None, ffd_data = Some []\<rparr>, ReleaseSmbConnection E h p True T) \<and>
       SmbProxyWriteFileData E (warg\<lparr>wfd_size := sz\<rparr>) S = Some (None, ReleaseSmbConnection E h p True T))"
proof -
  have a: "acquire E h [] (-1) 0 S = Some ((Some p, e), T)" using assms(9) by (simp add: acquire_def)
  note w = word_of_size_mod[of sz]
  have z: "(word_of_int sz :: uint32) = 0" if "sz mod 2 ^ 32 = 0" using w that by simp
  show ?thesis
    using assms(1-8) a z
    by (auto simp: SmbProxyFetchFileData_def SmbProxyWriteFileData_def WriteFileDataHelper_def w read_nothing write_nothing Let_def)
qed

theorem data_size_wraps_witness:
  "\<exists>p T. SmbProxyFetchFileData sample_env \<lparr>ffd_header = sample_arg, ffd_file_path = ''/f'', ffd_offset = 0, ffd_size = 2 ^ 32,
       ffd_cache_handle = False\<rparr> (proxy_init sample_world) =
     Some (\<lparr>ffd_error = None, ffd_data = Some []\<rparr>, ReleaseSmbConnection sample_env sample_arg p True T)"
proof -
  let ?S = "proxy_init sample_world"
  let ?f = "\<lparr>ffd_header = sample_arg, ffd_file_path = ''/f'', ffd_offset = 0, ffd_size = 1, ffd_cache_handle = False\<rparr>"
  let ?w = "\<lparr>wfd_header = sample_arg, wfd_file_path = ''/f'', wfd_offset = 0, wfd_size = 1, wfd_cache_handle = False,
    wfd_data = ''x'', wfd_is_stubbed = False\<rparr>"
  have "fst (fst (GetOrCreate sample_env sample_arg ?S)) = Some 0" by code_simp
  then obtain e T where g: "GetOrCreate sample_env sample_arg ?S = ((Some 0, e), T)" by (metis prod.collapse)
  have v: "Ok (ValidateSmbProxyBaseArg sample_arg)" by code_simp
  from data_size_wraps[of "2 ^ 32" sample_arg ?f ?w, OF _ v _ _ _ _ _ _ g] show ?thesis by auto
qed

end
