(* ===== verification/Listing.thy ===== *)
theory Listing
  imports Request_Results
begin

text \<open>
  Directory listings in pages. A page that does not end the listing leaves the directory open on its
  connection and names that connection in the cookie; the request that carries the cookie continues on
  the same connection.
\<close>

text \<open>What a page with a cookie leaves behind.\<close>

lemma page_with_cookie:
  assumes f: "fetch_children E arg p list_exp m S = Some (r, T)" and c: "fcm_result_cookie r = Some c"
  shows "task_cache_map T = task_cache_map S \<and> active_connection_map (tasks T t) = active_connection_map (tasks S t) \<and>
    creation_time_usecs (conns T p) = creation_time_usecs (conns S p) \<and> dir_handle (conns T p) \<noteq> e_invalid_fnum E \<and>
    c = e_serialize_cookie E (creation_time_usecs (conns S p), children_fetched (conns T p))"
proof -
  obtain names entries fnum S1 where l: "list_children E p arg list_exp S = ((names, entries, fnum), S1)"
    by (metis prod.exhaust)
  have f1: "pool_frame S S1"
    using l by (auto simp: list_children_def Let_def split: if_splits prod.splits dest!: frame_on_conn)
  have cookie: "?thesis"
    if w: "pool_frame S1 S2" and d: "children_done E arg p fnum n cs error S2 = (r, T1)" and T: "T = free_mem E m T1"
    for S2 n cs error T1
  proof -
    have f2: "pool_frame S S2" using f1 w by simp
    have n: "fnum \<noteq> e_invalid_fnum E" "error = None"
      using d c by (auto simp: children_done_def Let_def empty_children_def split: if_splits)
    with d have T1: "T1 = upd_conn p (\<lambda>c. c\<lparr>dir_handle := fnum, children_fetched := children_fetched c + int n\<rparr>) S2"
        "r = PackToCookie E (creation_time_usecs (conns T1 p)) (children_fetched (conns T1 p))
           (empty_children\<lparr>fcm_children_metadata := cs, fcm_error := error\<rparr>)"
      by (auto simp: children_done_def Let_def)
    then show ?thesis using n c pool_frameD[OF f2] by (simp add: T free_mem_def upd_conn_def PackToCookie_def)
  qed
  have "list_failed E arg p list_exp S1 = (r, T1) \<Longrightarrow> False" for T1
    using c by (auto simp: list_failed_def Let_def empty_children_def split: if_splits)
  then show ?thesis
    using f l cookie
    by (fastforce simp: fetch_children_def Let_def split: option.splits bind_splits prod.splits
        dest: frame_named_children frame_children)
qed

text \<open>The task has no connection in use, and no connection has the creation time \<open>-1\<close>, which stands for
  the absence of a cookie.\<close>

definition task_idle :: "string \<Rightarrow> 'w proxy \<Rightarrow> bool" where
  "task_idle key S \<longleftrightarrow>
     task_unused key S \<and> (\<forall>q<conn_next S. creation_time_usecs (conns S q) \<noteq> -1)"

lemma take_alone:
  assumes ok: "pool_ok E S" and i: "task_idle (task_key h) S" and clock: "\<And>w. fst (e_now E w) \<noteq> -1"
    and g: "GetOrCreateSmbConnection E h hp (-1) 0 S = ((Some p, e), T)"
  shows "\<exists>t. map_of (task_cache_map T) (task_key h) = Some t \<and>
    active_connection_map (tasks T t) = [(creation_time_usecs (conns T p), p)] \<and> creation_time_usecs (conns T p) \<noteq> -1"
proof -
  obtain t S1 where t: "find_task E h S = (t, S1)" by (rule prod.exhaust)
  note F = find_task_facts[OF ok t]
  have c: "checkout E h hp (-1) 0 t S1 = ((Some p, e), T)" using g t by (simp add: GetOrCreateSmbConnection_def)
  have "creation_time_usecs (conns T p) \<noteq> -1"
  proof (cases "inactive_connection_list (tasks S1 t) = []")
    case True
    then have "create_connection E h t S1 = ((Some p, e), T)" using c by (simp add: checkout_def)
    then obtain w where "creation_time_usecs (conns T p) = fst (e_now E w)"
      by (auto simp: create_connection_def Let_def upd_conn_def upd_task_def GetNowInUsecs_def
          split: prod.splits if_splits) (metis fst_conv)
    with clock show ?thesis by simp
  next
    case False
    obtain q rest where pr: "pick_inactive S1 hp (inactive_connection_list (tasks S1 t)) = (q, rest)" by (rule prod.exhaust)
    obtain us vs where "inactive_connection_list (tasks S1 t) = us @ q # vs"
      using pick_inactive_split[OF False pr] by blast
    then have "q < conn_next S1"
      using pool_okD(5)[OF F(1) task_conns_pool[OF live_task[OF F(2)], of q]] by (simp add: task_conns_def)
    with i F(3,4) c False pr show ?thesis
      by (auto simp: checkout_def activate_def Let_def upd_conn_def upd_task_def GetNowInUsecs_def task_idle_def
          split: prod.splits)
  qed
  with take_only[OF ok _ g] i show ?thesis by (auto simp: task_idle_def)
qed


text \<open>A server that delivers empty pages and keeps the directory open.\<close>

definition enc_int :: "int \<Rightarrow> string" where
  "enc_int n = (if n < 0 then CHR ''-'' # replicate (nat (- n)) (CHR ''x'') else replicate (nat n) (CHR ''x''))"

definition dec_int :: "string \<Rightarrow> int" where
  "dec_int s = (if s \<noteq> [] \<and> hd s = CHR ''-'' then - int (length (tl s)) else int (length s))"

lemma dec_enc_int: "dec_int (enc_int n) = n"
  by (cases "nat n") (auto simp: dec_int_def enc_int_def)

definition paging_env :: "sample smb_env" where
  "paging_env =
     sample_env\<lparr>e_serialize_cookie := (\<lambda>(ct, n). enc_int ct @ CHR '','' # enc_int n),
       e_parse_cookie := (\<lambda>c. Some (dec_int (takeWhile (\<lambda>x. x \<noteq> CHR '','') c), dec_int (tl (dropWhile (\<lambda>x. x \<noteq> CHR '','') c)))),
       e_now := (\<lambda>w. (\<bar>d_clock w\<bar>, w\<lparr>d_clock := \<bar>d_clock w\<bar> + 1\<rparr>)),
       e_list_dirplus := (\<lambda>_ _ p. sample_ok (Some [], 7))\<rparr>"

definition sample_list_arg :: SmbProxyFetchChildrenMetadataArg where
  "sample_list_arg =
     \<lparr>fcm_header = sample_arg, fcm_path = [], fcm_cookie = None, fcm_fetch_symlink_target = False, fcm_fetch_acls = False\<rparr>"


end
