(* ===== verification/Delete_Total.thy ===== *)
theory Delete_Total
  imports Delete_Returns Listing
begin

text \<open>
  The recursive deletion of \<open>ops/delete_entity_op.cc\<close> over listings of several pages. The walk comes back for another
  page only after it has deleted what the page before named, so the objects on the share get fewer with every
  page; the paths get longer with every level. With \<open>Delete_Safety\<close> this is total correctness of the deletion.
\<close>

subsection \<open>What the server promises\<close>

text \<open>A page that leaves the directory open names an object that is there, the metadata of an object that is there
  can be queried, and a cookie the proxy has made can be read again.\<close>

definition listing_progress :: "'w smb_env \<Rightarrow> ('w \<Rightarrow> string set) \<Rightarrow> bool" where
  "listing_progress E objs \<longleftrightarrow>
     (\<forall>x f p s. case e_list_dir E x f p s of ((names, fnum), s') \<Rightarrow>
        fnum \<noteq> e_invalid_fnum E \<longrightarrow> pred_option (\<lambda>ns. \<exists>name\<in>set ns. butlast x @ name \<in> objs (snd s)) names) \<and>
     (\<forall>path p s. path \<in> objs (snd s) \<longrightarrow> fst (e_get_metadata E path p s) \<noteq> None) \<and>
     (\<forall>x. e_parse_cookie E (e_serialize_cookie E x) \<noteq> None)"

lemma listing_progressD:
  assumes "listing_progress E objs"
  shows "e_list_dir E x f p s = ((Some ns, fnum), s') \<Longrightarrow> fnum \<noteq> e_invalid_fnum E \<Longrightarrow>
      \<exists>name\<in>set ns. butlast x @ name \<in> objs (snd s)"
    "path \<in> objs (snd s) \<Longrightarrow> fst (e_get_metadata E path p s) \<noteq> None"
    "e_parse_cookie E (e_serialize_cookie E y) \<noteq> None"
proof -
  show "\<exists>name\<in>set ns. butlast x @ name \<in> objs (snd s)"
    if "e_list_dir E x f p s = ((Some ns, fnum), s')" "fnum \<noteq> e_invalid_fnum E"
    using assms[unfolded listing_progress_def, THEN conjunct1, THEN spec, of x, THEN spec, of f, THEN spec, of p, THEN spec, of s] that by simp
qed (use assms in \<open>auto simp: listing_progress_def simp del: split_paired_All split_paired_Ex not_None_eq\<close>)

text \<open>The walk lists the directories it means to only where the root directory of the request is empty, and passes over
  children the request asks to skip.\<close>

definition plain_header :: "SmbProxyBaseArg \<Rightarrow> bool" where
  "plain_header h \<longleftrightarrow> root_dir h = [] \<and> skip_metadata_vec h = []"

definition paged_server :: "'w smb_env \<Rightarrow> ('w \<Rightarrow> string set) \<Rightarrow> nat \<Rightarrow> SmbProxyBaseArg \<Rightarrow> bool" where
  "paged_server E objs n h \<longleftrightarrow>
     delete_contract E objs \<and> bounded_paths E n \<and> listing_progress E objs \<and> plain_header h"

lemma paged_serverD:
  assumes "paged_server E objs n h"
  shows "delete_contract E objs" "bounded_paths E n" "listing_progress E objs" "plain_header h" "list_quiet E objs"
  using assms delete_contractD(1)[of E objs] by (simp_all add: paged_server_def)

text \<open>A page that comes with a cookie has a child the walk will delete.\<close>

definition page_progress ::
  "'w smb_env \<Rightarrow> ('w \<Rightarrow> string set) \<Rightarrow> SmbProxyFetchChildrenMetadataResult \<Rightarrow> 'w proxy \<Rightarrow> bool" where
  "page_progress E objs r T \<longleftrightarrow>
     (\<forall>c. fcm_result_cookie r = Some c \<longrightarrow> e_parse_cookie E c \<noteq> None \<and>
        (\<exists>md\<in>set (fcm_children_metadata r). md_error md = None \<and> GetSmbPath None (md_path md) \<in> objs (world T)))"

lemma named_child_found:
  assumes w: "paged_server E objs n h" and c: "named_child E p (children_arg h dir k) path S = ((e, md), T)" and o: "GetSmbPath None path \<in> objs (world S)"
  shows "md_path md = path" "md_error md = None"
proof -
  have root: "root_dir (h\<lparr>continue_on_error := True\<rparr>) = []" using paged_serverD(4)[OF w] by (simp add: plain_header_def)
  let ?md = "(if populate_root_dir h then empty_metadata\<lparr>md_root_dir := root_dir (h\<lparr>continue_on_error := True\<rparr>)\<rparr>
    else empty_metadata)\<lparr>md_path := path\<rparr>"
  obtain e' md' U where g: "on_conn p (GetEntityMetadata E p (GetSmbPath None path) False ?md) S = ((e', md'), U)"
    by (metis surj_pair)
  have md: "md = (if Ok e' then md' else md'\<lparr>md_error := Some e'\<rparr>)"
    using c g root by (auto simp: named_child_def children_arg_def bounded_pathsD(3)[OF paged_serverD(2)[OF w]] Let_def)
  obtain src t where "e_get_metadata E (GetSmbPath None path) p (sess_of p S) = (Some src, t)"
    using listing_progressD(2)[OF paged_serverD(3)[OF w], of "GetSmbPath None path" "sess_of p S" p] o
    by (cases "e_get_metadata E (GetSmbPath None path) p (sess_of p S)") (auto simp: sess_of_def)
  then have "Ok e' \<and> md_path md' = path \<and> md_error md' = None"
    using on_conn_world[OF g]
    by (auto simp: GetEntityMetadata_def fill_metadata_def empty_metadata_def Let_def split: if_splits)
  then show "md_path md = path" "md_error md = None" by (simp_all add: md)
qed

lemma named_children_found:
  assumes w: "paged_server E objs n h" and o: "GetSmbPath None (dir @ slash # name) \<in> O'"
  shows "named_children E p (children_arg h dir k) ii names cs S = Some ((cs', e), T) \<Longrightarrow> objs (world S) = O' \<Longrightarrow>
    name \<in> set names \<or> (\<exists>md\<in>set cs. md_path md = dir @ slash # name \<and> md_error md = None) \<Longrightarrow>
    \<exists>md\<in>set cs'. md_path md = dir @ slash # name \<and> md_error md = None"
proof (induction names arbitrary: ii cs S)
  case (Cons nm names)
  obtain S1 where t: "touch_task E (task_key h) ii S = Some S1"
    using bounded_pathsD(4)[OF paged_serverD(2)[OF w]] by (auto simp: touch_task_def Let_def)
  obtain e' md U where c: "named_child E p (children_arg h dir k) (dir @ [slash] @ nm) S1 = ((e', md), U)" by (metis surj_pair)
  have v: "objs (world S1) = O'" "objs (world U) = O'"
    using touch_view[OF paged_serverD(5)[OF w] t] named_child_view(1)[OF paged_serverD(5)[OF w] c] Cons.prems(2) by simp_all
  have "named_children E p (children_arg h dir k) (Suc ii) names (cs @ [md]) U = Some ((cs', e), T)"
    using Cons.prems(1) t c paged_serverD(4)[OF w] by (auto simp: children_arg_def plain_header_def Let_def)
  moreover have "name \<in> set names \<or> (\<exists>md\<in>set (cs @ [md]). md_path md = dir @ slash # name \<and> md_error md = None)"
    using Cons.prems(3) named_child_found[OF w c] o v(1) by auto
  ultimately show ?case using Cons.IH v(2) by blast
qed auto

subsection \<open>One page\<close>

lemma no_connection_any: "GetOrCreateSmbConnection E g hp ct cf S = ((None, e), T) \<Longrightarrow> \<not> Ok e"
  by (auto simp: GetOrCreateSmbConnection_def checkout_def activate_def create_connection_def Let_def
      split: prod.splits if_splits option.splits)

lemma acquire_returns: obtains po e T where "acquire E g hp ct cf S = Some ((po, e), T)"
proof -
  obtain po e T where "GetOrCreateSmbConnection E g hp ct cf S = ((po, e), T)" by (metis surj_pair)
  with that[of po e T] no_connection_any[of E g hp ct cf S e T] show ?thesis by (cases po) (auto simp: acquire_def)
qed

text \<open>The pattern of the listing, less its star, before a name is the path of the child.\<close>

lemma pattern_child:
  assumes "GetSmbPath None dir = dir" "name_ok name"
  shows "butlast (GetSmbPath None (dir @ [bslash, CHR ''*''])) @ name = GetSmbPath None (dir @ slash # name)"
proof -
  have "is_sep slash" "is_sep bslash" "\<not> is_sep (CHR ''*'')" by (simp_all add: is_sep_def)
  moreover have "smb_path_loop b name = name" for b
    using assms(2) by (intro smb_path_loop_plain) (simp add: name_ok_def)
  ultimately show ?thesis using assms(1) by (simp add: GetSmbPath_def smb_path_loop_append butlast_append)
qed

lemma listed_progress:
  assumes w: "paged_server E objs n h" and dir: "GetSmbPath None dir = dir"
    and l: "e_list_dir E (GetSmbPath None (dir @ [bslash, CHR ''*''])) f p (sess_of p S) = ((Some ns, fnum), s)"
      "fnum \<noteq> e_invalid_fnum E"
    and c: "named_children E p (children_arg h dir k) 0 ns [] S1 = Some ((cs, e), T)" "objs (world S1) = objs (world S)"
  shows "\<exists>md\<in>set cs. md_error md = None \<and> GetSmbPath None (md_path md) \<in> objs (world T)"
proof -
  obtain name where name: "name \<in> set ns" "butlast (GetSmbPath None (dir @ [bslash, CHR ''*''])) @ name \<in> objs (world S)"
    using listing_progressD(1)[OF paged_serverD(3)[OF w] l] by (auto simp: sess_of_def)
  have "name_ok name" using bounded_pathsD(1)[OF paged_serverD(2)[OF w] l(1)] name(1) by (simp add: list_all_iff)
  then have o: "GetSmbPath None (dir @ slash # name) \<in> objs (world S)" using name(2) pattern_child[OF dir] by metis
  then obtain md where "md \<in> set cs" "md_path md = dir @ slash # name" "md_error md = None"
    using named_children_found[OF w o c(1)] c(2) name(1) by blast
  moreover have "objs (world T) = objs (world S)"
    using named_children_view[OF paged_serverD(5)[OF w] c(1)] c(2) by simp
  ultimately show ?thesis using o by auto
qed

lemma fetch_children_pages:
  assumes w: "paged_server E objs n h" and dir: "GetSmbPath None dir = dir"
  shows "\<exists>r T. fetch_children E (children_arg h dir k) p (GetSmbPath None (dir @ [bslash, CHR ''*''])) m S = Some (r, T) \<and>
    (\<forall>md\<in>set (fcm_children_metadata r). descends n dir md) \<and> page_progress E objs r T"
proof -
  let ?arg = "children_arg h dir k" and ?le = "GetSmbPath None (dir @ [bslash, CHR ''*''])"
  have arg: "fcm_fetch_acls ?arg" by (simp add: children_arg_def)
  note b = paged_serverD(2)[OF w] and q = paged_serverD(5)[OF w]
  obtain names fnum S1 where l: "on_conn p (e_list_dir E ?le (dir_handle (conns S p)) p) S = ((names, fnum), S1)"
    by (metis surj_pair)
  note L = on_conn_world[OF l]
  have v: "objs (world S1) = objs (world S)" using on_conn_view[OF l, of objs] list_quietD(4)[OF q] by blast
  show ?thesis
  proof (cases names)
    case None
    then show ?thesis using l arg
      by (auto simp: fetch_children_def list_children_def list_failed_def page_progress_def empty_children_def Let_def)
  next
    case (Some ns)
    obtain cs T where c: "named_children E p ?arg 0 ns [] S1 = Some ((cs, None), T)" "\<forall>md\<in>set cs. descends n dir md"
      using named_children_returns[OF b dir bounded_pathsD(1)[OF b L[unfolded Some]], of "[]" p h k 0 S1] by auto
    note g = listed_progress[OF w dir L[unfolded Some] _ c(1) v]
    obtain r U where d: "children_done E ?arg p fnum (length ns) cs None T = (r, U)" by (rule prod.exhaust)
    have U: "objs (world (free_mem E m U)) = objs (world T)" "fcm_children_metadata r = cs"
      using children_done_view[OF list_quietD(1)[OF q] d] list_quietD(3)[OF q] by (simp_all add: free_mem_def)
    have "e_parse_cookie E k' \<noteq> None \<and> fnum \<noteq> e_invalid_fnum E" if "fcm_result_cookie r = Some k'" for k'
      using d that listing_progressD(3)[OF paged_serverD(3)[OF w]]
      by (auto simp: children_done_def PackToCookie_def empty_children_def Let_def split: if_splits)
    then have "page_progress E objs r (free_mem E m U)" using g U by (auto simp: page_progress_def)
    with l arg Some c d U(2) show ?thesis by (auto simp: fetch_children_def list_children_def Let_def)
  qed
qed

lemma page_pages:
  assumes w: "paged_server E objs n h" and dir: "GetSmbPath None dir = dir"
    and k: "k = None \<or> e_parse_cookie E (the k) \<noteq> None"
  obtains r T where "SmbProxyFetchChildrenMetadata E (children_arg h dir k) S = Some (r, T)"
    "\<forall>md\<in>set (fcm_children_metadata r). descends n dir md" "page_progress E objs r T" "objs (world T) = objs (world S)"
proof -
  let ?h = "h\<lparr>continue_on_error := True\<rparr>" and ?arg = "children_arg h dir k"
  have arg: "fcm_header ?arg = ?h" "fcm_cookie ?arg = k" "fcm_path ?arg = dir" "root_dir h = []"
    using paged_serverD(4)[OF w] by (simp_all add: children_arg_def plain_header_def)
  obtain ct cf where u: "UnpackFromCookie E k = Some (ct, cf)" using k by (cases k) (auto simp: UnpackFromCookie_def)
  obtain po e S1 where a: "acquire E ?h [] ct cf S = Some ((po, e), S1)" by (rule acquire_returns)
  obtain x w' where t: "e_talloc E (4 * kNumBytesInMB) (world S1) = (x, w')" by (rule prod.exhaust)
  note unfold = SmbProxyFetchChildrenMetadata_def arg u Let_def bounded_pathsD(3)[OF paged_serverD(2)[OF w]]
  have "\<exists>r T. SmbProxyFetchChildrenMetadata E ?arg S = Some (r, T) \<and>
    (\<forall>md\<in>set (fcm_children_metadata r). descends n dir md) \<and> page_progress E objs r T"
  proof (cases "Ok (ValidateSmbProxyBaseArg ?h) \<and> po \<noteq> None \<and> x \<noteq> None")
    case False
    then show ?thesis using a t
      by (cases "Ok (ValidateSmbProxyBaseArg ?h)"; cases po; cases x)
         (auto simp: unfold empty_children_def page_progress_def)
  next
    case True
    then obtain p m where "Ok (ValidateSmbProxyBaseArg ?h)" "po = Some p" "x = Some m" by blast
    with a t fetch_children_pages[OF w dir] show ?thesis by (simp add: unfold)
  qed
  with that fetch_page_view[OF paged_serverD(5)[OF w]] show ?thesis by blast
qed

subsection \<open>The walk\<close>

definition cookies_ok :: "'w smb_env \<Rightarrow> (string, string) umap \<Rightarrow> bool" where
  "cookies_ok E k \<longleftrightarrow> (\<forall>(d, c)\<in>set k. e_parse_cookie E c \<noteq> None)"

lemma cookies_ok_simps [simp]:
  "cookies_ok E []" "cookies_ok E k \<Longrightarrow> cookies_ok E (AList.delete d k)"
  "cookies_ok E k \<Longrightarrow> e_parse_cookie E c \<noteq> None \<Longrightarrow> cookies_ok E (AList.update d c k)"
proof -
  show "cookies_ok E (AList.delete d k)" if "cookies_ok E k" using that by (auto simp: cookies_ok_def AList.delete_eq)
  show "cookies_ok E (AList.update d c k)" if "cookies_ok E k" "e_parse_cookie E c \<noteq> None"
    using that by (induction k) (auto simp: cookies_ok_def)
qed (simp add: cookies_ok_def)

definition walk_ends :: "'w smb_env \<Rightarrow> SmbProxyBaseArg \<Rightarrow> addr \<Rightarrow> delete_work \<Rightarrow> (string, string) umap \<Rightarrow> 'w proxy \<Rightarrow> bool" where
  "walk_ends E h p work k S \<longleftrightarrow> (\<exists>e k' T. DeleteDir E h p work k S = Some ((e, k'), T) \<and> cookies_ok E k')"

text \<open>What a page's children leave: the walk ends with an error, or all of them are gone.\<close>

definition children_gone :: "('w \<Rightarrow> string set) \<Rightarrow> EntityMetadata list \<Rightarrow> 'w proxy \<Rightarrow> 'w proxy \<Rightarrow> bool" where
  "children_gone objs children S T \<longleftrightarrow> objs (world T) \<subseteq> objs (world S) \<and>
     (\<forall>md\<in>set children. md_error md = None \<longrightarrow> GetSmbPath None (md_path md) \<notin> objs (world T))"

lemma child_deleted:
  assumes w: "paged_server E objs n h" and k: "cookies_ok E k"
    and dir: "md_type md = MdDirectory \<Longrightarrow> walk_ends E h p (ListDir (GetSmbPath None (md_path md))) k S"
  obtains e k' T where
    "(if md_type md = MdDirectory then DeleteDir E h p (ListDir (GetSmbPath None (md_path md))) k S
      else case DeleteFile E p (GetSmbPath None (md_path md)) S of (error, S) \<Rightarrow> Some ((error, k), S)) = Some ((e, k'), T)"
    "cookies_ok E k'" "objs (world T) \<subseteq> objs (world S)" "Ok e \<Longrightarrow> GetSmbPath None (md_path md) \<notin> objs (world T)"
proof (cases "md_type md = MdDirectory")
  case True
  with dir obtain e k' T where d: "DeleteDir E h p (ListDir (GetSmbPath None (md_path md))) k S = Some ((e, k'), T)" "cookies_ok E k'"
    by (auto simp: walk_ends_def)
  have "walk_post objs (ListDir (GetSmbPath None (md_path md))) S ((e, k'), T)"
    using walk_below_all[OF paged_serverD(1)[OF w]] d(1) by (simp add: GetSmbPath_twice)
  with True d that[of e k' T] show ?thesis by (simp add: walk_post_def only_below_def)
next
  case False
  obtain e T where d: "DeleteFile E p (GetSmbPath None (md_path md)) S = (e, T)" by (rule prod.exhaust)
  with False k that[of e k T] file_removed[OF paged_serverD(1)[OF w] d] show ?thesis by (simp add: only_below_def)
qed

lemma children_end:
  assumes w: "paged_server E objs n h"
    and dirs: "\<And>md k T. md \<in> set children \<Longrightarrow> md_error md = None \<Longrightarrow> md_type md = MdDirectory \<Longrightarrow> cookies_ok E k \<Longrightarrow>
      finite (objs (world T)) \<Longrightarrow> walk_ends E h p (ListDir (GetSmbPath None (md_path md))) k T"
    and k: "cookies_ok E k" and fin: "finite (objs (world S))"
    and rest: "\<And>k T. cookies_ok E k \<Longrightarrow> children_gone objs children S T \<Longrightarrow> walk_ends E h p (DeleteChildren dir [] c) k T"
  shows "walk_ends E h p (DeleteChildren dir children c) k S"
  using dirs k fin rest
proof (induction children arbitrary: k S)
  case Nil
  then show ?case by (simp add: children_gone_def)
next
  case (Cons md children)
  note sp = bounded_pathsD(3)[OF paged_serverD(2)[OF w]]
  show ?case
  proof (cases "md_error md = None")
    case False
    have "walk_ends E h p (DeleteChildren dir children c) k S"
      by (rule Cons.IH) (use Cons.prems False in \<open>auto simp: children_gone_def\<close>)
    with False show ?thesis unfolding walk_ends_def by (subst DeleteDir.simps) simp
  next
    case True
    obtain e k' T where d:
      "(if md_type md = MdDirectory then DeleteDir E h p (ListDir (GetSmbPath None (md_path md))) k S
        else case DeleteFile E p (GetSmbPath None (md_path md)) S of (error, S) \<Rightarrow> Some ((error, k), S)) = Some ((e, k'), T)"
      "cookies_ok E k'" "objs (world T) \<subseteq> objs (world S)" "Ok e \<Longrightarrow> GetSmbPath None (md_path md) \<notin> objs (world T)"
      using child_deleted[OF w Cons.prems(2), of md p S] Cons.prems(1)[of md k S] Cons.prems(2,3) True by auto
    have run: "DeleteDir E h p (DeleteChildren dir (md # children) c) k S =
      (if Ok e then DeleteDir E h p (DeleteChildren dir children c) k' T else Some ((e, k'), T))"
      using True d(1) by (subst DeleteDir.simps) (auto simp: sp split: if_splits prod.splits)
    have "walk_ends E h p (DeleteChildren dir children c) k' T" if ok: "Ok e"
    proof (rule Cons.IH)
      show "finite (objs (world T))" using d(3) Cons.prems(3) by (rule finite_subset)
      show "walk_ends E h p (DeleteChildren dir [] c) k'' U" if "cookies_ok E k''" "children_gone objs children T U" for k'' U
        using that d(3) d(4)[OF ok] by (intro Cons.prems(4)) (auto simp: children_gone_def)
    qed (use Cons.prems(1) d(2) in simp_all)
    with run d(2) show ?thesis by (auto simp: walk_ends_def)
  qed
qed

lemma walk_dir_ends:
  assumes w: "paged_server E objs n h"
  shows "GetSmbPath None dir = dir \<Longrightarrow> cookies_ok E k \<Longrightarrow> finite (objs (world S)) \<Longrightarrow> walk_ends E h p (ListDir dir) k S"
proof (induction "(n - length dir, card (objs (world S)))" arbitrary: dir k S rule: wf_induct_rule[OF wf_lex_prod[OF wf_less wf_less]])
  case less: (1 dir S k)
  have "map_of k dir = None \<or> e_parse_cookie E (the (map_of k dir)) \<noteq> None"
    using less.prems(2) by (cases "map_of k dir") (auto simp: cookies_ok_def dest: map_of_SomeD)
  then obtain r T where r: "SmbProxyFetchChildrenMetadata E (children_arg h dir (map_of k dir)) S = Some (r, T)"
    "\<forall>md\<in>set (fcm_children_metadata r). descends n dir md" "page_progress E objs r T" "objs (world T) = objs (world S)"
    by (rule page_pages[OF w less.prems(1)])
  let ?cs = "fcm_children_metadata r"
  have "walk_ends E h p (DeleteChildren dir ?cs (fcm_result_cookie r)) k T"
  proof (rule children_end[OF w])
    show "walk_ends E h p (ListDir (GetSmbPath None (md_path md))) k' U"
      if "md \<in> set ?cs" "md_error md = None" "md_type md = MdDirectory" "cookies_ok E k'" "finite (objs (world U))" for md k' U
      using that r(2) by (intro less.hyps) (auto simp: descends_def GetSmbPath_twice)
    show "walk_ends E h p (DeleteChildren dir [] (fcm_result_cookie r)) k' U"
      if k': "cookies_ok E k'" and g: "children_gone objs ?cs T U" for k' U
    proof (cases "fcm_result_cookie r")
      case None
      with k' show ?thesis unfolding walk_ends_def by (subst DeleteDir.simps) (simp split: prod.split)
    next
      case (Some c)
      then have "objs (world U) \<subset> objs (world S)" "e_parse_cookie E c \<noteq> None"
        using r(3,4) g by (auto simp: page_progress_def children_gone_def)
      then have "walk_ends E h p (ListDir dir) (AList.update dir c k') U"
        using less.prems(1,3) k' by (intro less.hyps) (auto intro: psubset_card_mono finite_subset)
      with Some show ?thesis unfolding walk_ends_def by (subst DeleteDir.simps) simp
    qed
  qed (use less.prems r(4) in simp_all)
  with r(1) show ?case unfolding walk_ends_def by (subst DeleteDir.simps) simp
qed

lemma delete_by_type_ends:
  assumes w: "paged_server E objs n h" and fin: "finite (objs (world S))"
  shows "delete_by_type E h p path ty excl S \<noteq> None"
proof (cases ty)
  case kDirectory
  have "GetSmbPath None (GetSmbPath None path) = GetSmbPath None path" by (rule GetSmbPath_twice)
  from walk_dir_ends[OF w this _ fin, of "[]" p] show ?thesis
    by (auto simp: delete_by_type_def kDirectory walk_ends_def bounded_pathsD(3)[OF paged_serverD(2)[OF w]])
qed (simp_all add: delete_by_type_def)

subsection \<open>Property\<close>


text \<open>The tree server with pages of one name, and the cookies of the paging server.\<close>

definition paged_list :: "string \<Rightarrow> uint16 \<Rightarrow> (sample, string list option \<times> uint16) call" where
  "paged_list x f p s =
     (case tree_list x f p s of
        ((Some (name # names), _), s) \<Rightarrow> ((Some [name], if names = [] then 65535 else 7), s)
      | (r, s) \<Rightarrow> (r, s))"

definition paged_env :: "sample smb_env" where
  "paged_env = tree_env\<lparr>e_list_dir := paged_list, e_now := e_now paging_env,
     e_serialize_cookie := e_serialize_cookie paging_env, e_parse_cookie := e_parse_cookie paging_env\<rparr>"

definition tree_objects :: "sample \<Rightarrow> string set" where
  "tree_objects w = {q \<in> sample_objects w. length q \<le> 255}"

definition paged_world :: sample where
  "paged_world = tree_world\<lparr>d_files := [([bslash, CHR ''d'', bslash, CHR ''y''], []), ([bslash, CHR ''d'', bslash, CHR ''z''], [])] @
     d_files tree_world\<rparr>"

lemma paged_delete_contract: "delete_contract paged_env tree_objects"
proof -
  have r: "removes tree_objects path ret w w'" if "removes sample_objects path ret w w'" for path ret w w'
    using that by (auto simp: removes_def tree_objects_def)
  have env: "e_delete_object paged_env = e_delete_object sample_env" "e_delete_directory paged_env = e_delete_directory sample_env"
    "e_delete_entity paged_env = e_delete_entity sample_env"
    by (simp_all add: paged_env_def tree_env_def)
  have f: "case e_delete_object paged_env path p s of (ret, s') \<Rightarrow> removes tree_objects path ret (snd s) (snd s')" for path p s
    unfolding env using delete_contractD(3)[OF sample_delete_contract] r by (auto split: prod.split)
  have d: "case e_delete_directory paged_env path p s of (ret, s') \<Rightarrow> removes tree_objects path ret (snd s) (snd s')" for path p s
    unfolding env using delete_contractD(4)[OF sample_delete_contract] r by (auto split: prod.split)
  have e: "case e_delete_entity paged_env path ty x p s of (ret, s') \<Rightarrow> removes tree_objects path ret (snd s) (snd s')" for path ty x p s
    unfolding env using delete_contractD(5)[OF sample_delete_contract] r by (auto split: prod.split)
  have l: "snd (snd (paged_list x f p s)) = snd s" for x f p s
    by (simp add: paged_list_def tree_list_def split: list.split)
  have q: "list_quiet paged_env tree_objects"
    unfolding list_quiet_def pool_quiet_def
    by (intro conjI allI) (simp_all add: l paged_env_def tree_env_def paging_env_def sample_env_def sample_ok_def tree_objects_def
        sample_objects_def tree_get_metadata_def sample_get_metadata_def sample_fail_def split: option.split)
  have p: "SmbPath paged_env p s path = GetSmbPath None path" for p s path
    by (simp add: SmbPath_def paged_env_def tree_env_def sample_env_def)
  show ?thesis
    unfolding delete_contract_def Let_def
    by (intro conjI allI f d e p q) (simp add: paged_env_def tree_env_def sample_env_def sample_ok_def)
qed

lemma paged_list_named:
  assumes "paged_list x f p s = ((Some ns, fnum), s')"
  shows "list_all name_ok ns" "fnum \<noteq> 65535 \<Longrightarrow> \<exists>name\<in>set ns. butlast x @ name \<in> tree_objects (snd s)"
proof -
  let ?qs = "filter (\<lambda>q. prefix (butlast x) q \<and> length q \<le> 255) (d_dirs (snd s) @ map fst (d_files (snd s)))"
  have q: "butlast x @ name \<in> tree_objects (snd s) \<and> name_ok name" if n: "name \<in> set (filter name_ok (map (drop (length x - 1)) ?qs))" for name
    using n by (auto simp: tree_objects_def sample_objects_def prefix_def intro: rev_image_eqI)
  have "list_all name_ok ns \<and> (fnum \<noteq> 65535 \<longrightarrow> (\<exists>name\<in>set ns. butlast x @ name \<in> tree_objects (snd s)))"
  proof (cases "filter name_ok (map (drop (length x - 1)) ?qs)")
    case Nil
    with assms show ?thesis by (simp add: paged_list_def tree_list_def)
  next
    case (Cons name names)
    then have "ns = [name]" using assms by (simp add: paged_list_def tree_list_def)
    moreover have "butlast x @ name \<in> tree_objects (snd s) \<and> name_ok name" by (rule q) (simp only: Cons list.set_intros)
    ultimately show ?thesis by simp
  qed
  then show "list_all name_ok ns" "fnum \<noteq> 65535 \<Longrightarrow> \<exists>name\<in>set ns. butlast x @ name \<in> tree_objects (snd s)"
    by simp_all
qed

lemma paged_server_paged_env: "paged_server paged_env tree_objects 255 sample_arg"
proof -
  have env: "e_list_dir paged_env = paged_list" "e_get_metadata paged_env = tree_get_metadata" "e_invalid_fnum paged_env = 65535"
    "e_parse_cookie paged_env = e_parse_cookie paging_env" "e_flags paged_env = default_flags"
    by (simp_all add: paged_env_def tree_env_def sample_env_def)
  have names: "case paged_list x f p s of ((names, fnum), s') \<Rightarrow> pred_option (list_all name_ok) names" for x f p s
    by (cases "paged_list x f p s"; cases "fst (fst (paged_list x f p s))") (auto dest: paged_list_named(1))
  have pages: "case paged_list x f p s of ((names, fnum), s') \<Rightarrow>
      fnum \<noteq> 65535 \<longrightarrow> pred_option (\<lambda>ns. \<exists>name\<in>set ns. butlast x @ name \<in> tree_objects (snd s)) names" for x f p s
    by (cases "paged_list x f p s"; cases "fst (fst (paged_list x f p s))") (auto dest: paged_list_named(2))
  have md: "255 < length path \<Longrightarrow> fst (tree_get_metadata path p s) = None"
      "path \<in> tree_objects (snd s) \<Longrightarrow> fst (tree_get_metadata path p s) \<noteq> None" for path p and s :: "sample sess"
    by (auto simp: tree_get_metadata_def sample_get_metadata_def sample_fail_def tree_objects_def sample_objects_def
        map_of_eq_None_iff image_iff split: option.splits)
  have "bounded_paths paged_env 255"
    unfolding bounded_paths_def env
  proof (intro conjI allI names delete_contractD(6)[OF paged_delete_contract])
    show "case tree_get_metadata path p s of (md, s') \<Rightarrow>
        255 < length path \<longrightarrow> pred_option (\<lambda>md. sm_attributes md AND kSmbAttrDirectory = 0) md" for path p s
      using md(1)[of path p s] by (cases "tree_get_metadata path p s") auto
  qed (simp add: default_flags_def)
  moreover have "listing_progress paged_env tree_objects"
    unfolding listing_progress_def env
    by (intro conjI allI impI pages md(2)) (simp_all add: paging_env_def paged_env_def)
  moreover have "plain_header sample_arg" by (simp add: plain_header_def sample_arg_def)
  ultimately show ?thesis using paged_delete_contract by (simp add: paged_server_def)
qed


end
