(* ===== verification/Restore_Results.thy ===== *)
theory Restore_Results
  imports Request_Results
begin

text \<open>
  Results of a restore: the metadata a backup has read is what a restore writes back, and the cache of
  created files saves the server calls for a file that is known to exist.
\<close>

subsection \<open>Metadata\<close>

text \<open>A time the protocol's microseconds can represent.\<close>

definition usec_time :: "timespec \<Rightarrow> bool" where
  "usec_time ts \<longleftrightarrow> 0 \<le> tv_sec ts \<and> 0 \<le> tv_nsec ts \<and> tv_nsec ts < 1000000000 \<and> tv_nsec ts mod 1000 = 0"

lemma usec_time_roundtrip:
  assumes "usec_time ts"
  shows "FillTimespecFromUsecs (ConvertTimespecToUsecs ts) = ts"
proof -
  obtain s n where ts: "ts = \<lparr>tv_sec = s, tv_nsec = n\<rparr>" by (rule timespec.cases)
  from assms have b: "0 \<le> s" "0 \<le> n" "n < 1000000000" "n mod 1000 = 0" by (simp_all add: usec_time_def ts)
  have n: "n sdiv 1000 = n div 1000" using b(2) by (simp add: signed_divide_int_def sgn_if)
  define u where "u = n div 1000"
  have u: "0 \<le> u" "u < 1000000" "u * 1000 = n" using b by (auto simp: u_def)
  have "(1000000 * s + u) sdiv 1000000 = (1000000 * s + u) div 1000000"
    "(1000000 * s + u) smod 1000000 = (1000000 * s + u) mod 1000000"
    using b(1) u(1) by (auto simp: signed_divide_int_def signed_modulo_int_def sgn_if abs_if)
  then show ?thesis using u n
    by (simp add: ts FillTimespecFromUsecs_def ConvertTimespecToUsecs_def kNumUsecsInSec_def kNumNsecsInUsec_def
        u_def[symmetric])
qed



subsection \<open>The cache of created files\<close>

definition fh_caches_ok :: "'w proxy \<Rightarrow> bool" where
  "fh_caches_ok S \<longleftrightarrow> (\<forall>k a. map_of (file_handles_map S) k = Some a \<longrightarrow> lru_inv (fh_cache (fhes S a)))"

definition known :: "addr \<Rightarrow> string \<Rightarrow> 'w proxy \<Rightarrow> bool" where
  "known a path S \<longleftrightarrow> (\<exists>fh. lru_find path (fh_cache (fhes S a)) = Some fh \<and> Ok (fhe_error fh))"

text \<open>The parts of the state the cache consists of.\<close>

definition cache_view :: "'w proxy \<Rightarrow> (addr \<Rightarrow> FileHandlesEntry) \<times> (string, addr) umap" where
  "cache_view S = (fhes S, file_handles_map S)"

lemma cache_view_quiet: "quiet S T \<Longrightarrow> cache_view T = cache_view S"
  by (simp add: cache_view_def quietD)

lemma cache_view_calls:
  "on_conn p f S = (r, T) \<Longrightarrow> cache_view T = cache_view S"
  "GetNowInUsecs E S = (t, T) \<Longrightarrow> cache_view T = cache_view S"
  "try_conn p g S = Some (r', T) \<Longrightarrow> cache_view T = cache_view S"
  "cache_view (lock_path path S) = cache_view S" "cache_view (release_op held S) = cache_view S"
  by (auto simp: quiet_now try_conn_def lock_path_def release_op_def unlock_path_def
      intro: cache_view_quiet[OF quiet_on_conn] cache_view_quiet[OF quiet_put_sess] cache_view_quiet
      split: bind_splits prod.splits option.splits) (simp_all add: cache_view_def)

lemma lookup_again:
  assumes "lru_inv c"
  shows "lru_inv (snd (LRUCache_Lookup k c))" "lru_find k (snd (LRUCache_Lookup k c)) = lru_find k c"
proof -
  show i: "lru_inv (snd (LRUCache_Lookup k c))" by (rule Lookup_facts(1)[OF assms])
  show "lru_find k (snd (LRUCache_Lookup k c)) = lru_find k c"
    using Lookup_facts[OF assms, of k] Lookup_facts(3)[OF i, of k]
    by (cases "map_of (lru_abs c) k") (simp_all add: lru_find_def lru_touch_def)
qed

text \<open>What the steps of the operation do to the entry \<open>a\<close>.\<close>

lemma lookup_step:
  assumes l: "LookupFileHandle E a path S = (r, T)" and i: "lru_inv (fh_cache (fhes S a))"
  shows "lru_inv (fh_cache (fhes T a)) \<and> file_handles_map T = file_handles_map S \<and>
    (\<forall>e c. r = Some (e, c) \<and> Ok e \<longrightarrow> known a path T)"
proof -
  let ?c = "fh_cache (fhes S a)"
  let ?S = "upd_fhe a (\<lambda>e. e\<lparr>fh_cache := snd (LRUCache_Lookup path ?c)\<rparr>) S"
  have v: "cache_view T = cache_view ?S"
    using l by (auto simp: LookupFileHandle_def IsErrorStale_def Let_def split: prod.splits option.splits if_splits
        dest!: cache_view_calls(2))
  then have T: "fhes T a = (fhes S a)\<lparr>fh_cache := snd (LRUCache_Lookup path ?c)\<rparr>" "file_handles_map T = file_handles_map S"
    by (simp_all add: cache_view_def upd_fhe_def)
  have "known a path T" if "r = Some (e, c)" "Ok e" for e c
  proof -
    have "\<exists>fh. fst (LRUCache_Lookup path ?c) = Some fh \<and> Ok (fhe_error fh)"
      using l that by (auto simp: LookupFileHandle_def Let_def split: prod.splits option.splits if_splits)
    then show ?thesis using lookup_again(2)[OF i, of path] by (simp add: known_def T lru_find_def)
  qed
  then show ?thesis using T lookup_again(1)[OF i] by auto
qed

lemma locked_step:
  assumes f: "FetchFileHandleLocked E p a path cr S = Some ((error, cached), T)" and ok: "Ok error"
    and i: "lru_inv (fh_cache (fhes S a))"
  shows "known a path T \<and> file_handles_map T = file_handles_map S"
proof -
  obtain r S1 where l: "LookupFileHandle E a path S = (r, S1)" by (rule prod.exhaust)
  note L = lookup_step[OF l i]
  show ?thesis
  proof (cases r)
    case (Some x)
    with f l L ok show ?thesis by (cases x) (simp add: FetchFileHandleLocked_def)
  next
    case None
    with f l ok obtain e2 S2 S3 where S2: "cache_view S2 = cache_view S1" and
        o: "open_or_create E p path S2 = (error, S3)" and T: "T = AddToLRUCache E a path error S3"
      by (auto simp: FetchFileHandleLocked_def Let_def split: bind_splits if_splits prod.splits dest!: cache_view_calls(3))
    have "cache_view S3 = cache_view S2"
      using o by (auto simp: open_or_create_def Let_def split: prod.splits if_splits dest!: cache_view_calls(1))
    with S2 L have S3: "lru_inv (fh_cache (fhes S3 a))" "file_handles_map S3 = file_handles_map S"
      by (simp_all add: cache_view_def)
    have "0 < lru_cap (fh_cache (fhes S3 a))" using S3(1) by (simp add: lru_inv_def lru_cap_def)
    from lru.find_ins_same[OF S3(1) this] S3(2) ok show ?thesis
      by (simp add: T AddToLRUCache_def Let_def known_def upd_fhe_def)
  qed
qed

lemma entry_step:
  assumes g: "GetFileHandlesEntry E key S = Some (a, T)" and ok: "fh_caches_ok S"
    and n: "smb_proxy_task_file_handles_cache_size (e_flags E) < 2 ^ 63"
  shows "lru_inv (fh_cache (fhes T a)) \<and> map_of (file_handles_map T) key = Some a"
proof (cases "map_of (file_handles_map S) key")
  case (Some b)
  with g ok show ?thesis
    by (auto simp: GetFileHandlesEntry_def GetNowInUsecs_def fh_caches_ok_def Let_def split: prod.splits)
next
  case None
  with g obtain e where e: "new_FileHandlesEntry E = Some e" by (auto simp: GetFileHandlesEntry_def split: bind_splits)
  then have "lru_inv (fh_cache e)"
    using n lru_new_inv[of "smb_proxy_task_file_handles_cache_size (e_flags E)"]
    by (auto simp: new_FileHandlesEntry_def LRUCache_new_def split: bind_splits if_splits)
  with g None e show ?thesis
    by (auto simp: GetFileHandlesEntry_def GetNowInUsecs_def Let_def map_of_emplace split: prod.splits)
qed

text \<open>C24. A file that \<open>FetchFileHandleOp\<close> has found or created is not looked for again: after an execution
  without an error, the next one for the same path of the same task answers that the file is cached,
  holds no lock and makes no call on any connection; it only reads the clock.\<close>

theorem FetchFileHandle_cached:
  assumes "fh_caches_ok S" "smb_proxy_task_file_handles_cache_size (e_flags E) < 2 ^ 63" "fixed_path E p path smb_path"
    "FetchFileHandleOp_Execute E p key path cr S = Some ((error, cached, held), T)" "Ok error"
  shows "\<exists>U. FetchFileHandleOp_Execute E p key path cr (release_op held T) = Some ((no_error, True, None), U) \<and>
    world U = snd (e_now E (world T)) \<and> conns U = conns T"
proof -
  let ?key = "GetSmbPath None key"
  have sp: "SmbPath E p s path = smb_path" for s using assms(3) unfolding fixed_path_def by blast
  obtain a S1 where g: "GetFileHandlesEntry E ?key S = Some (a, S1)" and
      f: "FetchFileHandle E p a smb_path cr S1 = Some ((error, cached, held), T)"
    using assms(4) by (auto simp: FetchFileHandleOp_Execute_def sp Let_def split: bind_splits)
  note G = entry_step[OF g assms(1,2)]
  obtain r S2 where l: "LookupFileHandle E a smb_path S1 = (r, S2)" by (rule prod.exhaust)
  have L: "lru_inv (fh_cache (fhes S2 a))" "file_handles_map S2 = file_handles_map S1"
      "\<And>e c. r = Some (e, c) \<Longrightarrow> Ok e \<Longrightarrow> known a smb_path S2"
    using lookup_step[OF l] G by blast+
  have "known a smb_path T \<and> file_handles_map T = file_handles_map S1"
  proof (cases r)
    case (Some x)
    with f l L assms(5) show ?thesis by (cases x) (simp add: FetchFileHandle_def)
  next
    case None
    with f l obtain c where k: "FetchFileHandleLocked E p a smb_path cr (lock_path smb_path S2) = Some ((error, c), T)"
      by (auto simp: FetchFileHandle_def split: bind_splits)
    have "lru_inv (fh_cache (fhes (lock_path smb_path S2) a))" "file_handles_map (lock_path smb_path S2) = file_handles_map S1"
      using L cache_view_calls(4)[of smb_path S2] by (simp_all add: cache_view_def)
    with locked_step[OF k assms(5)] show ?thesis by simp
  qed
  moreover have "fhes (release_op held T) = fhes T" "file_handles_map (release_op held T) = file_handles_map T"
      "world (release_op held T) = world T" "conns (release_op held T) = conns T"
    by (simp_all add: release_op_def unlock_path_def split: option.split)
  moreover obtain fh where "lru_find smb_path (fh_cache (fhes T a)) = Some fh" "Ok (fhe_error fh)"
    using calculation(1) by (auto simp: known_def)
  moreover obtain now w where "e_now E (world T) = (now, w)" by (rule prod.exhaust)
  moreover obtain lk c' where "LRUCache_Lookup smb_path (fh_cache (fhes T a)) = (lk, c')" by (rule prod.exhaust)
  ultimately show ?thesis using G
    by (simp add: FetchFileHandleOp_Execute_def GetFileHandlesEntry_def GetNowInUsecs_def FetchFileHandle_def
        LookupFileHandle_def sp Let_def lru_find_def upd_fhe_def)
qed

theorem FetchFileHandle_cached_witness:
  "\<exists>error held T U. FetchFileHandleOp_Execute sample_env 0 ''job'' ''/f'' False (proxy_init sample_world) = Some ((error, False, held), T) \<and>
     FetchFileHandleOp_Execute sample_env 0 ''job'' ''/f'' False (release_op held T) = Some ((no_error, True, None), U)"
proof -
  have "map_option (\<lambda>((e, c, h), T). (Ok e, c)) (FetchFileHandleOp_Execute sample_env 0 ''job'' ''/f'' False (proxy_init sample_world)) =
      Some (True, False)" by code_simp
  then obtain error held T where f: "FetchFileHandleOp_Execute sample_env 0 ''job'' ''/f'' False (proxy_init sample_world) =
      Some ((error, False, held), T)" "Ok error" by auto
  have "file_handles_map (proxy_init sample_world) = []" by code_simp
  then have c: "fh_caches_ok (proxy_init sample_world)" by (simp add: fh_caches_ok_def)
  have n: "smb_proxy_task_file_handles_cache_size (e_flags sample_env) < 2 ^ 63" by code_simp
  from FetchFileHandle_cached[OF c n sample_fixed_path f] f show ?thesis by blast
qed

end
