(* ===== verification/Scoped_Runner.thy ===== *)
theory Scoped_Runner
  imports Prelude
begin

text \<open>
  \<open>ScopedRunner\<close> of \<open>apache_util/base/scoped_runner.h\<close>: a callback that runs when the object goes out of
  scope. The callback is a function on the state it works on; an empty \<^verbatim>\<open>std::function\<close> is \<open>None\<close>.
  Each operation returns the object, or both objects, as it leaves them, with the state.
\<close>

type_synonym 's ScopedRunner = "('s \<Rightarrow> 's) option"

definition Run :: "'s ScopedRunner \<Rightarrow> 's \<Rightarrow> 's ScopedRunner \<times> 's" where
  "Run r s = (case r of None \<Rightarrow> (None, s) | Some cb \<Rightarrow> (None, cb s))"

definition ScopedRunner_dtor :: "'s ScopedRunner \<Rightarrow> 's \<Rightarrow> 's" where
  "ScopedRunner_dtor r s = snd (Run r s)"

definition Reset :: "'s ScopedRunner \<Rightarrow> 's ScopedRunner \<Rightarrow> 's ScopedRunner" where
  "Reset cb r = cb"

definition IsEmpty :: "'s ScopedRunner \<Rightarrow> bool" where
  "IsEmpty r \<longleftrightarrow> r = None"

text \<open>The move constructor and the move assignment; a moved-from function object is empty.\<close>

definition move_construct :: "'s ScopedRunner \<Rightarrow> 's ScopedRunner \<times> 's ScopedRunner" where
  "move_construct other = (other, None)"

definition move_assign :: "'s ScopedRunner \<Rightarrow> 's ScopedRunner \<Rightarrow> 's ScopedRunner \<times> 's ScopedRunner" where
  "move_assign this other = (other, None)"

datatype 's runner_op = OpRun | OpReset "'s ScopedRunner"

fun runner_step :: "'s runner_op \<Rightarrow> 's ScopedRunner \<times> 's \<Rightarrow> 's ScopedRunner \<times> 's" where
  "runner_step OpRun (r, s) = Run r s"
| "runner_step (OpReset cb) (r, s) = (Reset cb r, s)"

text \<open>The callback installed last and not yet run.\<close>

fun pending :: "'s runner_op list \<Rightarrow> 's ScopedRunner \<Rightarrow> 's ScopedRunner" where
  "pending [] r = r"
| "pending (OpRun # ops) r = pending ops None"
| "pending (OpReset cb # ops) r = pending ops cb"

lemma fold_runner_pending: "fst (fold runner_step ops (r, s)) = pending ops r"
proof (induction ops arbitrary: r s)
  case (Cons op ops)
  obtain r' s' where "runner_step op (r, s) = (r', s')" by (rule prod.exhaust)
  with Cons.IH[of r' s'] show ?case by (cases op) (auto simp: Run_def Reset_def split: option.splits)
qed simp

text \<open>C39. A callback runs at most once: after any sequence of runs and resets the destructor runs exactly the
  callback installed last if it has not run yet, so an explicit \<open>Run\<close> before the end of the scope leaves
  nothing to do, and moving a runner hands the callback over without running it twice.\<close>

theorem ScopedRunner_runs_once:
  "(case fold runner_step ops (r, s) of (r', s') \<Rightarrow>
      ScopedRunner_dtor r' s' = (case pending ops r of None \<Rightarrow> s' | Some cb \<Rightarrow> cb s') \<and>
      ScopedRunner_dtor (fst (Run r' s')) (snd (Run r' s')) = ScopedRunner_dtor r' s' \<and>
      IsEmpty (fst (Run r' s')) \<and>
      (let (new, old) = move_construct r'
       in ScopedRunner_dtor new (ScopedRunner_dtor old s') = ScopedRunner_dtor r' s'))"
  using fold_runner_pending[of ops r s]
  by (auto simp: ScopedRunner_dtor_def Run_def IsEmpty_def move_construct_def split: prod.split option.split)

end
