(* ===== verification/Grpc_Context.thy ===== *)
theory Grpc_Context
  imports Prelude "HOL-Library.Multiset"
begin

text \<open>
  The life cycle of a request in the asynchronous gRPC service (\<open>grpclib/grpc_async_service.h\<close> and
  \<open>grpc_async_service.cc\<close>): a context object asks the runtime for a request (CREATE), serves it (PROCESS)
  and frees itself once the response is sent (FINISH). Its address is the tag of the operation it has
  started on the completion queue. A context serves one method; the one it creates to take its place serves the
  same. The runtime is a parameter: it delivers every started operation at
  most once, in any order, with either outcome. The handler's work is an element appended to \<open>served\<close>.
\<close>

datatype CallStatus = CREATE | PROCESS | FINISH

text \<open>Live contexts and their methods, the operations the runtime has not yet delivered, the requests served, and the flag
  that is cleared when a shutdown begins.\<close>

record grpc_state =
  ctxs :: "addr \<Rightarrow> CallStatus option"
  ctx_method :: "addr \<Rightarrow> string"
  ctx_next :: addr
  outstanding :: "addr multiset"
  served :: "addr list"
  server_started :: bool

definition grpc_start :: grpc_state where
  "grpc_start =
     \<lparr>ctxs = Map.empty, ctx_method = (\<lambda>_. []), ctx_next = 0, outstanding = {#}, served = [], server_started = True\<rparr>"

definition grpc_init :: "grpc_state \<Rightarrow> bool" where
  "grpc_init G \<longleftrightarrow> G = grpc_start"

definition new_context :: "string \<Rightarrow> grpc_state \<Rightarrow> addr \<times> grpc_state" where
  "new_context m G =
     (ctx_next G, G\<lparr>ctxs := (ctxs G)(ctx_next G \<mapsto> CREATE), ctx_method := (ctx_method G)(ctx_next G := m),
                    ctx_next := Suc (ctx_next G)\<rparr>)"

definition delete_context :: "addr \<Rightarrow> grpc_state \<Rightarrow> grpc_state" where
  "delete_context a G = G\<lparr>ctxs := (ctxs G)(a := None)\<rparr>"

text \<open>The CREATE step: \<^verbatim>\<open>start_request_fn_\<close> registers the context with the queue.\<close>

definition start_request :: "addr \<Rightarrow> grpc_state \<Rightarrow> grpc_state" where
  "start_request a G = G\<lparr>outstanding := add_mset a (outstanding G), ctxs := (ctxs G)(a \<mapsto> PROCESS)\<rparr>"

text \<open>\<open>Proceed\<close>; \<open>None\<close> is the call on an object that has been freed.\<close>

definition Proceed :: "bool \<Rightarrow> addr \<Rightarrow> grpc_state \<Rightarrow> grpc_state option" where
  "Proceed ok a G =
     (case ctxs G a of
        None \<Rightarrow> None
      | Some CREATE \<Rightarrow> Some (start_request a G)
      | Some PROCESS \<Rightarrow>
          let (b, G) = new_context (ctx_method G a) G;
              G = start_request b G
          in if \<not> ok then Some (delete_context a G)
             else Some (G\<lparr>served := served G @ [a], outstanding := add_mset a (outstanding G),
                          ctxs := (ctxs G)(a \<mapsto> FINISH)\<rparr>)
      | Some FINISH \<Rightarrow> Some (delete_context a G))"

text \<open>\<^verbatim>\<open>REGISTER_GRPC_METHOD\<close>: a first context for a method.\<close>

definition register_method :: "string \<Rightarrow> grpc_state \<Rightarrow> grpc_state option" where
  "register_method m G = (let (a, G) = new_context m G in Proceed True a G)"

text \<open>One iteration of the polling loop, for the next event of the queue; \<open>False\<close> leaves the loop. A failed
  event after the shutdown has begun ends the loop without looking at the context.\<close>

definition poll_event :: "bool \<Rightarrow> addr \<Rightarrow> grpc_state \<Rightarrow> (bool \<times> grpc_state) option" where
  "poll_event ok a G =
     (let G = G\<lparr>outstanding := outstanding G - {#a#}\<rparr>
      in if \<not> ok \<and> \<not> server_started G then Some (False, G)
         else map_option (Pair True) (Proceed ok a G))"

text \<open>\<open>StopServer\<close>: the flag is cleared, then the runtime delivers what is left on the queue, and every tag
  the draining loop gets is deleted.\<close>

definition stop_server :: "grpc_state \<Rightarrow> grpc_state" where
  "stop_server G = G\<lparr>server_started := False\<rparr>"

definition drain_event :: "addr \<Rightarrow> grpc_state \<Rightarrow> grpc_state" where
  "drain_event a G = delete_context a (G\<lparr>outstanding := outstanding G - {#a#}\<rparr>)"

fun drain :: "addr list \<Rightarrow> grpc_state \<Rightarrow> grpc_state" where
  "drain [] G = G"
| "drain (a # as) G = drain as (drain_event a G)"

subsection \<open>The service\<close>

text \<open>The polling threads register methods and handle events; the thread that stops the server drains the
  queue beside them.\<close>

inductive grpc_step :: "grpc_state \<Rightarrow> grpc_state \<Rightarrow> bool" where
  registers: "register_method m G = Some G' \<Longrightarrow> grpc_step G G'"
| event: "a \<in># outstanding G \<Longrightarrow> poll_event ok a G = Some (again, G') \<Longrightarrow> grpc_step G G'"
| stop: "grpc_step G (stop_server G)"
| drains: "\<not> server_started G \<Longrightarrow> a \<in># outstanding G \<Longrightarrow> grpc_step G (drain_event a G)"

inductive_cases grpc_stepE: "grpc_step G G'"

definition live :: "grpc_state \<Rightarrow> addr set" where
  "live G = {a. ctxs G a \<noteq> None}"

text \<open>The contexts that wait for a request of a method.\<close>

definition listening :: "string \<Rightarrow> grpc_state \<Rightarrow> addr set" where
  "listening m G = {a. ctxs G a = Some PROCESS \<and> ctx_method G a = m}"

abbreviation waiting :: "grpc_state \<Rightarrow> addr set" where
  "waiting G \<equiv> set_mset (outstanding G)"

definition grpc_inv :: "grpc_state \<Rightarrow> bool" where
  "grpc_inv G \<longleftrightarrow>
     finite (live G) \<and> outstanding G = mset_set (waiting G) \<and> waiting G \<subseteq> live G \<and>
     (server_started G \<longrightarrow> waiting G = live G) \<and> (\<forall>a\<in>live G. a < ctx_next G) \<and>
     (\<forall>a. ctxs G a \<noteq> Some CREATE) \<and> distinct (served G) \<and>
     (\<forall>a\<in>set (served G). a < ctx_next G \<and> ctxs G a \<noteq> Some PROCESS)"

lemma grpc_invD:
  assumes "grpc_inv G"
  shows "finite (live G)" "outstanding G = mset_set (waiting G)" "ctxs G (ctx_next G) = None"
    "ctxs G a \<noteq> Some CREATE" "distinct (served G)" "a \<in> set (served G) \<Longrightarrow> a < ctx_next G \<and> ctxs G a \<noteq> Some PROCESS"
    "a \<in># outstanding G \<Longrightarrow> ctxs G a \<noteq> None" "waiting G \<subseteq> live G" "ctx_next G \<notin> live G"
  using assms by (auto simp: grpc_inv_def live_def)

text \<open>The invariant of a state given the waiting contexts as a set.\<close>

lemma grpc_invI:
  assumes "outstanding G = mset_set X" "finite (live G)" "X \<subseteq> live G" "server_started G \<Longrightarrow> X = live G"
    "\<And>a. a \<in> live G \<Longrightarrow> a < ctx_next G" "\<And>a. ctxs G a \<noteq> Some CREATE" "distinct (served G)"
    "\<And>a. a \<in> set (served G) \<Longrightarrow> a < ctx_next G \<and> ctxs G a \<noteq> Some PROCESS"
  shows "grpc_inv G"
proof -
  have "finite X" using assms(2,3) by (rule finite_subset[rotated])
  then have "waiting G = X" using assms(1) by simp
  with assms show ?thesis unfolding grpc_inv_def by auto
qed

lemma finite_listening: "grpc_inv G \<Longrightarrow> finite (listening m G)"
  by (rule finite_subset[OF _ grpc_invD(1)]) (auto simp: listening_def live_def)

lemma register_facts:
  assumes "grpc_inv G"
  shows "\<exists>G'. register_method m G = Some G' \<and> grpc_inv G' \<and> waiting G' = insert (ctx_next G) (waiting G) \<and>
    live G' = insert (ctx_next G) (live G) \<and> server_started G' = server_started G \<and>
    card (listening k G') = card (listening k G) + (if k = m then 1 else 0)"
proof -
  note i = grpc_invD[OF assms(1)]
  let ?b = "ctx_next G"
  define G' where "G' = G\<lparr>ctx_next := Suc ?b, outstanding := add_mset ?b (outstanding G), ctxs := (ctxs G)(?b \<mapsto> PROCESS),
    ctx_method := (ctx_method G)(?b := m)\<rparr>"
  have r: "register_method m G = Some G'"
    by (simp add: G'_def register_method_def new_context_def Proceed_def start_request_def)
  have l: "live G' = insert ?b (live G)" by (auto simp: G'_def live_def)
  have "grpc_inv G'"
  proof (rule grpc_invI[of _ "insert ?b (waiting G)"])
    have "?b \<notin> waiting G" using i(8,9) by blast
    then show "outstanding G' = mset_set (insert ?b (waiting G))" using i(2) by (simp add: G'_def)
  qed (use assms(1) l i(1) in \<open>auto simp: G'_def grpc_inv_def less_Suc_eq\<close>)
  moreover have "listening k G' = (if k = m then insert ?b (listening k G) else listening k G)" "?b \<notin> listening k G"
    using i(3) by (auto simp: listening_def G'_def)
  ultimately show ?thesis using r l finite_listening[OF assms] by (auto simp: G'_def)
qed

text \<open>Dropping a tag, with or without its context.\<close>

lemma drop_facts:
  assumes i: "grpc_inv G" and a: "a \<in># outstanding G"
  shows "outstanding G - {#a#} = mset_set (waiting G - {a})" "a \<in> live G" "a < ctx_next G"
    "grpc_inv (drain_event a G)"
    "\<not> server_started G \<Longrightarrow> grpc_inv (G\<lparr>outstanding := outstanding G - {#a#}\<rparr>)"
proof -
  note d = grpc_invD[OF i]
  have fw: "finite (waiting G)" by simp
  show out: "outstanding G - {#a#} = mset_set (waiting G - {a})"
    by (subst d(2)) (use a fw in \<open>simp add: mset_set_Diff\<close>)
  show la: "a \<in> live G" using d(8) a by blast
  then show "a < ctx_next G" using i by (simp add: grpc_inv_def)
  have l: "live (drain_event a G) = live G - {a}" by (auto simp: live_def drain_event_def delete_context_def)
  show "grpc_inv (drain_event a G)"
    by (rule grpc_invI[of _ "waiting G - {a}"])
       (use i out l in \<open>auto simp: grpc_inv_def drain_event_def delete_context_def split: if_splits\<close>)
  show "grpc_inv (G\<lparr>outstanding := outstanding G - {#a#}\<rparr>)" if "\<not> server_started G"
    by (rule grpc_invI[of _ "waiting G - {a}"])
       (use i out that in \<open>auto simp: grpc_inv_def live_def\<close>)
qed

lemma drain_live:
  assumes "grpc_inv G" "a \<in># outstanding G"
  shows "live (drain_event a G) = live G - {a}" "waiting (drain_event a G) = waiting G - {a}"
  using drop_facts(1)[OF assms] by (auto simp: live_def drain_event_def delete_context_def)

text \<open>An event on a context that waits for a request, and on one that has sent its response.\<close>

lemma finish_event_facts:
  assumes i: "grpc_inv G" and a: "a \<in># outstanding G" and ok: "ok \<or> server_started G"
    and f: "ctxs G a = Some FINISH"
  shows "\<exists>G'. poll_event ok a G = Some (True, G') \<and> grpc_inv G' \<and>
    live G' - waiting G' = live G - waiting G \<and> server_started G' = server_started G \<and>
    card (listening m G') = card (listening m G)"
proof -
  have "listening m (drain_event a G) = listening m G"
    using f by (auto simp: listening_def drain_event_def delete_context_def)
  moreover have "poll_event ok a G = Some (True, drain_event a G)"
    using f ok by (auto simp: poll_event_def Proceed_def drain_event_def Let_def)
  moreover have "live (drain_event a G) - waiting (drain_event a G) = live G - waiting G"
    unfolding drain_live[OF i a] using a by blast
  moreover have "server_started (drain_event a G) = server_started G" by (simp add: drain_event_def delete_context_def)
  ultimately show ?thesis using drop_facts(4)[OF i a] by auto
qed

lemma process_event_facts:
  assumes i: "grpc_inv G" and a: "a \<in># outstanding G" and ok: "ok \<or> server_started G"
    and p: "ctxs G a = Some PROCESS"
  shows "\<exists>G'. poll_event ok a G = Some (True, G') \<and> grpc_inv G' \<and>
    live G' - waiting G' = live G - waiting G \<and> server_started G' = server_started G \<and>
    card (listening m G') = card (listening m G)"
proof -
  note d = grpc_invD[OF i] and D = drop_facts[OF i a]
  let ?b = "ctx_next G" and ?W = "waiting G"
  have na: "a \<notin> set (served G)" using d(6)[of a] p by auto
  have nb: "?b \<notin> ?W" using d(8,9) by blast
  define G1 where "G1 = G\<lparr>ctx_next := Suc ?b, outstanding := add_mset ?b (outstanding G - {#a#}),
    ctxs := (ctxs G)(?b \<mapsto> PROCESS), ctx_method := (ctx_method G)(?b := ctx_method G a)\<rparr>"
  define G' where "G' = (if ok then G1\<lparr>served := served G @ [a], outstanding := add_mset a (outstanding G1),
      ctxs := (ctxs G1)(a \<mapsto> FINISH)\<rparr> else delete_context a G1)"
  have step: "poll_event ok a G = Some (True, G')"
    using p D(3) ok
    by (auto simp: poll_event_def Proceed_def new_context_def start_request_def G1_def G'_def delete_context_def Let_def)
  have l: "live G' = insert ?b (if ok then live G else live G - {a})"
    using D(2,3) by (auto simp: G'_def G1_def live_def delete_context_def)
  have "add_mset a (mset_set (?W - {a})) = mset_set ?W" using a by (simp add: mset_set.remove)
  then have o: "outstanding G' = mset_set (insert ?b (if ok then ?W else ?W - {a}))"
    using nb D(1) by (auto simp: G'_def G1_def delete_context_def)
  have "grpc_inv G'"
    by (rule grpc_invI[OF o])
       (use i l d(1,8) D(3) na p ok in \<open>auto simp: grpc_inv_def G'_def G1_def delete_context_def less_Suc_eq split: if_splits\<close>)
  moreover have "listening m G' = (if ctx_method G a = m then insert ?b (listening m G - {a}) else listening m G)"
    using D(3) d(3) by (auto simp: listening_def G'_def G1_def delete_context_def)
  moreover have "card (insert ?b (listening m G - {a})) = card (listening m G)" if "ctx_method G a = m"
    using finite_listening[OF i] p d(3) card_Suc_Diff1[of "listening m G" a] that by (simp add: listening_def)
  moreover have "live G' - waiting G' = live G - waiting G"
    using l a nb d(9) by (auto simp: o)
  moreover have "server_started G' = server_started G" by (simp add: G'_def G1_def delete_context_def)
  ultimately show ?thesis using step by auto
qed

lemma event_facts:
  assumes i: "grpc_inv G" and a: "a \<in># outstanding G" and ok: "ok \<or> server_started G"
  shows "\<exists>G'. poll_event ok a G = Some (True, G') \<and> grpc_inv G' \<and>
    live G' - waiting G' = live G - waiting G \<and> server_started G' = server_started G \<and>
    card (listening m G') = card (listening m G)"
proof (cases "ctxs G a = Some FINISH")
  case False
  then have "ctxs G a = Some PROCESS"
    using drop_facts(2)[OF i a] grpc_invD(4)[OF i, of a]
    by (cases "ctxs G a") (auto simp: live_def intro: CallStatus.exhaust)
  then show ?thesis by (rule process_event_facts[OF assms])
qed (rule finish_event_facts[OF assms])

lemma poll_event_facts:
  assumes "grpc_inv G" "a \<in># outstanding G"
  shows "\<exists>again G'. poll_event ok a G = Some (again, G') \<and> grpc_inv G' \<and> server_started G' = server_started G \<and>
    card (live G' - waiting G') \<le> card (live G - waiting G) + (if again then 0 else 1) \<and>
    card (listening m G') = card (listening m G)"
proof (cases "ok \<or> server_started G")
  case True
  with event_facts[OF assms, of ok m] show ?thesis by auto
next
  case False
  let ?G = "G\<lparr>outstanding := outstanding G - {#a#}\<rparr>"
  have "poll_event ok a G = Some (False, ?G)" using False by (simp add: poll_event_def)
  moreover have "live ?G - waiting ?G \<subseteq> insert a (live G - waiting G)"
    using drop_facts(1)[OF assms] by (auto simp: live_def)
  then have "card (live ?G - waiting ?G) \<le> card (insert a (live G - waiting G))"
    using grpc_invD(1)[OF assms(1)] by (intro card_mono) simp_all
  moreover have "card (insert a (live G - waiting G)) \<le> card (live G - waiting G) + 1"
    using grpc_invD(1)[OF assms(1)] by (simp add: card_insert_if)
  ultimately show ?thesis using drop_facts(5)[OF assms] False by (auto simp: listening_def)
qed

interpretation grpc: inductive_invariant grpc_init grpc_step grpc_inv
proof unfold_locales
  show "grpc_inv G" if "grpc_init G" for G
    using that by (simp add: grpc_init_def grpc_start_def grpc_inv_def live_def)
  show "grpc_inv G'" if i: "grpc_inv G" and s: "grpc_step G G'" for G G'
    using s
  proof (rule grpc_stepE)
    fix m assume "register_method m G = Some G'"
    then show ?thesis using register_facts[OF i, of m] by auto
  next
    fix a ok again assume "a \<in># outstanding G" "poll_event ok a G = Some (again, G')"
    then show ?thesis using poll_event_facts[OF i, of a ok] by fastforce
  next
    assume "G' = stop_server G"
    with i show ?thesis by (auto simp: grpc_inv_def stop_server_def live_def)
  next
    fix a assume "G' = drain_event a G" "a \<in># outstanding G"
    then show ?thesis using drop_facts(4)[OF i] by simp
  qed
qed

lemma drain_ctxs: "ctxs (drain as G) = (\<lambda>a. if a \<in> set as then None else ctxs G a)"
  by (induction as arbitrary: G) (auto simp: drain_event_def delete_context_def)

definition sample_grpc :: grpc_state where
  "sample_grpc =
     \<lparr>ctxs = [0 \<mapsto> PROCESS], ctx_method = (\<lambda>_. [])(0 := ''SmbProxyVerifyShare''), ctx_next = 1, outstanding = {#0#},
      served = [], server_started = True\<rparr>"

lemma reachable_sample_grpc: "reachable grpc_init grpc_step sample_grpc"
proof -
  have "register_method ''SmbProxyVerifyShare'' grpc_start = Some sample_grpc"
    by (simp add: register_method_def new_context_def Proceed_def start_request_def grpc_start_def sample_grpc_def)
  from registers[OF this] show ?thesis
    by (rule reach_step[rotated]) (auto simp: grpc_init_def intro: reach_init)
qed

subsection \<open>Property\<close>

text \<open>C19. The life cycle of the request contexts, over any order of requests, events and shutdown: the context
  of a delivered event has not been freed, so the polling loop never works on a dead object; an event
  leaves as many contexts waiting for requests of each method as there were; no context serves two requests; and
  draining the queue frees exactly the contexts whose events are still to come, which are all of them
  unless a polling thread has already dropped a failed event during the shutdown.\<close>

theorem grpc_contexts_safe:
  assumes "reachable grpc_init grpc_step G"
  shows "(\<forall>a ok. a \<in># outstanding G \<longrightarrow>
       (\<exists>again G'. poll_event ok a G = Some (again, G') \<and> (\<forall>m. card (listening m G') = card (listening m G)))) \<and>
    distinct (served G) \<and>
    (\<forall>as. mset as = outstanding G \<longrightarrow>
       live (drain as G) = live G - waiting G \<and> (server_started G \<longrightarrow> live (drain as G) = {}))"
proof -
  have i: "grpc_inv G" using grpc.reachable_inv[OF assms] .
  have "live (drain as G) = live G - waiting G" if "mset as = outstanding G" for as
    using set_mset_mset[of as] that by (auto simp: live_def drain_ctxs)
  moreover have "server_started G \<Longrightarrow> waiting G = live G" using i by (simp add: grpc_inv_def)
  moreover have "\<exists>again G'. poll_event ok a G = Some (again, G') \<and> (\<forall>m. card (listening m G') = card (listening m G))"
    if a: "a \<in># outstanding G" for a ok
  proof -
    obtain again G' where p: "poll_event ok a G = Some (again, G')" using poll_event_facts[OF i a] by blast
    have "card (listening m G') = card (listening m G)" for m using poll_event_facts[OF i a, of ok m] p by simp
    with p show ?thesis by blast
  qed
  ultimately show ?thesis using grpc_invD(5)[OF i] by auto
qed

theorem grpc_contexts_safe_witness:
  "(\<exists>again G'. poll_event True 0 sample_grpc = Some (again, G') \<and> card (listening ''SmbProxyVerifyShare'' G') = 1) \<and>
   live (drain [0] sample_grpc) = {} \<and>
   (\<exists>G'. poll_event False 0 (stop_server sample_grpc) = Some (False, G') \<and> outstanding G' = {#} \<and> live G' = {0})"
proof -
  have "listening ''SmbProxyVerifyShare'' sample_grpc = {0}" "0 \<in># outstanding sample_grpc" "mset [0] = outstanding sample_grpc" "server_started sample_grpc"
    by (auto simp: listening_def sample_grpc_def split: if_splits)
  moreover from this have "card (listening ''SmbProxyVerifyShare'' sample_grpc) = 1" by simp
  ultimately have "(\<exists>again G'. poll_event True 0 sample_grpc = Some (again, G') \<and> card (listening ''SmbProxyVerifyShare'' G') = 1) \<and> live (drain [0] sample_grpc) = {}"
    using grpc_contexts_safe[OF reachable_sample_grpc] by metis
  moreover have "\<exists>G'. poll_event False 0 (stop_server sample_grpc) = Some (False, G') \<and> outstanding G' = {#} \<and> live G' = {0}"
    by (auto simp: poll_event_def stop_server_def sample_grpc_def live_def split: if_splits)
  ultimately show ?thesis by blast
qed

end
