(* ===== verification/Thread_Pool.thy ===== *)
theory Thread_Pool
  imports Error_Model "HOL-Library.Multiset"
begin

text \<open>
  The class \<open>ThreadPool\<close> of \<open>gpl_util/base/thread_pool.h\<close> and \<open>thread_pool.cc\<close> as a step relation:
  clients queue work items, worker threads wait on the semaphore, pop an item and run it, and
  \<open>WaitAndCleanUp\<close> queues one null item per worker and joins them. Steps are the code between two
  points at which threads can interleave: the queue operations are atomic because of
  \<open>work_items_queue_lock_\<close>, while an item becomes visible in the queue before its semaphore post.
  The semaphore's own maximum is not modelled.
\<close>

text \<open>Where a worker thread is in the loop of \<open>Init\<close>.\<close>

datatype 'w worker = Waiting | Popping | Running 'w | Terminated

text \<open>Where the thread that runs \<open>WaitAndCleanUp\<close> is: null items left to queue, a post left to do
  after a null item, or the index of the worker it joins.\<close>

datatype cleanup = NotCalled | Scheduling nat | Posting nat | Joining nat | CleanedUp

text \<open>A work item is \<open>Some w\<close>, the null item \<open>None\<close>. The last four fields record the history: all
  items ever queued, all items ever popped, the items run to completion, and what had been queued
  when the cleanup began.\<close>

record 'w ThreadPool =
  num_threads :: uint32
  pending_work_items_sem :: nat
  worker_thread_vec :: "'w worker list"
  work_items_queue :: "'w option list"
  stopped :: bool
  cleanup_at :: cleanup
  unposted :: nat
    \<comment> \<open>clients between the two halves of \<open>QueueWorkInternal\<close>\<close>
  pushed :: "'w option list"
  popped :: "'w option list"
  finished :: "'w list"
  pushed_at_cleanup :: "'w option list"

definition ThreadPool_new :: "uint32 \<Rightarrow> 'w ThreadPool" where
  "ThreadPool_new n =
     \<lparr>num_threads = n, pending_work_items_sem = 0, worker_thread_vec = [], work_items_queue = [],
      stopped = False, cleanup_at = NotCalled, unposted = 0, pushed = [], popped = [],
      finished = [], pushed_at_cleanup = []\<rparr>"

text \<open>\<open>Init\<close> starts the workers; it always succeeds.\<close>

definition ThreadPool_Init :: "'w ThreadPool \<Rightarrow> Error \<times> 'w ThreadPool" where
  "ThreadPool_Init P =
     (no_error, P\<lparr>worker_thread_vec := worker_thread_vec P @ replicate (unat (num_threads P)) Waiting\<rparr>)"

text \<open>The two halves of \<open>QueueWorkInternal\<close>.\<close>

definition queue_push :: "'w option \<Rightarrow> 'w ThreadPool \<Rightarrow> 'w ThreadPool" where
  "queue_push x P = P\<lparr>work_items_queue := work_items_queue P @ [x], pushed := pushed P @ [x]\<rparr>"

definition queue_post :: "'w ThreadPool \<Rightarrow> 'w ThreadPool" where
  "queue_post P = P\<lparr>pending_work_items_sem := Suc (pending_work_items_sem P)\<rparr>"

definition QueueWorkInternal :: "'w option \<Rightarrow> 'w ThreadPool \<Rightarrow> Error \<times> 'w ThreadPool" where
  "QueueWorkInternal x P = (no_error, queue_post (queue_push x P))"

text \<open>The parts of the worker function.\<close>

definition worker_wait :: "nat \<Rightarrow> 'w ThreadPool \<Rightarrow> 'w ThreadPool" where
  "worker_wait i P =
     P\<lparr>pending_work_items_sem := pending_work_items_sem P - 1,
       worker_thread_vec := (worker_thread_vec P)[i := Popping]\<rparr>"

definition worker_pop :: "nat \<Rightarrow> 'w ThreadPool \<Rightarrow> 'w ThreadPool" where
  "worker_pop i P =
     (let work_item = hd (work_items_queue P)
      in P\<lparr>work_items_queue := tl (work_items_queue P), popped := popped P @ [work_item],
           worker_thread_vec := (worker_thread_vec P)
             [i := (case work_item of None \<Rightarrow> Terminated | Some w \<Rightarrow> Running w)]\<rparr>)"

definition worker_finish :: "nat \<Rightarrow> 'w \<Rightarrow> 'w ThreadPool \<Rightarrow> 'w ThreadPool" where
  "worker_finish i w P =
     P\<lparr>worker_thread_vec := (worker_thread_vec P)[i := Waiting], finished := finished P @ [w]\<rparr>"

text \<open>\<open>WaitAndCleanUp\<close>: its guard, and one step of its two loops. A join is possible only once the
  worker has terminated.\<close>

definition WaitAndCleanUp :: "'w ThreadPool \<Rightarrow> 'w ThreadPool" where
  "WaitAndCleanUp P =
     (if stopped P then P
      else let active_worker_threads = length (worker_thread_vec P)
           in P\<lparr>stopped := True, pushed_at_cleanup := pushed P,
                cleanup_at := (if active_worker_threads = 0 then CleanedUp
                               else Scheduling active_worker_threads)\<rparr>)"

definition cleanup_step :: "'w ThreadPool \<Rightarrow> 'w ThreadPool option" where
  "cleanup_step P =
     (case cleanup_at P of
        NotCalled \<Rightarrow> None
      | Scheduling 0 \<Rightarrow> Some (P\<lparr>cleanup_at := Joining 0\<rparr>)
      | Scheduling (Suc n) \<Rightarrow> Some ((queue_push None P)\<lparr>cleanup_at := Posting n\<rparr>)
      | Posting n \<Rightarrow> Some ((queue_post P)\<lparr>cleanup_at := Scheduling n\<rparr>)
      | Joining k \<Rightarrow>
          if k < length (worker_thread_vec P)
          then if worker_thread_vec P ! k = Terminated
               then Some (P\<lparr>cleanup_at := Joining (Suc k)\<rparr>) else None
          else Some (P\<lparr>cleanup_at := CleanedUp\<rparr>)
      | CleanedUp \<Rightarrow> None)"

subsection \<open>Interleavings\<close>

text \<open>The steps the pool takes by itself, given that its work items return.\<close>

inductive pool_internal :: "'w ThreadPool \<Rightarrow> 'w ThreadPool \<Rightarrow> bool" where
  post: "0 < unposted P \<Longrightarrow> pool_internal P ((queue_post P)\<lparr>unposted := unposted P - Suc 0\<rparr>)"
| wait: "i < length (worker_thread_vec P) \<Longrightarrow> worker_thread_vec P ! i = Waiting \<Longrightarrow>
     0 < pending_work_items_sem P \<Longrightarrow> pool_internal P (worker_wait i P)"
| pop: "i < length (worker_thread_vec P) \<Longrightarrow> worker_thread_vec P ! i = Popping \<Longrightarrow>
     work_items_queue P \<noteq> [] \<Longrightarrow> pool_internal P (worker_pop i P)"
| finish: "i < length (worker_thread_vec P) \<Longrightarrow> worker_thread_vec P ! i = Running w \<Longrightarrow>
     pool_internal P (worker_finish i w P)"
| clean: "cleanup_step P = Some P' \<Longrightarrow> pool_internal P P'"

text \<open>All steps: also the clients' calls. \<open>Init\<close> is called once, before the cleanup.\<close>

inductive pool_step :: "'w ThreadPool \<Rightarrow> 'w ThreadPool \<Rightarrow> bool" where
  start: "worker_thread_vec P = [] \<Longrightarrow> \<not> stopped P \<Longrightarrow> pool_step P (snd (ThreadPool_Init P))"
| queue: "pool_step P ((queue_push (Some w) P)\<lparr>unposted := Suc (unposted P)\<rparr>)"
| stop: "pool_step P (WaitAndCleanUp P)"
| internal: "pool_internal P Q \<Longrightarrow> pool_step P Q"

definition pool_init :: "'w ThreadPool \<Rightarrow> bool" where
  "pool_init P \<longleftrightarrow> P = ThreadPool_new (num_threads P)"

subsection \<open>Invariant\<close>

definition running_of :: "'w worker \<Rightarrow> 'w multiset" where
  "running_of x = (case x of Running w \<Rightarrow> {#w#} | _ \<Rightarrow> {#})"

text \<open>The work items of a history, without the null items.\<close>

definition items :: "'w option list \<Rightarrow> 'w multiset" where
  "items xs = mset (List.map_filter id xs)"

definition nulls :: "'w option list \<Rightarrow> nat" where
  "nulls xs = count_list xs None"

primrec posting :: "cleanup \<Rightarrow> nat" where
  "posting NotCalled = 0"
| "posting (Scheduling n) = 0"
| "posting (Posting n) = 1"
| "posting (Joining k) = 0"
| "posting CleanedUp = 0"

text \<open>How many null items the cleanup has queued, for \<open>n\<close> workers.\<close>

primrec nulls_queued :: "nat \<Rightarrow> cleanup \<Rightarrow> nat" where
  "nulls_queued n NotCalled = 0"
| "nulls_queued n (Scheduling k) = n - k"
| "nulls_queued n (Posting k) = n - k"
| "nulls_queued n (Joining k) = n"
| "nulls_queued n CleanedUp = n"

primrec cleanup_ok :: "'w worker list \<Rightarrow> cleanup \<Rightarrow> bool" where
  "cleanup_ok ws NotCalled = True"
| "cleanup_ok ws (Scheduling k) = (k \<le> length ws)"
| "cleanup_ok ws (Posting k) = (k < length ws)"
| "cleanup_ok ws (Joining k) = (\<forall>i<k. i < length ws \<longrightarrow> ws ! i = Terminated)"
| "cleanup_ok ws CleanedUp = (\<forall>i<length ws. ws ! i = Terminated)"

definition token_ok :: "'w ThreadPool \<Rightarrow> bool" where
  "token_ok P \<longleftrightarrow>
     length (work_items_queue P) =
       pending_work_items_sem P + unposted P + posting (cleanup_at P) +
       count_list (worker_thread_vec P) Popping"

definition history_ok :: "'w ThreadPool \<Rightarrow> bool" where
  "history_ok P \<longleftrightarrow>
     pushed P = popped P @ work_items_queue P \<and>
     items (popped P) = mset (finished P) + sum_list (map running_of (worker_thread_vec P)) \<and>
     nulls (popped P) = count_list (worker_thread_vec P) Terminated"

definition cleanup_inv :: "'w ThreadPool \<Rightarrow> bool" where
  "cleanup_inv P \<longleftrightarrow>
     (stopped P \<longleftrightarrow> cleanup_at P \<noteq> NotCalled) \<and>
     nulls (pushed P) = nulls_queued (length (worker_thread_vec P)) (cleanup_at P) \<and>
     cleanup_ok (worker_thread_vec P) (cleanup_at P) \<and>
     (stopped P \<longrightarrow> prefix (pushed_at_cleanup P) (pushed P) \<and> nulls (pushed_at_cleanup P) = 0)"

definition pool_inv :: "'w ThreadPool \<Rightarrow> bool" where
  "pool_inv P \<longleftrightarrow> token_ok P \<and> history_ok P \<and> cleanup_inv P"

lemmas pool_op_defs = queue_push_def queue_post_def worker_wait_def worker_pop_def worker_finish_def

lemma nulls_simps [simp]:
  "nulls [] = 0" "nulls (xs @ ys) = nulls xs + nulls ys"
  "nulls [None] = 1" "nulls [Some w] = 0" "nulls (None # xs) = Suc (nulls xs)" "nulls (Some w # xs) = nulls xs"
  by (simp_all add: nulls_def)

lemma items_simps [simp]:
  "items [] = {#}" "items (xs @ ys) = items xs + items ys"
  "items (None # xs) = items xs" "items (Some w # xs) = add_mset w (items xs)"
  by (simp_all add: items_def List.map_filter_def)

lemma running_of_simps [simp]:
  "running_of Waiting = {#}" "running_of Popping = {#}" "running_of (Running w) = {#w#}"
  "running_of Terminated = {#}"
  by (simp_all add: running_of_def)

lemma count_list_update:
  assumes "i < length xs"
  shows "count_list (xs[i := y]) x + of_bool (xs ! i = x) = count_list xs x + of_bool (y = x)"
  using assms
proof (induction xs arbitrary: i)
  case (Cons a xs)
  then show ?case by (cases i) (auto split: if_splits)
qed simp

lemma sum_list_running_update:
  assumes "i < length ws"
  shows "sum_list (map running_of (ws[i := y])) + running_of (ws ! i) =
    sum_list (map running_of ws) + running_of y"
  using assms
proof (induction ws arbitrary: i)
  case (Cons a ws)
  then show ?case by (cases i) (auto simp: ac_simps)
qed simp

subsection \<open>Every step keeps the invariant\<close>

text \<open>A worker that is not terminated may move without disturbing the cleanup.\<close>

lemma cleanup_ok_update:
  "cleanup_ok ws c \<Longrightarrow> ws ! i \<noteq> Terminated \<Longrightarrow> cleanup_ok (ws[i := y]) c"
  by (cases c) (simp_all, (metis nth_list_update_neq)+)

lemma pool_invI: "token_ok P \<Longrightarrow> history_ok P \<Longrightarrow> cleanup_inv P \<Longrightarrow> pool_inv P"
  by (simp add: pool_inv_def)

lemma pool_invD: "pool_inv P \<Longrightarrow> token_ok P" "pool_inv P \<Longrightarrow> history_ok P" "pool_inv P \<Longrightarrow> cleanup_inv P"
  by (simp_all add: pool_inv_def)

lemma cleanup_inv_worker:
  assumes "cleanup_inv P" "worker_thread_vec P ! i \<noteq> Terminated"
    and "worker_thread_vec Q = (worker_thread_vec P)[i := y]" "cleanup_at Q = cleanup_at P"
      "stopped Q = stopped P" "pushed Q = pushed P" "pushed_at_cleanup Q = pushed_at_cleanup P"
  shows "cleanup_inv Q"
  using assms by (simp add: cleanup_inv_def cleanup_ok_update)

lemma worker_wait_inv:
  assumes "pool_inv P" "i < length (worker_thread_vec P)" "worker_thread_vec P ! i = Waiting"
    "0 < pending_work_items_sem P"
  shows "pool_inv (worker_wait i P)"
proof -
  let ?Q = "worker_wait i P"
  note c = count_list_update[OF assms(2), of Popping] sum_list_running_update[OF assms(2), of Popping]
  have "token_ok ?Q" using pool_invD(1)[OF assms(1)] assms(3-) c(1)[of Popping]
    by (simp add: token_ok_def worker_wait_def)
  moreover have "history_ok ?Q" using pool_invD(2)[OF assms(1)] assms(3) c(1)[of Terminated] c(2)
    by (simp add: history_ok_def worker_wait_def)
  moreover have "cleanup_inv ?Q"
    by (rule cleanup_inv_worker[OF pool_invD(3)[OF assms(1)], of i])
       (simp_all add: assms(3) worker_wait_def)
  ultimately show ?thesis by (rule pool_invI)
qed

lemma worker_pop_inv:
  assumes inv: "pool_inv P" and i: "i < length (worker_thread_vec P)"
    and w: "worker_thread_vec P ! i = Popping" and q: "work_items_queue P \<noteq> []"
  shows "pool_inv (worker_pop i P)"
proof -
  obtain x xs where x: "work_items_queue P = x # xs" using q by (cases "work_items_queue P") auto
  let ?y = "case x of None \<Rightarrow> Terminated | Some w \<Rightarrow> Running w"
  note c = count_list_update[OF i, of ?y Popping] count_list_update[OF i, of ?y Terminated]
    sum_list_running_update[OF i, of ?y]
  have y: "?y \<noteq> Popping" "?y = Terminated \<longleftrightarrow> x = None" by (auto split: option.splits)
  have "token_ok (worker_pop i P)"
    using inv w x c(1) y by (simp add: pool_inv_def token_ok_def worker_pop_def)
  moreover have "history_ok (worker_pop i P)"
    using inv w x c(2,3) y by (cases x) (simp_all add: pool_inv_def history_ok_def worker_pop_def)
  moreover have "cleanup_inv (worker_pop i P)"
    by (rule cleanup_inv_worker[OF pool_invD(3)[OF inv], of i]) (simp_all add: w worker_pop_def Let_def)
  ultimately show ?thesis by (simp add: pool_inv_def)
qed

lemma worker_finish_inv:
  assumes "pool_inv P" "i < length (worker_thread_vec P)" "worker_thread_vec P ! i = Running w"
  shows "pool_inv (worker_finish i w P)"
proof -
  let ?Q = "worker_finish i w P"
  note c = count_list_update[OF assms(2), of Waiting] sum_list_running_update[OF assms(2), of Waiting]
  have "token_ok ?Q" using pool_invD(1)[OF assms(1)] assms(3-) c(1)[of Popping]
    by (simp add: token_ok_def worker_finish_def)
  moreover have "history_ok ?Q" using pool_invD(2)[OF assms(1)] assms(3) c(1)[of Terminated] c(2)
    by (simp add: history_ok_def worker_finish_def)
  moreover have "cleanup_inv ?Q"
    by (rule cleanup_inv_worker[OF pool_invD(3)[OF assms(1)], of i])
       (simp_all add: assms(3) worker_finish_def)
  ultimately show ?thesis by (rule pool_invI)
qed

lemma post_inv:
  "pool_inv P \<Longrightarrow> 0 < unposted P \<Longrightarrow> pool_inv ((queue_post P)\<lparr>unposted := unposted P - Suc 0\<rparr>)"
  by (rule pool_invI, drule pool_invD(1), simp add: token_ok_def queue_post_def,
      drule pool_invD(2), simp add: history_ok_def queue_post_def,
      drule pool_invD(3), simp add: cleanup_inv_def queue_post_def)

lemma cleanup_step_inv:
  assumes "pool_inv P" "cleanup_step P = Some Q"
  shows "pool_inv Q"
proof (rule pool_invI)
  show "token_ok Q" using pool_invD(1)[OF assms(1)] assms(2)
    by (auto simp: cleanup_step_def token_ok_def queue_push_def queue_post_def
        split: cleanup.splits nat.splits if_splits)
  show "history_ok Q" using pool_invD(2)[OF assms(1)] assms(2)
    by (auto simp: cleanup_step_def history_ok_def queue_push_def queue_post_def
        split: cleanup.splits nat.splits if_splits)
  show "cleanup_inv Q" using pool_invD(3)[OF assms(1)] assms(2)
    by (auto simp: cleanup_step_def cleanup_inv_def queue_push_def queue_post_def less_Suc_eq
        split: cleanup.splits nat.splits if_splits)
qed

lemma pool_internal_inv: "pool_internal P Q \<Longrightarrow> pool_inv P \<Longrightarrow> pool_inv Q"
  by (induction rule: pool_internal.induct)
     (auto intro: post_inv worker_wait_inv worker_pop_inv worker_finish_inv cleanup_step_inv)

lemma count_list_replicate_other: "x \<noteq> y \<Longrightarrow> count_list (replicate n x) y = 0"
  by (induction n) auto

lemma sum_running_waiting: "sum_list (map running_of (replicate n Waiting)) = {#}"
  by (induction n) auto

lemma sum_running_terminated: "\<forall>x\<in>set ws. x = Terminated \<Longrightarrow> sum_list (map running_of ws) = {#}"
  by (induction ws) auto

lemma Init_inv:
  assumes "pool_inv P" "worker_thread_vec P = []" "\<not> stopped P"
  shows "pool_inv (snd (ThreadPool_Init P))"
  using assms sum_running_waiting[of "unat (num_threads P)"]
  by (auto simp: pool_inv_def token_ok_def history_ok_def cleanup_inv_def ThreadPool_Init_def
      count_list_replicate_other)

lemma queue_inv: "pool_inv P \<Longrightarrow> pool_inv ((queue_push (Some w) P)\<lparr>unposted := Suc (unposted P)\<rparr>)"
  by (rule pool_invI, drule pool_invD(1), simp add: token_ok_def queue_push_def,
      drule pool_invD(2), simp add: history_ok_def queue_push_def,
      drule pool_invD(3), simp add: cleanup_inv_def queue_push_def)

lemma WaitAndCleanUp_inv:
  assumes "pool_inv P"
  shows "pool_inv (WaitAndCleanUp P)"
proof (cases "stopped P")
  case True
  with assms show ?thesis by (simp add: WaitAndCleanUp_def)
next
  case False
  then have "cleanup_at P = NotCalled" using pool_invD(3)[OF assms] by (simp add: cleanup_inv_def)
  with False show ?thesis
    using pool_invD(1)[OF assms] pool_invD(2)[OF assms] pool_invD(3)[OF assms]
    by (intro pool_invI)
       (simp_all add: token_ok_def history_ok_def cleanup_inv_def WaitAndCleanUp_def Let_def)
qed

lemma pool_init_inv: "pool_init P \<Longrightarrow> pool_inv P"
  unfolding pool_init_def
  by (erule ssubst) (simp add: pool_inv_def token_ok_def history_ok_def cleanup_inv_def ThreadPool_new_def)

interpretation pool: inductive_invariant pool_init pool_step pool_inv
proof unfold_locales
  show "pool_inv P \<Longrightarrow> pool_step P Q \<Longrightarrow> pool_inv Q" for P Q :: "'w ThreadPool"
    by (erule pool_step.cases) (auto intro: Init_inv queue_inv WaitAndCleanUp_inv pool_internal_inv)
qed (rule pool_init_inv)

subsection \<open>Progress of the cleanup\<close>

fun worker_weight :: "'w worker \<Rightarrow> nat" where
  "worker_weight Popping = 2"
| "worker_weight (Running w) = 1"
| "worker_weight _ = 0"

primrec cleanup_weight :: "nat \<Rightarrow> cleanup \<Rightarrow> nat" where
  "cleanup_weight n NotCalled = 0"
| "cleanup_weight n (Scheduling k) = 6 * k + n + 3"
| "cleanup_weight n (Posting k) = 6 * k + n + 8"
| "cleanup_weight n (Joining k) = n - k + 1"
| "cleanup_weight n CleanedUp = 0"

text \<open>What is left to do without new calls: a token is worth more the earlier it is in its life.\<close>

definition pool_work :: "'w ThreadPool \<Rightarrow> nat" where
  "pool_work P =
     4 * unposted P + 3 * pending_work_items_sem P +
     sum_list (map worker_weight (worker_thread_vec P)) +
     cleanup_weight (length (worker_thread_vec P)) (cleanup_at P)"

lemma worker_weight_update:
  assumes "i < length ws"
  shows "sum_list (map worker_weight (ws[i := y])) + worker_weight (ws ! i) =
    sum_list (map worker_weight ws) + worker_weight y"
  using assms
proof (induction ws arbitrary: i)
  case (Cons a ws)
  then show ?case by (cases i) auto
qed simp

lemma cleanup_step_decreases:
  assumes "cleanup_step P = Some Q"
  shows "pool_work Q < pool_work P"
proof (cases "cleanup_at P")
  case (Scheduling n)
  with assms show ?thesis by (cases n) (auto simp: cleanup_step_def pool_work_def queue_push_def)
qed (use assms in \<open>auto simp: cleanup_step_def pool_work_def queue_post_def split: if_splits\<close>)

lemma pool_internal_decreases: "pool_internal P Q \<Longrightarrow> pool_work Q < pool_work P"
proof (induction rule: pool_internal.induct)
  case (post P)
  then show ?case by (simp add: pool_work_def queue_post_def)
next
  case (wait i P)
  then show ?case using worker_weight_update[OF wait(1), of Popping]
    by (simp add: pool_work_def worker_wait_def)
next
  case (pop i P)
  let ?y = "case hd (work_items_queue P) of None \<Rightarrow> Terminated | Some w \<Rightarrow> Running w"
  have "worker_weight ?y \<le> 1" by (cases "hd (work_items_queue P)") auto
  with pop(2) worker_weight_update[OF pop(1), of ?y] show ?case
    by (simp only: pool_work_def worker_pop_def Let_def) simp
next
  case (finish i P w)
  then show ?case using worker_weight_update[OF finish(1), of Waiting]
    by (simp add: pool_work_def worker_finish_def)
qed (rule cleanup_step_decreases)

text \<open>All null items have been popped when every worker has terminated.\<close>

lemma count_list_all: "count_list xs y = length xs \<Longrightarrow> x \<in> set xs \<Longrightarrow> x = y"
proof (induction xs)
  case (Cons a xs)
  have "count_list xs y \<le> length xs" by (rule count_le_length)
  with Cons show ?case by (auto split: if_splits)
qed simp

lemma count_list_nth_all: "(\<forall>i<length xs. xs ! i = y) \<Longrightarrow> count_list xs y = length xs"
proof -
  assume "\<forall>i<length xs. xs ! i = y"
  then have "xs = replicate (length xs) y" by (simp add: list_eq_iff_nth_eq)
  then show ?thesis by (metis count_list_eq_length_filter filter_True in_set_replicate length_replicate)
qed

lemma stuck_cleaned_up:
  assumes inv: "pool_inv P" and c: "cleanup_at P \<noteq> NotCalled" and stuck: "\<And>Q. \<not> pool_internal P Q"
  shows "cleanup_at P = CleanedUp"
proof (rule ccontr)
  assume nc: "cleanup_at P \<noteq> CleanedUp"
  have none: "cleanup_step P = None" using stuck clean by (metis not_Some_eq)
  then obtain k where k: "cleanup_at P = Joining k" "k < length (worker_thread_vec P)"
      "worker_thread_vec P ! k \<noteq> Terminated"
    using c nc by (auto simp: cleanup_step_def split: cleanup.splits nat.splits if_splits)
  have up: "unposted P = 0" using stuck post by fastforce
  have npop: "worker_thread_vec P ! i \<noteq> Popping" if i: "i < length (worker_thread_vec P)" for i
  proof
    assume pp: "worker_thread_vec P ! i = Popping"
    then have "0 < count_list (worker_thread_vec P) Popping"
      using i by (metis count_list_0_iff gr0I nth_mem)
    then have "work_items_queue P \<noteq> []" using inv by (auto simp: pool_inv_def token_ok_def)
    with pp i stuck show False using pool_internal.pop by blast
  qed
  have "worker_thread_vec P ! k = Waiting"
    using k npop[OF k(2)] stuck pool_internal.finish[OF k(2)] by (cases "worker_thread_vec P ! k") auto
  then have "pending_work_items_sem P = 0" using stuck pool_internal.wait[OF k(2)] by blast
  moreover have "count_list (worker_thread_vec P) Popping = 0"
    using npop by (metis count_list_0_iff in_set_conv_nth)
  ultimately have "work_items_queue P = []" using inv up k(1) by (simp add: pool_inv_def token_ok_def)
  then have "count_list (worker_thread_vec P) Terminated = length (worker_thread_vec P)"
    using inv k(1) by (auto simp: pool_inv_def history_ok_def cleanup_inv_def)
  with k(2,3) show False using count_list_all nth_mem by metis
qed

subsection \<open>Executing a schedule\<close>

datatype 'w pool_event =
  EInit | EQueue 'w | EStop | EPost | EWait nat | EPop nat | EFinish nat | EClean

fun pool_exec :: "'w pool_event \<Rightarrow> 'w ThreadPool \<Rightarrow> 'w ThreadPool option" where
  "pool_exec EInit P =
     (if worker_thread_vec P = [] \<and> \<not> stopped P then Some (snd (ThreadPool_Init P)) else None)"
| "pool_exec (EQueue w) P = Some ((queue_push (Some w) P)\<lparr>unposted := Suc (unposted P)\<rparr>)"
| "pool_exec EStop P = Some (WaitAndCleanUp P)"
| "pool_exec EPost P =
     (if 0 < unposted P then Some ((queue_post P)\<lparr>unposted := unposted P - Suc 0\<rparr>) else None)"
| "pool_exec (EWait i) P =
     (if i < length (worker_thread_vec P) \<and> worker_thread_vec P ! i = Waiting \<and>
         0 < pending_work_items_sem P then Some (worker_wait i P) else None)"
| "pool_exec (EPop i) P =
     (if i < length (worker_thread_vec P) \<and> worker_thread_vec P ! i = Popping \<and>
         work_items_queue P \<noteq> [] then Some (worker_pop i P) else None)"
| "pool_exec (EFinish i) P =
     (if i < length (worker_thread_vec P)
      then (case worker_thread_vec P ! i of Running w \<Rightarrow> Some (worker_finish i w P) | _ \<Rightarrow> None)
      else None)"
| "pool_exec EClean P = cleanup_step P"

fun pool_run :: "'w pool_event list \<Rightarrow> 'w ThreadPool \<Rightarrow> 'w ThreadPool option" where
  "pool_run [] P = Some P"
| "pool_run (e # es) P = Option.bind (pool_exec e P) (pool_run es)"

lemma pool_exec_step: "pool_exec e P = Some Q \<Longrightarrow> pool_step P Q"
  by (cases e)
     (auto split: if_splits worker.splits
       intro: start queue stop internal[OF pool_internal.post] internal[OF pool_internal.wait]
         internal[OF pool_internal.pop] internal[OF pool_internal.finish] internal[OF pool_internal.clean])

lemma pool_run_reachable:
  "pool_run es P = Some Q \<Longrightarrow> reachable pool_init pool_step P \<Longrightarrow> reachable pool_init pool_step Q"
proof (induction es arbitrary: P)
  case (Cons e es)
  then obtain P1 where "pool_exec e P = Some P1" "pool_run es P1 = Some Q" by (auto simp: bind_eq_Some_conv)
  with Cons show ?case by (blast intro: reach_step pool_exec_step)
qed simp

text \<open>One worker and one item; the worker has passed the semaphore when the rest of the schedule
  begins.\<close>

definition sample_pool :: "string pool_event list \<Rightarrow> string ThreadPool" where
  "sample_pool es =
     (case pool_run ([EInit, EQueue ''job'', EPost, EWait 0] @ es) (ThreadPool_new 1) of
        Some P \<Rightarrow> P | None \<Rightarrow> ThreadPool_new 1)"

definition sample_cleanup :: "string pool_event list" where
  "sample_cleanup = [EStop, EClean, EPop 0, EClean, EFinish 0, EWait 0, EClean, EPop 0, EClean, EClean]"

lemma sample_pool_reachable: "reachable pool_init pool_step (sample_pool es)"
proof -
  have "reachable pool_init pool_step (ThreadPool_new 1 :: string ThreadPool)"
    by (rule reach_init) (simp add: pool_init_def ThreadPool_new_def)
  then show ?thesis unfolding sample_pool_def
    by (simp only: split: option.split) (blast intro: pool_run_reachable)
qed

subsection \<open>Properties\<close>

text \<open>C28. A worker that passed the semaphore always finds an item: whatever the interleaving of
  clients, workers and cleanup, the queue is not empty when \<open>front\<close> and \<open>pop\<close> are called on it, as
  the worker's assertion says; items leave in the order they entered, and each item taken is running
  on one worker or finished exactly once.\<close>

theorem ThreadPool_pop_safe:
  assumes "reachable pool_init pool_step P"
  shows "(Popping \<in> set (worker_thread_vec P) \<longrightarrow> work_items_queue P \<noteq> []) \<and>
    pushed P = popped P @ work_items_queue P \<and>
    items (popped P) = mset (finished P) + sum_list (map running_of (worker_thread_vec P))"
proof -
  have inv: "token_ok P" "history_ok P" using pool.reachable_inv[OF assms] by (simp_all add: pool_inv_def)
  have "0 < count_list (worker_thread_vec P) Popping" if "Popping \<in> set (worker_thread_vec P)"
    using that by (metis count_list_0_iff gr0I)
  with inv show ?thesis by (auto simp: token_ok_def history_ok_def)
qed

theorem ThreadPool_pop_safe_witness:
  "Popping \<in> set (worker_thread_vec (sample_pool [])) \<and> work_items_queue (sample_pool []) \<noteq> []"
proof -
  have "Popping \<in> set (worker_thread_vec (sample_pool []))" by code_simp
  with ThreadPool_pop_safe[OF sample_pool_reachable[of "[]"]] show ?thesis by blast
qed

text \<open>C16. \<open>WaitAndCleanUp\<close> does what its comment says: once it has returned on a pool with workers,
  every worker has terminated and every item queued before the call has been run to completion, each
  as many times as it was queued.\<close>

theorem ThreadPool_cleanup_complete:
  assumes "reachable pool_init pool_step P" "cleanup_at P = CleanedUp" "worker_thread_vec P \<noteq> []"
  shows "(\<forall>x\<in>set (worker_thread_vec P). x = Terminated) \<and>
    items (pushed_at_cleanup P) \<subseteq># mset (finished P) \<and> mset (finished P) \<subseteq># items (pushed P)"
proof -
  have inv: "history_ok P" "cleanup_inv P" using pool.reachable_inv[OF assms(1)] by (simp_all add: pool_inv_def)
  have all: "\<forall>i<length (worker_thread_vec P). worker_thread_vec P ! i = Terminated"
    using inv(2) assms(2) by (simp add: cleanup_inv_def)
  then have ends: "\<forall>x\<in>set (worker_thread_vec P). x = Terminated" by (metis in_set_conv_nth)
  then have "sum_list (map running_of (worker_thread_vec P)) = {#}"
    by (simp add: sum_running_terminated)
  then have fin: "items (popped P) = mset (finished P)" using inv(1) by (simp add: history_ok_def)
  have pushed: "pushed P = popped P @ work_items_queue P" using inv(1) by (simp add: history_ok_def)
  have "nulls (popped P) = length (worker_thread_vec P)"
    using inv(1) count_list_nth_all[OF all] by (simp add: history_ok_def)
  moreover obtain rest where rest: "pushed P = pushed_at_cleanup P @ rest" "nulls (pushed_at_cleanup P) = 0"
    using inv(2) assms(2) by (auto simp: cleanup_inv_def prefix_def)
  ultimately have "prefix (pushed_at_cleanup P) (popped P)"
  proof -
    have pp: "0 < nulls (popped P)" using \<open>nulls (popped P) = length (worker_thread_vec P)\<close> assms(3) by simp
    consider "prefix (pushed_at_cleanup P) (popped P)" | "prefix (popped P) (pushed_at_cleanup P)"
      using pushed rest(1) by (metis prefix_def prefix_same_cases)
    then show ?thesis
    proof cases
      case 2
      then have "nulls (popped P) \<le> nulls (pushed_at_cleanup P)" by (auto simp: prefix_def)
      with pp rest(2) show ?thesis by simp
    qed
  qed
  then have "items (pushed_at_cleanup P) \<subseteq># mset (finished P)"
    unfolding fin[symmetric] by (auto simp: prefix_def)
  with ends fin pushed show ?thesis by auto
qed

theorem ThreadPool_cleanup_complete_witness:
  "worker_thread_vec (sample_pool sample_cleanup) = [Terminated] \<and>
   ''job'' \<in># mset (finished (sample_pool sample_cleanup))"
proof -
  have "cleanup_at (sample_pool sample_cleanup) = CleanedUp"
    "worker_thread_vec (sample_pool sample_cleanup) = [Terminated]"
    "pushed_at_cleanup (sample_pool sample_cleanup) = [Some ''job'']"
    by code_simp+
  with ThreadPool_cleanup_complete[OF sample_pool_reachable[of sample_cleanup]] show ?thesis
    by (simp add: insert_subset_eq_iff)
qed

text \<open>C17. The cleanup cannot hang: once it has begun, every run of the pool without new calls is
  finite (each step uses up work), and it can only stop when the cleanup has returned.\<close>

theorem ThreadPool_cleanup_terminates:
  assumes "reachable pool_init pool_step P" "cleanup_at P \<noteq> NotCalled" "cleanup_at P \<noteq> CleanedUp"
  shows "(\<exists>Q. pool_internal P Q) \<and> (\<forall>Q. pool_internal P Q \<longrightarrow> pool_work Q < pool_work P)"
  using stuck_cleaned_up[OF pool.reachable_inv[OF assms(1)] assms(2)] assms(3) pool_internal_decreases
  by blast

theorem ThreadPool_cleanup_terminates_witness:
  "cleanup_at (sample_pool [EStop]) = Scheduling 1 \<and> (\<exists>Q. pool_internal (sample_pool [EStop]) Q)"
proof -
  have "cleanup_at (sample_pool [EStop]) = Scheduling 1" by code_simp
  with ThreadPool_cleanup_terminates[OF sample_pool_reachable[of "[EStop]"]] show ?thesis by simp
qed

end
