(* ===== verification/Grpc_Server.thy ===== *)
theory Grpc_Server
  imports Grpc_Context Thread_Pool Smb_Params
begin

text \<open>
  The class \<open>GrpcAsyncService\<close> of \<open>grpclib/grpc_async_service.cc\<close>: the constructor with its pool of
  threads, \<open>StartServer\<close> with the probe of the port, the polling function each thread of the pool runs, and
  \<open>StopServer\<close>. Sockets, \<open>sleep\<close> and the builder of the gRPC library are parameters, in the record
  \<open>net_env\<close>. The running server is a step relation that composes the contexts of \<open>Grpc_Context\<close>
  with the threads of \<open>Thread_Pool\<close>: a thread runs a polling function until that function leaves its loop.
\<close>

record 'n net_env =
  n_socket :: "'n \<Rightarrow> int \<times> 'n"
  n_connect :: "int \<Rightarrow> string \<Rightarrow> uint16 \<Rightarrow> 'n \<Rightarrow> int \<times> 'n"
  n_close :: "int \<Rightarrow> 'n \<Rightarrow> int \<times> 'n"
  n_sleep :: "int \<Rightarrow> 'n \<Rightarrow> 'n"
  n_build_and_start :: "string \<Rightarrow> int \<Rightarrow> 'n \<Rightarrow> (int \<times> bool) \<times> 'n"
    \<comment> \<open>address and maximal message size; the selected port, and whether there is a server\<close>
  gpl_util_grpc_thread_count :: int
  gpl_util_grpc_port_in_use_retry_delay_secs :: int
  gpl_util_grpc_port_in_use_retry_count :: int
  gpl_util_grpc_server_max_receive_message_size :: int

subsection \<open>Waiting for the port\<close>

text \<open>The probe; \<open>None\<close> is the \<^verbatim>\<open>CHECK\<close> of a failed system call. \<^verbatim>\<open>htons\<close> keeps the low 16 bits.\<close>

definition IsPortInUse :: "'n net_env \<Rightarrow> int \<Rightarrow> 'n \<Rightarrow> (bool \<times> 'n) option" where
  "IsPortInUse N port w =
     (let (sock, w) = n_socket N w
      in do { CHECK (sock \<noteq> -1);
              let (c, w) = n_connect N sock ''127.0.0.1'' (word_of_int port) w;
              let (ret, w) = n_close N sock w;
              CHECK (ret \<noteq> -1);
              Some (c \<noteq> -1, w) })"

text \<open>The loop at the beginning of \<open>StartServer\<close>: whether the server goes on; \<open>False\<close> is the fatal error.\<close>

partial_function (option) wait_port :: "'n net_env \<Rightarrow> int \<Rightarrow> int \<Rightarrow> 'n \<Rightarrow> (bool \<times> 'n) option" where
  "wait_port N port retry_count w =
     do { (in_use, w) \<leftarrow> IsPortInUse N port w;
          if in_use
          then let w = n_sleep N (gpl_util_grpc_port_in_use_retry_delay_secs N) w; retry_count = retry_count - 1
               in if retry_count = 0 then Some (False, w) else wait_port N port retry_count w
          else Some (True, w) }"

declare wait_port.simps [code]

subsection \<open>The service object\<close>

text \<open>Where the polling function is: methods registered so far, in the loop, or out of it.\<close>

datatype poller = Registering nat | Polling | Left_Loop

datatype completion_queue = NoQueue | OpenQueue | ShutQueue

text \<open>Where the thread in \<open>StopServer\<close> is, if there is one.\<close>

datatype stopper = NotStopping | FlagCleared | Draining

record GrpcAsyncService =
  server_address :: string
  has_server :: bool
  cq :: completion_queue
  contexts :: grpc_state
  thread_pool :: "nat ThreadPool"
  pollers :: "poller list"
  stop_at :: stopper

definition GrpcAsyncService_new :: "'n net_env \<Rightarrow> GrpcAsyncService option" where
  "GrpcAsyncService_new N =
     (let (error, P) = ThreadPool_Init (ThreadPool_new (word_of_int (gpl_util_grpc_thread_count N)))
      in do { CHECK (Ok error);
              Some \<lparr>server_address = [], has_server = False, cq = NoQueue,
                    contexts = grpc_start\<lparr>server_started := False\<rparr>, thread_pool = P, pollers = [], stop_at = NotStopping\<rparr> })"

text \<open>\<open>RegisterRpcMethods\<close> of \<open>SmbProxy\<close>.\<close>

definition RegisterRpcMethods :: "string list" where
  "RegisterRpcMethods =
     [''SmbProxyCreateEntity'', ''SmbProxyDeleteEntity'', ''SmbProxyGetRootMetadata'', ''SmbProxyGetStatusInfo'',
      ''SmbProxyFetchChildrenMetadata'', ''SmbProxyFetchFileData'', ''SmbProxyPurgeTask'', ''SmbProxyWriteFileData'',
      ''SmbProxyCreateRestoreFiles'', ''SmbProxyWriteFilesData'', ''SmbProxyFinalizeRestoreFiles'',
      ''SmbProxyCreateSymlink'', ''SmbProxyRenameEntity'', ''SmbProxyVerifyShare'']"

text \<open>The loop at the end of \<open>StartServer\<close>; the item is the number of the polling function.\<close>

fun queue_pollers :: "nat \<Rightarrow> nat \<Rightarrow> nat ThreadPool \<Rightarrow> nat ThreadPool" where
  "queue_pollers i 0 P = P"
| "queue_pollers i (Suc n) P = queue_pollers (Suc i) n (snd (QueueWorkInternal (Some i) P))"

definition StartServer :: "'n net_env \<Rightarrow> int \<Rightarrow> GrpcAsyncService \<Rightarrow> 'n \<Rightarrow> (GrpcAsyncService \<times> 'n) option" where
  "StartServer N port S w =
     (let S = S\<lparr>server_address := ''0.0.0.0:'' @ to_string port\<rparr>
      in do { (free, w) \<leftarrow> wait_port N port (gpl_util_grpc_port_in_use_retry_count N) w;
              CHECK free;
              let ((selected_port, built), w) =
                n_build_and_start N (server_address S) (gpl_util_grpc_server_max_receive_message_size N) w;
              CHECK (selected_port \<noteq> 0);
              let n = nat (gpl_util_grpc_thread_count N);
              Some (S\<lparr>cq := OpenQueue, has_server := built, contexts := (contexts S)\<lparr>server_started := True\<rparr>,
                      thread_pool := queue_pollers (length (pollers S)) n (thread_pool S),
                      pollers := pollers S @ replicate n (Registering 0)\<rparr>, w) })"

text \<open>\<open>StopServer\<close> up to the draining loop: \<open>exchange\<close>, then the shutdown of the server and of its queue. The
  queue is used without a test.\<close>

definition stop_begin :: "GrpcAsyncService \<Rightarrow> GrpcAsyncService" where
  "stop_begin S =
     (if server_started (contexts S) then S\<lparr>contexts := stop_server (contexts S), stop_at := FlagCleared\<rparr> else S)"

definition stop_shutdown :: "GrpcAsyncService \<Rightarrow> GrpcAsyncService option" where
  "stop_shutdown S = do { CHECK (cq S \<noteq> NoQueue); Some (S\<lparr>cq := ShutQueue, stop_at := Draining\<rparr>) }"

text \<open>The polling function \<open>k\<close>, registering a method.\<close>

definition poller_register :: "nat \<Rightarrow> GrpcAsyncService \<Rightarrow> GrpcAsyncService option" where
  "poller_register k S =
     (case pollers S ! k of
        Registering i \<Rightarrow>
          if i < length RegisterRpcMethods
          then do { G \<leftarrow> register_method (RegisterRpcMethods ! i) (contexts S);
                    Some (S\<lparr>contexts := G, pollers := (pollers S)[k := Registering (Suc i)]\<rparr>) }
          else Some (S\<lparr>pollers := (pollers S)[k := Polling]\<rparr>)
      | _ \<Rightarrow> None)"

text \<open>One iteration of its loop: \<open>Next\<close> has delivered an event, or reported the end of the queue.\<close>

definition poller_event :: "nat \<Rightarrow> (addr \<times> bool) option \<Rightarrow> GrpcAsyncService \<Rightarrow> GrpcAsyncService option" where
  "poller_event k e S =
     (if pollers S ! k \<noteq> Polling then None
      else case e of
             None \<Rightarrow> Some (S\<lparr>pollers := (pollers S)[k := Left_Loop]\<rparr>)
           | Some (a, ok) \<Rightarrow>
               do { (again, G) \<leftarrow> poll_event ok a (contexts S);
                    Some (S\<lparr>contexts := G, pollers := (pollers S)[k := (if again then Polling else Left_Loop)]\<rparr>) })"

subsection \<open>The running server\<close>

definition runs :: "nat \<Rightarrow> GrpcAsyncService \<Rightarrow> bool" where
  "runs k S \<longleftrightarrow> Running k \<in> set (worker_thread_vec (thread_pool S))"

text \<open>What \<open>Next\<close> may answer.\<close>

fun next_event :: "(addr \<times> bool) option \<Rightarrow> GrpcAsyncService \<Rightarrow> bool" where
  "next_event None S \<longleftrightarrow> cq S = ShutQueue \<and> outstanding (contexts S) = {#}"
| "next_event (Some (a, ok)) S \<longleftrightarrow> a \<in># outstanding (contexts S)"

inductive server_step :: "GrpcAsyncService \<Rightarrow> GrpcAsyncService \<Rightarrow> bool" where
  pool_moves: "pool_internal (thread_pool S) P \<Longrightarrow> finished P = finished (thread_pool S) \<Longrightarrow>
     server_step S (S\<lparr>thread_pool := P\<rparr>)"
| poller_registers: "runs k S \<Longrightarrow> poller_register k S = Some T \<Longrightarrow> server_step S T"
| poller_polls: "runs k S \<Longrightarrow> next_event e S \<Longrightarrow> poller_event k e S = Some T \<Longrightarrow> server_step S T"
| poller_returns: "i < length (worker_thread_vec (thread_pool S)) \<Longrightarrow> worker_thread_vec (thread_pool S) ! i = Running k \<Longrightarrow>
     pollers S ! k = Left_Loop \<Longrightarrow> server_step S (S\<lparr>thread_pool := worker_finish i k (thread_pool S)\<rparr>)"
| stop_begins: "stop_at S = NotStopping \<Longrightarrow> server_step S (stop_begin S)"
| stop_shuts: "stop_at S = FlagCleared \<Longrightarrow> stop_shutdown S = Some T \<Longrightarrow> server_step S T"
| stop_drains: "stop_at S = Draining \<Longrightarrow> a \<in># outstanding (contexts S) \<Longrightarrow>
     server_step S (S\<lparr>contexts := drain_event a (contexts S)\<rparr>)"
| stop_ends: "stop_at S = Draining \<Longrightarrow> outstanding (contexts S) = {#} \<Longrightarrow> server_step S (S\<lparr>stop_at := NotStopping\<rparr>)"
| pool_cleanup: "server_step S (S\<lparr>thread_pool := WaitAndCleanUp (thread_pool S)\<rparr>)"

inductive_cases server_stepE: "server_step S T"

definition server_init :: "'n net_env \<Rightarrow> GrpcAsyncService \<Rightarrow> bool" where
  "server_init N S \<longleftrightarrow> (\<exists>port S0 w w'. GrpcAsyncService_new N = Some S0 \<and> StartServer N port S0 w = Some (S, w'))"

subsection \<open>Invariant\<close>

text \<open>The numbers of polling functions with a property.\<close>

definition num_pollers :: "(poller \<Rightarrow> bool) \<Rightarrow> GrpcAsyncService \<Rightarrow> nat" where
  "num_pollers Q S = length (filter Q (pollers S))"

definition has_registered :: "string \<Rightarrow> poller \<Rightarrow> bool" where
  "has_registered m p = (case p of Registering i \<Rightarrow> m \<in> set (take i RegisterRpcMethods) | _ \<Rightarrow> True)"

text \<open>Items of the pool are numbers of polling functions.\<close>

definition items_below :: "nat \<Rightarrow> nat ThreadPool \<Rightarrow> bool" where
  "items_below n P \<longleftrightarrow>
     (\<forall>k. Some k \<in> set (work_items_queue P) \<or> Running k \<in> set (worker_thread_vec P) \<longrightarrow> k < n)"

definition lost :: "grpc_state \<Rightarrow> addr set" where
  "lost G = live G - waiting G"

definition server_inv :: "GrpcAsyncService \<Rightarrow> bool" where
  "server_inv S \<longleftrightarrow>
     grpc_inv (contexts S) \<and> items_below (length (pollers S)) (thread_pool S) \<and> cq S \<noteq> NoQueue \<and>
     (stop_at S \<noteq> NotStopping \<longrightarrow> \<not> server_started (contexts S)) \<and>
     card (lost (contexts S)) \<le> num_pollers (\<lambda>p. p = Left_Loop) S \<and>
     (server_started (contexts S) \<longrightarrow>
        (\<forall>m\<in>set RegisterRpcMethods. card (listening m (contexts S)) = num_pollers (has_registered m) S))"

lemma length_filter_update:
  "k < length xs \<Longrightarrow> length (filter Q (xs[k := y])) + (if Q (xs ! k) then 1 else 0) =
     length (filter Q xs) + (if Q y then 1 else 0)"
proof (induction xs arbitrary: k)
  case (Cons x xs)
  then show ?case using Cons.IH[of "k - 1"] by (cases k) (auto split: if_splits)
qed simp

lemma num_pollers_update:
  "k < length (pollers S) \<Longrightarrow> pollers T = (pollers S)[k := y] \<Longrightarrow>
   num_pollers Q T + (if Q (pollers S ! k) then 1 else 0) = num_pollers Q S + (if Q y then 1 else 0)"
  by (simp add: num_pollers_def length_filter_update)

lemma items_below_internal:
  assumes "items_below n P" "pool_internal P P'"
  shows "items_below n P'"
  using assms(2)
proof cases
  case (pop i)
  then obtain x xs where q: "work_items_queue P = x # xs" by (cases "work_items_queue P") auto
  have "set (worker_thread_vec P') \<subseteq> insert (case x of None \<Rightarrow> Terminated | Some w \<Rightarrow> Running w) (set (worker_thread_vec P))"
    using set_update_subset_insert pop q by (fastforce simp: worker_pop_def Let_def)
  with assms(1) q pop(1) show ?thesis by (fastforce simp: items_below_def worker_pop_def Let_def split: option.splits)
next
  case (clean)
  with assms(1) show ?thesis
    by (auto simp: items_below_def cleanup_step_def queue_push_def queue_post_def split: cleanup.splits nat.splits if_splits)
qed (use assms(1) in \<open>auto simp: items_below_def queue_post_def worker_wait_def worker_finish_def
       dest!: set_update_subset_insert[THEN subsetD]\<close>)

lemma items_below_queue:
  "items_below m P \<Longrightarrow> m \<le> i \<Longrightarrow> items_below (i + n) (queue_pollers i n P)"
proof (induction n arbitrary: i m P)
  case (Suc n)
  have "items_below (Suc i) (snd (QueueWorkInternal (Some i) P))"
    using Suc.prems by (force simp: items_below_def QueueWorkInternal_def queue_post_def queue_push_def)
  from Suc.IH[OF this order.refl] show ?case by simp
qed (force simp: items_below_def)

text \<open>What \<open>StartServer\<close> leaves when it returns.\<close>

lemma StartServer_facts:
  assumes "GrpcAsyncService_new N = Some S0" "StartServer N port S0 w = Some (S, w')"
  shows "contexts S = grpc_start" "cq S = OpenQueue" "stop_at S = NotStopping"
    "pollers S = replicate (nat (gpl_util_grpc_thread_count N)) (Registering 0)"
    "thread_pool S = queue_pollers 0 (nat (gpl_util_grpc_thread_count N))
       (snd (ThreadPool_Init (ThreadPool_new (word_of_int (gpl_util_grpc_thread_count N)))))"
    "server_address S = ''0.0.0.0:'' @ to_string port"
  using assms
  by (auto simp: StartServer_def GrpcAsyncService_new_def ThreadPool_Init_def Let_def grpc_start_def split: bind_splits prod.splits)

lemma server_inv_init:
  assumes "server_init N S"
  shows "server_inv S"
proof -
  from assms obtain port S0 w w' where s: "GrpcAsyncService_new N = Some S0" "StartServer N port S0 w = Some (S, w')"
    by (auto simp: server_init_def)
  note F = StartServer_facts[OF s]
  have "items_below 0 (snd (ThreadPool_Init (ThreadPool_new n)))" for n
    by (simp add: items_below_def ThreadPool_Init_def ThreadPool_new_def)
  from items_below_queue[OF this order.refl, of "nat (gpl_util_grpc_thread_count N)"] have "items_below (length (pollers S)) (thread_pool S)" by (simp add: F)
  moreover have "grpc_inv grpc_start" by (simp add: grpc_start_def grpc_inv_def live_def)
  moreover have "num_pollers (has_registered m) S = 0" for m
    by (simp add: num_pollers_def F has_registered_def filter_empty_conv)
  ultimately show ?thesis
    by (simp add: server_inv_def F lost_def grpc_start_def live_def listening_def)
qed

lemma runs_below: "server_inv S \<Longrightarrow> runs k S \<Longrightarrow> k < length (pollers S)"
  by (auto simp: server_inv_def items_below_def runs_def)

lemma has_registered_Suc:
  assumes "i < length RegisterRpcMethods"
  shows "has_registered m (Registering (Suc i)) \<longleftrightarrow> has_registered m (Registering i) \<or> m = RegisterRpcMethods ! i"
    "\<not> has_registered (RegisterRpcMethods ! i) (Registering i)"
proof -
  have d: "distinct RegisterRpcMethods" by (simp add: RegisterRpcMethods_def)
  show "has_registered m (Registering (Suc i)) \<longleftrightarrow> has_registered m (Registering i) \<or> m = RegisterRpcMethods ! i"
    using assms by (auto simp: has_registered_def take_Suc_conv_app_nth)
  show "\<not> has_registered (RegisterRpcMethods ! i) (Registering i)"
    using d assms by (auto simp: has_registered_def in_set_conv_nth nth_eq_iff_index_eq)
qed

lemma has_registered_all: "m \<in> set RegisterRpcMethods \<Longrightarrow> \<not> i < length RegisterRpcMethods \<Longrightarrow> has_registered m (Registering i)"
  by (simp add: has_registered_def)

lemma server_inv_pool:
  "server_inv S \<Longrightarrow> items_below (length (pollers S)) P \<Longrightarrow> server_inv (S\<lparr>thread_pool := P\<rparr>)"
  by (simp add: server_inv_def num_pollers_def)

lemma server_inv_items: "server_inv S \<Longrightarrow> items_below (length (pollers S)) (thread_pool S)"
  by (simp add: server_inv_def)

lemma server_inv_register:
  assumes inv: "server_inv S" and k: "k < length (pollers S)" and r: "poller_register k S = Some T"
  shows "server_inv T"
proof -
  obtain i where i: "pollers S ! k = Registering i"
    using r by (auto simp: poller_register_def split: poller.splits)
  show ?thesis
  proof (cases "i < length RegisterRpcMethods")
    case True
    let ?m = "RegisterRpcMethods ! i"
    obtain G where G: "register_method ?m (contexts S) = Some G"
      and T: "T = S\<lparr>contexts := G, pollers := (pollers S)[k := Registering (Suc i)]\<rparr>"
      using r i True by (auto simp: poller_register_def split: bind_splits)
    have g: "grpc_inv (contexts S)" using inv by (simp add: server_inv_def)
    have F: "grpc_inv G" "lost G = lost (contexts S)" "server_started G = server_started (contexts S)"
      "card (listening n G) = card (listening n (contexts S)) + (if n = ?m then 1 else 0)" for n
      using register_facts[OF g, of ?m n] grpc_invD(9)[OF g] G by (auto simp: lost_def)
    have p: "num_pollers Q T + (if Q (Registering i) then 1 else 0) =
        num_pollers Q S + (if Q (Registering (Suc i)) then 1 else 0)" for Q
      using num_pollers_update[OF k, of T] T i by simp
    have "num_pollers (\<lambda>p. p = Left_Loop) T = num_pollers (\<lambda>p. p = Left_Loop) S" using p[of "\<lambda>p. p = Left_Loop"] by simp
    moreover have "num_pollers (has_registered n) T = num_pollers (has_registered n) S + (if n = ?m then 1 else 0)" for n
      using p[of "has_registered n"] has_registered_Suc(1)[OF True, of n] has_registered_Suc(2)[OF True] by (auto split: if_splits)
    ultimately show ?thesis using inv F unfolding server_inv_def by (simp add: T)
  next
    case False
    then have T: "T = S\<lparr>pollers := (pollers S)[k := Polling]\<rparr>" using r i by (simp add: poller_register_def)
    have p: "num_pollers Q T + (if Q (Registering i) then 1 else 0) = num_pollers Q S + (if Q Polling then 1 else 0)" for Q
      using num_pollers_update[OF k, of T] T i by simp
    have "num_pollers (\<lambda>p. p = Left_Loop) T = num_pollers (\<lambda>p. p = Left_Loop) S" using p[of "\<lambda>p. p = Left_Loop"] by simp
    moreover have "num_pollers (has_registered n) T = num_pollers (has_registered n) S" if "n \<in> set RegisterRpcMethods" for n
      using p[of "has_registered n"] has_registered_all[OF that False] by (simp add: has_registered_def split: if_splits)
    ultimately show ?thesis using inv unfolding server_inv_def by (simp add: T)
  qed
qed

lemma server_inv_event:
  assumes inv: "server_inv S" and k: "k < length (pollers S)" and e: "next_event e S" and r: "poller_event k e S = Some T"
  shows "server_inv T"
proof -
  have g: "grpc_inv (contexts S)" using inv by (simp add: server_inv_def)
  have pk: "pollers S ! k = Polling" using r by (simp add: poller_event_def split: if_splits)
  obtain G again where T: "T = S\<lparr>contexts := G, pollers := (pollers S)[k := (if again then Polling else Left_Loop)]\<rparr>"
    and F: "grpc_inv G" "server_started G = server_started (contexts S)"
      "card (lost G) \<le> card (lost (contexts S)) + (if again then 0 else 1)"
      "\<And>m. card (listening m G) = card (listening m (contexts S))"
  proof (cases e)
    case None
    with r pk g show ?thesis by (intro that[where G = "contexts S" and again = False]) (simp_all add: poller_event_def)
  next
    case (Some x)
    obtain a ok where x: "x = (a, ok)" by (rule prod.exhaust)
    have a: "a \<in># outstanding (contexts S)" using e Some x by simp
    obtain again G where G: "poll_event ok a (contexts S) = Some (again, G)" using poll_event_facts[OF g a] by blast
    show ?thesis
    proof (rule that[where G = G and again = again])
      show "T = S\<lparr>contexts := G, pollers := (pollers S)[k := (if again then Polling else Left_Loop)]\<rparr>"
        using r pk Some x G by (simp add: poller_event_def)
      show "card (listening m G) = card (listening m (contexts S))" for m
        using poll_event_facts[OF g a, of ok m] G by simp
    qed (use poll_event_facts[OF g a, of ok] G in \<open>auto simp: lost_def\<close>)
  qed
  have p: "num_pollers Q T + (if Q Polling then 1 else 0) = num_pollers Q S + (if Q (if again then Polling else Left_Loop) then 1 else 0)" for Q
    using num_pollers_update[OF k, of T] T pk by simp
  have "num_pollers (\<lambda>p. p = Left_Loop) T = num_pollers (\<lambda>p. p = Left_Loop) S + (if again then 0 else 1)"
    using p[of "\<lambda>p. p = Left_Loop"] by (simp split: if_splits)
  moreover have "num_pollers (has_registered m) T = num_pollers (has_registered m) S" for m
    using p[of "has_registered m"] by (simp add: has_registered_def split: if_splits)
  ultimately show ?thesis using inv F unfolding server_inv_def by (auto simp: T)
qed

lemma server_inv_drain:
  assumes inv: "server_inv S" and d: "stop_at S = Draining" and a: "a \<in># outstanding (contexts S)"
  shows "server_inv (S\<lparr>contexts := drain_event a (contexts S)\<rparr>)"
proof -
  have g: "grpc_inv (contexts S)" using inv by (simp add: server_inv_def)
  have "lost (drain_event a (contexts S)) = lost (contexts S)"
    unfolding lost_def drain_live[OF g a] using a by blast
  moreover have "server_started (drain_event a (contexts S)) = server_started (contexts S)"
    by (simp add: drain_event_def delete_context_def)
  ultimately show ?thesis using inv d drop_facts(4)[OF g a] unfolding server_inv_def by (simp add: num_pollers_def)
qed

lemma server_inv_stop: "server_inv S \<Longrightarrow> server_inv (stop_begin S)"
proof -
  assume inv: "server_inv S"
  then have "grpc_inv (contexts S)" by (simp add: server_inv_def)
  then have "grpc_inv (stop_server (contexts S))" by (rule grpc.inv_step) (rule grpc_step.stop)
  moreover have "lost (stop_server G) = lost G" for G by (simp add: lost_def live_def stop_server_def)
  ultimately show ?thesis using inv by (simp add: server_inv_def stop_begin_def num_pollers_def stop_server_def)
qed

lemma server_inv_step:
  assumes inv: "server_inv S" and s: "server_step S T"
  shows "server_inv T"
  using s
proof cases
  case (pool_moves P)
  with items_below_internal[OF server_inv_items[OF inv]] server_inv_pool[OF inv] show ?thesis by simp
next
  case (poller_registers k)
  with server_inv_register[OF inv runs_below[OF inv]] show ?thesis by blast
next
  case (poller_polls k e)
  with server_inv_event[OF inv runs_below[OF inv]] show ?thesis by blast
next
  case (poller_returns i k)
  with items_below_internal[OF server_inv_items[OF inv] pool_internal.finish] server_inv_pool[OF inv] show ?thesis by simp
next
  case (stop_shuts)
  with inv show ?thesis by (auto simp: server_inv_def stop_shutdown_def num_pollers_def split: bind_splits)
next
  case (pool_cleanup)
  have "items_below (length (pollers S)) (WaitAndCleanUp (thread_pool S))"
    using server_inv_items[OF inv] by (simp add: items_below_def WaitAndCleanUp_def Let_def)
  with pool_cleanup server_inv_pool[OF inv] show ?thesis by simp
qed (use inv in \<open>auto simp: server_inv_stop server_inv_drain, auto simp: server_inv_def num_pollers_def\<close>)

lemma server_step_pollers: "server_step S T \<Longrightarrow> length (pollers T) = length (pollers S)"
  by (erule server_stepE)
     (auto simp: poller_register_def poller_event_def stop_begin_def stop_shutdown_def
       split: poller.splits if_splits bind_splits option.splits prod.splits)

interpretation grpc_server: inductive_invariant "server_init N" server_step
  "\<lambda>S. server_inv S \<and> length (pollers S) = nat (gpl_util_grpc_thread_count N)" for N :: "'n net_env"
proof unfold_locales
  show "server_inv S \<and> length (pollers S) = nat (gpl_util_grpc_thread_count N)" if "server_init N S" for S
    using server_inv_init[OF that] that by (auto simp: server_init_def StartServer_facts(4))
  show "server_inv T \<and> length (pollers T) = nat (gpl_util_grpc_thread_count N)"
    if "server_inv S \<and> length (pollers S) = nat (gpl_util_grpc_thread_count N)" and s: "server_step S T" for S T
    using server_inv_step[OF _ s] server_step_pollers[OF s] that by simp
qed

subsection \<open>Properties\<close>

text \<open>C18. The running server, over every interleaving of its threads, of incoming requests and of \<open>StopServer\<close>:
  while it is started each RPC method has as many contexts waiting for a request as polling functions
  have registered it; polling never touches a freed context, and \<open>StopServer\<close> never a queue that does not
  exist; the contexts that a shutdown leaves behind, neither freed nor on the queue, are at most one for
  each polling function that has left its loop, at most one per configured thread.\<close>

theorem server_keeps_listening:
  assumes "reachable (server_init N) server_step S"
  shows "(server_started (contexts S) \<longrightarrow>
       (\<forall>m\<in>set RegisterRpcMethods. card (listening m (contexts S)) = num_pollers (has_registered m) S)) \<and>
    (\<forall>k e. runs k S \<longrightarrow> next_event e S \<longrightarrow> pollers S ! k = Polling \<longrightarrow> (\<exists>T. poller_event k e S = Some T)) \<and>
    (\<exists>T. stop_shutdown S = Some T) \<and>
    card (lost (contexts S)) \<le> num_pollers (\<lambda>p. p = Left_Loop) S \<and>
    num_pollers (\<lambda>p. p = Left_Loop) S \<le> nat (gpl_util_grpc_thread_count N)"
proof -
  have inv: "server_inv S" and len: "length (pollers S) = nat (gpl_util_grpc_thread_count N)"
    using grpc_server.reachable_inv[OF assms] by simp_all
  have g: "grpc_inv (contexts S)" using inv by (simp add: server_inv_def)
  have "\<exists>T. poller_event k e S = Some T" if "next_event e S" "pollers S ! k = Polling" for k e
  proof (cases e)
    case (Some x)
    obtain a ok where x: "x = (a, ok)" by (rule prod.exhaust)
    have "a \<in># outstanding (contexts S)" using that(1) Some x by simp
    from poll_event_facts[OF g this] obtain again G where "poll_event ok a (contexts S) = Some (again, G)" by blast
    with that(2) Some x show ?thesis by (simp add: poller_event_def)
  qed (use that in \<open>simp add: poller_event_def\<close>)
  moreover have "num_pollers (\<lambda>p. p = Left_Loop) S \<le> nat (gpl_util_grpc_thread_count N)"
    unfolding num_pollers_def len[symmetric] by (rule length_filter_le)
  moreover have "\<exists>T. stop_shutdown S = Some T" using inv by (simp add: server_inv_def stop_shutdown_def)
  ultimately show ?thesis using inv by (simp add: server_inv_def)
qed

text \<open>A network where the port is busy for as many probes as the world counts.\<close>

definition sample_net :: "nat net_env" where
  "sample_net =
     \<lparr>n_socket = Pair 3, n_connect = (\<lambda>_ _ _ w. (if w = 0 then -1 else 0, w)), n_close = (\<lambda>_. Pair 0), n_sleep = (\<lambda>_ w. w - 1),
      n_build_and_start = (\<lambda>_ _. Pair (50051, True)), gpl_util_grpc_thread_count = 1,
      gpl_util_grpc_port_in_use_retry_delay_secs = 1, gpl_util_grpc_port_in_use_retry_count = 10,
      gpl_util_grpc_server_max_receive_message_size = 20 * 1024 * 1024\<rparr>"

text \<open>One thread, which has registered the first method.\<close>

lemma sample_server_reached:
  obtains S where "reachable (server_init sample_net) server_step S" "server_started (contexts S)"
    "pollers S = [Registering 1]"
proof -
  obtain S0 where S0: "GrpcAsyncService_new sample_net = Some S0"
    by (simp add: GrpcAsyncService_new_def ThreadPool_Init_def Let_def)
  have free: "IsPortInUse sample_net 50051 0 = Some (False, 0)" by (simp add: IsPortInUse_def sample_net_def Let_def)
  have "wait_port sample_net 50051 10 0 = Some (True, 0)" by (subst wait_port.simps) (simp add: free)
  then obtain S where S: "StartServer sample_net 50051 S0 0 = Some (S, 0)"
    by (simp add: StartServer_def sample_net_def Let_def)
  note F = StartServer_facts[OF S0 S]
  have r0: "reachable (server_init sample_net) server_step S"
    by (rule reach_init) (use S0 S in \<open>auto simp: server_init_def\<close>)
  let ?P = "thread_pool S"
  have P: "worker_thread_vec ?P = [Waiting]" "work_items_queue ?P = [Some 0]" "pending_work_items_sem ?P = 1"
    by (simp_all add: F sample_net_def ThreadPool_Init_def ThreadPool_new_def QueueWorkInternal_def queue_push_def queue_post_def)
  let ?P1 = "worker_wait 0 ?P"
  have r1: "reachable (server_init sample_net) server_step (S\<lparr>thread_pool := ?P1\<rparr>)"
    by (rule reach_step[OF r0 pool_moves[OF pool_internal.wait]]) (simp_all add: P worker_wait_def)
  let ?P2 = "worker_pop 0 ?P1"
  have "server_step (S\<lparr>thread_pool := ?P1\<rparr>) (S\<lparr>thread_pool := ?P1\<rparr>\<lparr>thread_pool := ?P2\<rparr>)"
    by (rule pool_moves, simp, rule pool_internal.pop) (simp_all add: P worker_wait_def worker_pop_def Let_def)
  note r2 = reach_step[OF r1 this]
  let ?S = "S\<lparr>thread_pool := ?P2\<rparr>"
  have g: "grpc_inv (contexts ?S)" using grpc_server.reachable_inv[OF r2] by (simp add: server_inv_def)
  obtain G where G: "register_method (RegisterRpcMethods ! 0) (contexts S) = Some G" "server_started G"
    using register_facts[OF g, of "RegisterRpcMethods ! 0" "[]"] by (auto simp: F grpc_start_def)
  have p: "pollers S = [Registering 0]" by (simp add: F sample_net_def)
  have "poller_register 0 ?S = Some (?S\<lparr>contexts := G, pollers := [Registering 1]\<rparr>)"
    using G by (simp add: poller_register_def p RegisterRpcMethods_def)
  moreover have "runs 0 ?S" by (simp add: runs_def worker_pop_def worker_wait_def P Let_def)
  ultimately have "server_step ?S (?S\<lparr>contexts := G, pollers := [Registering 1]\<rparr>)" by (rule poller_registers[rotated])
  from reach_step[OF r2[simplified] this] show ?thesis by (rule that) (simp_all add: G)
qed

theorem server_keeps_listening_witness:
  "\<exists>S. reachable (server_init sample_net) server_step S \<and>
     card (listening ''SmbProxyCreateEntity'' (contexts S)) = 1 \<and>
     card (listening ''SmbProxyVerifyShare'' (contexts S)) = 0 \<and> card (lost (contexts S)) \<le> 0"
proof -
  obtain S where S: "reachable (server_init sample_net) server_step S" "server_started (contexts S)" "pollers S = [Registering 1]"
    by (rule sample_server_reached)
  have m: "''SmbProxyCreateEntity'' \<in> set RegisterRpcMethods" "''SmbProxyVerifyShare'' \<in> set RegisterRpcMethods"
    by (simp_all add: RegisterRpcMethods_def)
  have n: "num_pollers (has_registered ''SmbProxyCreateEntity'') S = 1"
    "num_pollers (has_registered ''SmbProxyVerifyShare'') S = 0" "num_pollers (\<lambda>p. p = Left_Loop) S = 0"
    using S(3) by (simp_all add: num_pollers_def has_registered_def RegisterRpcMethods_def)
  note k = server_keeps_listening[OF S(1)]
  have l: "card (listening m (contexts S)) = num_pollers (has_registered m) S" if "m \<in> set RegisterRpcMethods" for m
    using k S(2) that by blast
  have "card (lost (contexts S)) \<le> 0" using k unfolding n(3) by blast
  with S(1) l[OF m(1)] l[OF m(2)] n show ?thesis by auto
qed

text \<open>The outcomes of successive probes, when the system calls succeed.\<close>

definition sockets_work :: "'n net_env \<Rightarrow> bool" where
  "sockets_work N \<longleftrightarrow> (\<forall>w. fst (n_socket N w) \<noteq> -1) \<and> (\<forall>s w. fst (n_close N s w) \<noteq> -1)"

definition probe :: "'n net_env \<Rightarrow> int \<Rightarrow> 'n \<Rightarrow> bool \<times> 'n" where
  "probe N port w =
     (let (sock, w) = n_socket N w; (c, w) = n_connect N sock ''127.0.0.1'' (word_of_int port) w; (_, w) = n_close N sock w
      in (c \<noteq> -1, w))"

fun busy_at :: "'n net_env \<Rightarrow> int \<Rightarrow> 'n \<Rightarrow> nat \<Rightarrow> bool" where
  "busy_at N port w 0 \<longleftrightarrow> fst (probe N port w)"
| "busy_at N port w (Suc k) \<longleftrightarrow>
     busy_at N port (n_sleep N (gpl_util_grpc_port_in_use_retry_delay_secs N) (snd (probe N port w))) k"

lemma IsPortInUse_probe: "sockets_work N \<Longrightarrow> IsPortInUse N port w = Some (probe N port w)"
proof -
  assume ok: "sockets_work N"
  obtain s v where s: "n_socket N w = (s, v)" by (rule prod.exhaust)
  obtain c u where c: "n_connect N s ''127.0.0.1'' (word_of_int port) v = (c, u)" by (rule prod.exhaust)
  obtain r t where r: "n_close N s u = (r, t)" by (rule prod.exhaust)
  have "s \<noteq> -1" "r \<noteq> -1" using ok s r unfolding sockets_work_def by (metis fst_conv)+
  with s c r show ?thesis by (simp add: IsPortInUse_def probe_def)
qed

lemma wait_port_bounded:
  assumes "sockets_work N"
  shows "0 < n \<Longrightarrow> \<exists>r k w'. wait_port N port (int n) w = Some (r, w') \<and> k \<le> n \<and> (\<forall>j<k. busy_at N port w j) \<and>
     (if r then k < n \<and> \<not> busy_at N port w k else k = n)"
proof (induction n arbitrary: w)
  case (Suc n)
  obtain b v where p: "probe N port w = (b, v)" by (rule prod.exhaust)
  let ?w = "n_sleep N (gpl_util_grpc_port_in_use_retry_delay_secs N) v"
  have step: "wait_port N port (int (Suc n)) w =
      (if b then if n = 0 then Some (False, ?w) else wait_port N port (int n) ?w else Some (True, v))"
    by (subst wait_port.simps) (simp add: IsPortInUse_probe[OF assms] p)
  show ?case
  proof (cases "b \<and> n \<noteq> 0")
    case True
    with Suc.IH[of ?w] obtain r k w' where k: "wait_port N port (int n) ?w = Some (r, w')" "k \<le> n"
      "\<forall>j<k. busy_at N port ?w j" "if r then k < n \<and> \<not> busy_at N port ?w k else k = n" by auto
    have "\<forall>j<Suc k. busy_at N port w j" using k(3) True by (auto simp: less_Suc_eq_0_disj p)
    with k True step show ?thesis by (intro exI[of _ r] exI[of _ "Suc k"] exI[of _ w']) (auto simp: p)
  next
    case False
    then show ?thesis using step p by (auto intro!: exI[of _ "if b then 1 else 0"])
  qed
qed simp

text \<open>The wait for the port ends: with a positive retry count \<open>StartServer\<close> probes the port at most that many
  times, goes on at the first probe that finds the port free, and aborts exactly when all of these
  probes find it in use.\<close>

theorem wait_port_terminates:
  assumes "0 < gpl_util_grpc_port_in_use_retry_count N" "sockets_work N"
  shows "\<exists>free k w'. wait_port N port (gpl_util_grpc_port_in_use_retry_count N) w = Some (free, w') \<and>
    k \<le> nat (gpl_util_grpc_port_in_use_retry_count N) \<and> (\<forall>j<k. busy_at N port w j) \<and>
    (if free then k < nat (gpl_util_grpc_port_in_use_retry_count N) \<and> \<not> busy_at N port w k
     else k = nat (gpl_util_grpc_port_in_use_retry_count N) \<and> StartServer N port S w = None)"
proof -
  have n: "int (nat (gpl_util_grpc_port_in_use_retry_count N)) = gpl_util_grpc_port_in_use_retry_count N" using assms(1) by simp
  obtain r k w' where k: "wait_port N port (gpl_util_grpc_port_in_use_retry_count N) w = Some (r, w')"
    "k \<le> nat (gpl_util_grpc_port_in_use_retry_count N)" "\<forall>j<k. busy_at N port w j"
    "if r then k < nat (gpl_util_grpc_port_in_use_retry_count N) \<and> \<not> busy_at N port w k
     else k = nat (gpl_util_grpc_port_in_use_retry_count N)"
    using wait_port_bounded[OF assms(2), of "nat (gpl_util_grpc_port_in_use_retry_count N)" port w] assms(1) unfolding n by auto
  moreover have "StartServer N port S w = None" if "\<not> r" using k(1) that by (simp add: StartServer_def Let_def abort_simps)
  ultimately show ?thesis by (intro exI[of _ r] exI[of _ k] exI[of _ w']) auto
qed

theorem wait_port_terminates_witness:
  "\<exists>w'. wait_port sample_net 50051 10 3 = Some (True, w')"
proof -
  have s: "sockets_work sample_net" "0 < gpl_util_grpc_port_in_use_retry_count sample_net"
    "gpl_util_grpc_port_in_use_retry_count sample_net = 10" by (simp_all add: sockets_work_def sample_net_def)
  have "\<not> busy_at sample_net 50051 3 3" by (simp add: eval_nat_numeral probe_def sample_net_def)
  with wait_port_terminates[OF s(2,1), of 50051 3] show ?thesis unfolding s(3) by (force split: if_splits)
qed

end
