(* ===== verification/Spec2Isabelle.thy ===== *)
theory Spec2Isabelle
  imports Proxy_Lifecycle Process_Main Fetch_Data File_Service Delete_Total Listing Restore_Results
    Request_Results Scoped_Runner Grpc_Server
begin

text \<open>
  A verification development of the SMB proxy (\<open>src/gpl_util\<close>, \<open>src/apache_util\<close>): a process that serves
  backup and restore requests over gRPC by talking to SMB servers through a wrapper of the Samba client.

  \<^bold>\<open>The program.\<close> \<open>smb_proxy_exec.cc\<close> starts a parent that watches a child (\<open>base/util.cc\<close>); the child runs
  \<open>SmbProxy\<close> (\<open>smb/smb_proxy.{h,cc}\<close>), a \<open>GrpcAsyncService\<close> (\<open>grpclib\<close>) whose polling threads run in a
  \<open>ThreadPool\<close>. Every request names a task. A task owns connections: active ones, indexed by creation time,
  and inactive ones, the longest unused first. A handler takes a connection
  (\<open>GetOrCreateSmbConnection\<close>), works, and gives it back (\<open>ReleaseSmbConnection\<close>) or shuts it down when it
  was lost. Each connection caches file handles; each task caches which files it has seen
  (\<open>LRUCache\<close>), under the lock of the path (\<open>IDLocker\<close>). An alarm purges idle tasks and connections and
  checks the memory. The larger requests are operations of their own (\<open>smb/ops\<close>).

  \<^bold>\<open>The model.\<close> Each theory names the file it models; definitions keep the names of the functions.
  \<^item> \<open>Prelude\<close>: integer types, unordered maps as association lists in an iteration order, \<open>CHECK\<close>, step
    systems and the locale \<open>inductive_invariant\<close>. \<open>Node_List\<close>: \<^verbatim>\<open>std::list\<close> with iterators kept in a map,
    the specification of a recency list and the locales \<open>bounded_cache\<close> and \<open>lru_cache\<close>.
  \<^item> \<open>Error_Model\<close> (\<open>base/error\<close>), \<open>Net_Util\<close> (\<open>net/util.cc\<close>), \<open>Smb_Params\<close> (the messages), \<open>Smb_Util\<close> and
    \<open>Smb_Server\<close> (\<open>smb/util.{h,cc}\<close>: pure functions, and functions that call the server).
  \<^item> \<open>LRU_Cache\<close> (\<open>base/lru_cache.h\<close>), \<open>Id_Locker\<close> (\<open>base/id_locker\<close>), \<open>Thread_Pool\<close> (\<open>base/thread_pool\<close>),
    \<open>Scoped_Runner\<close> (\<open>base/scoped_runner.h\<close>), \<open>Self_Monitor\<close>, \<open>Log_Text\<close> and \<open>Process_Main\<close>
    (\<open>base/util.cc\<close> and \<open>main\<close> of \<open>smb_proxy_exec.cc\<close>), \<open>Grpc_Context\<close> (\<open>RpcContext\<close> of \<open>grpclib\<close>) and \<open>Grpc_Server\<close>
    (\<open>GrpcAsyncService\<close>: \<open>StartServer\<close>, the polling functions on the thread pool, \<open>StopServer\<close>; sockets and
    the builder of the library in the record \<open>net_env\<close>), \<open>Http_Server\<close> (\<open>http_server/common_http_server.cc\<close>).
  \<^item> \<open>Smb_Env\<close>: the calls the sources make to code outside of them (Samba wrapper, clock, resolver,
    \<^verbatim>\<open>talloc\<close>, \<^verbatim>\<open>boost::filesystem\<close>, protobuf serialization, flags) as one record, the first argument of
    every operation; nothing is assumed of it unless a theorem says so. \<open>Sample_Server\<close>: an instance.
  \<^item> \<open>Smb_Proxy_State\<close>, \<open>Conn_Pool\<close>, \<open>File_Handles\<close>, \<open>File_Read\<close>, \<open>File_Write\<close>, \<open>Smb_Proxy_Rpc\<close>: \<open>smb_proxy.cc\<close>.
    The state is one record \<open>proxy\<close>: heaps of connections, tasks and file caches by address, the two maps,
    the locker, and the world outside.
  \<^item> \<open>Delete_Entity_Op\<close>, \<open>Fetch_File_Handle_Op\<close>, \<open>Create_Restore_Files_Op\<close>, \<open>Finalize_Restore_Files_Op\<close>,
    \<open>Entity_Loops\<close> and \<open>Entity_Ops\<close>: the operations of \<open>smb/ops\<close>. \<open>Service\<close>: the dispatch of the methods.
    \<open>Proxy_Lifecycle\<close>: constructor, \<open>Start\<close>, the alarm thread and the destructor of \<open>SmbProxy\<close>.

  \<^bold>\<open>Conventions.\<close> An error is a value; \<open>None\<close> as the result of an operation means that it does not return:
  a failed \<open>CHECK\<close>, \<open>LOG(FATAL)\<close> or exception, or a loop that does not end. \<open>DCHECK\<close>, log lines and
  status text of log lines are left out. Unsigned integers are words; signed ones are \<^typ>\<open>int\<close>, since their overflow
  is undefined in the source, and conversions between them are written out. Loops that the code bounds are
  structural recursions over that bound (\<open>evict_handles\<close>: the length of the list; \<open>read_loop\<close>,
  \<open>write_loop\<close>, \<open>retry_loop\<close>, \<open>connect_loop\<close>: the retry flags), so no fuel is chosen; loops
  it does not bound (\<open>read_all\<close>, \<open>write_all\<close>, \<open>DeleteDir\<close>, \<open>wait_port\<close>) are partial functions; the theorems about
  reading, writing and waiting state that they return. \<open>DeleteDir\<close> need not return when the server goes on
  listing new entries; \<open>Delete_Returns\<close> and \<open>Delete_Total\<close> show that it does where paths are bounded and a directory fits
  into a page or the objects a page names are there.

  \<^bold>\<open>What is shown.\<close>
  \<^item> Components. The LRU cache and the handle cache of a connection implement a bounded recency list
    (\<open>LRU_Cache\<close>, \<open>File_Handles\<close>, through the locales). The locker gives mutual exclusion and leaves no
    dangling reference in any interleaving; the thread pool runs every item once, in order, and its cleanup
    ends; gRPC contexts are not used after they are freed, and the running server, threads and contexts
    composed, keeps a context listening per method and thread and loses at most one per thread when it stops.
    These are step relations with invariants by rule induction, through the locale \<open>inductive_invariant\<close>.
  \<^item> The pool. \<open>Conn_Pool\<close> has the invariant \<open>pool_ok\<close> and shows that every operation of the pool keeps it;
    \<open>Pool_System\<close> shows in the locale \<open>conn_pool\<close> that no connection is used by two requests at once in any
    interleaving of requests; \<open>Request_Frame\<close>, \<open>Service\<close> and, for the walk through directories,
    \<open>Delete_Returns\<close> show that a whole request gives back what it took.
  \<^item> Data. \<open>File_Read\<close>, \<open>File_Write\<close> and \<open>Fetch_Data\<close>: the bytes read and written are those of the file,
    with every retry, chunk and short read; \<open>File_Service\<close>: any sequence of such requests, over any reuse of connections
    and handles, refines an abstract map from paths to contents, so that a client reads what it wrote; \<open>Delete_Safety\<close>:
    the recursive deletion removes nothing outside of the directory of the request; by \<open>Delete_Total\<close> it ends over
    listings of any number of pages, and by \<open>Delete_Returns\<close> it gives its connections back. Both rest on \<open>World_View\<close>: what
    connecting and listing leave alone. \<open>Restore_Results\<close>: metadata survives backup and restore;
    \<open>Listing\<close>: a cookie continues the listing it came from; \<open>Smb_Server\<close>: directories with their parents are created
    all or not at all.
  \<^item> The service. \<open>State_Invariants\<close> shows once, in the locales \<open>op_invariant\<close> and \<open>proxy_invariant\<close> (which adds the
    lock of a path), that every request keeps an invariant that survives the elementary changes, and interprets
    them for the caches of the proxy and for the locker: no request leaves a path locked;
    \<open>Proxy_Lifecycle\<close> carries this over to the life of the object, with alarms and the destructor interleaved.
    \<open>Request_Results\<close> has the results of requests: the loop over entities against a reference, retries,
    and four places where the code does not do what it means to.
  \<^item> The process. \<open>Process_Main\<close>: only a forked child serves, and it is replaced exactly when it is gone.

  \<^bold>\<open>Not modelled.\<close> The macros of \<open>basictypes.h\<close> for other compilers and linkers, the function that embeds the builder's
  name (\<open>build_info.h\<close>), constructors of operations that only store their arguments (here the arguments of \<open>Execute\<close> and
  \<open>Start\<close>), the members of headers that only declare what is defined elsewhere. The text a \<open>DCHECK\<close> or
  a log line would print is not part of any result. Handlers are sequential except in \<open>Pool_System\<close>,
  \<open>Id_Locker\<close>, \<open>Thread_Pool\<close>, \<open>Grpc_Context\<close> and \<open>Grpc_Server\<close>, where the steps under a lock interleave; in
  \<open>Proxy_Lifecycle\<close> whole requests interleave with the alarm thread and the destructor.
\<close>

end
